(* ===== verification/Doubles.thy ===== *)
theory Doubles
  imports Complex_Main "HOL-Library.Log_Nat"
begin

text \<open>
  The IEEE 754 binary64 arithmetic of the distance strategy. A finite \<open>double\<close> is the rational number
  it denotes and \<open>fl\<close> rounds an exact result to 53 significant bits, ties to even. All quantities of the
  strategy lie between \<open>2 ^ -60\<close> and \<open>2 ^ 60\<close>, far from underflow and overflow, so the exponent is not
  bounded here. The lemmas give the standard relative error bound and exactness on small integers.
\<close>

section \<open>Rounding\<close>

type_synonym double = rat

definition rne :: "rat \<Rightarrow> int" where
  "rne x =
     (let f = \<lfloor>x\<rfloor>; d = x - of_int f in
      if d < 1 / 2 then f else if d > 1 / 2 then f + 1 else if even f then f else f + 1)"

text \<open>The binary exponent of a positive rational: \<open>2 ^ e \<le> x < 2 ^ (e + 1)\<close>.\<close>

definition bexp :: "rat \<Rightarrow> int" where
  "bexp x =
     (let (p, q) = quotient_of x;
          e = int (floorlog 2 (nat p)) - int (floorlog 2 (nat q))
      in if 2 powi e \<le> x then e else e - 1)"

definition fl :: "rat \<Rightarrow> double" where
  "fl x =
     (if x = 0 then 0
      else let u = 2 powi (bexp \<bar>x\<bar> - 52) in of_int (rne (x / u)) * u)"

definition d_add :: "double \<Rightarrow> double \<Rightarrow> double" where "d_add x y = fl (x + y)"
definition d_sub :: "double \<Rightarrow> double \<Rightarrow> double" where "d_sub x y = fl (x - y)"
definition d_mul :: "double \<Rightarrow> double \<Rightarrow> double" where "d_mul x y = fl (x * y)"
definition d_div :: "double \<Rightarrow> double \<Rightarrow> double" where "d_div x y = fl (x / y)"

text \<open>Conversion to an integer type truncates towards zero.\<close>

definition d_trunc :: "double \<Rightarrow> int" where
  "d_trunc x = (if x < 0 then \<lceil>x\<rceil> else \<lfloor>x\<rfloor>)"

text \<open>The unit roundoff \<open>2 ^ -53\<close>.\<close>

definition unit_roundoff :: rat where "unit_roundoff = 1 / 2 ^ 53"

section \<open>Lemmas\<close>

lemma rne_error: "\<bar>of_int (rne x) - x\<bar> \<le> 1 / 2"
proof -
  have "of_int \<lfloor>x\<rfloor> \<le> x" "x < of_int \<lfloor>x\<rfloor> + 1" by linarith+
  then show ?thesis by (auto simp: rne_def Let_def abs_le_iff)
qed

lemma rne_of_int [simp]: "rne (of_int n) = n"
  by (simp add: rne_def Let_def)

lemma floorlog_rat_bounds:
  assumes "0 < p"
  shows "(2::rat) powi (int (floorlog 2 (nat p)) - 1) \<le> of_int p"
    and "of_int p < (2::rat) powi int (floorlog 2 (nat p))"
proof -
  define a where "a = floorlog 2 (nat p)"
  have a: "2 ^ (a - 1) \<le> nat p" "nat p < 2 ^ a" and a1: "1 \<le> a"
    using assms floorlog_bounds [of "nat p" 2] unfolding a_def by (auto simp: floorlog_def)
  have "(2::int) ^ (a - 1) \<le> p"
    using a(1) assms by (metis int_nat_eq less_imp_le of_nat_le_iff of_nat_numeral of_nat_power)
  then have "(2::rat) ^ (a - 1) \<le> of_int p" by (metis of_int_le_iff of_int_numeral of_int_power)
  moreover have "(2::rat) powi (int a - 1) = 2 ^ (a - 1)" using a1 by (simp add: power_int_def nat_diff_distrib)
  ultimately show "(2::rat) powi (int (floorlog 2 (nat p)) - 1) \<le> of_int p" by (simp add: a_def)
  have "p < (2::int) ^ a" using a(2) assms by (simp add: nat_less_iff)
  then show "of_int p < (2::rat) powi int (floorlog 2 (nat p))"
    unfolding a_def [symmetric] by (metis of_int_less_iff of_int_numeral of_int_power power_int_of_nat)
qed

lemma powi_2_mult: "i + j = k \<Longrightarrow> (2::rat) powi i * 2 powi j = 2 powi k"
  by (subst power_int_add [symmetric]) auto

lemma bexp_bounds:
  assumes "0 < x"
  shows "2 powi (bexp x) \<le> x" and "x < 2 powi (bexp x + 1)"
proof -
  obtain p q where pq: "quotient_of x = (p, q)" by (cases "quotient_of x")
  have q: "0 < q" using pq quotient_of_denom_pos by blast
  have x: "x = of_int p / of_int q" using pq by (rule quotient_of_div)
  with assms q have p: "0 < p" by (simp add: zero_less_divide_iff)
  define a where "a = int (floorlog 2 (nat p))"
  define b where "b = int (floorlog 2 (nat q))"
  note pr = floorlog_rat_bounds [OF p, folded a_def] and qr = floorlog_rat_bounds [OF q, folded b_def]
  have q0: "(0::rat) < of_int q" using q by simp
  have "(2::rat) powi (a - b - 1) * of_int q \<le> 2 powi (a - b - 1) * 2 powi b"
    using qr(2) by (intro mult_left_mono) auto
  also have "\<dots> = 2 powi (a - 1)" by (rule powi_2_mult) simp
  also have "\<dots> \<le> of_int p" by (rule pr)
  finally have lower: "2 powi (a - b - 1) \<le> x" using q0 by (simp add: x pos_le_divide_eq)
  have "of_int p < (2::rat) powi a" by (rule pr)
  also have "\<dots> = 2 powi (a - b + 1) * 2 powi (b - 1)" by (rule powi_2_mult [symmetric]) simp
  also have "\<dots> \<le> 2 powi (a - b + 1) * of_int q"
    using qr(1) by (intro mult_left_mono) auto
  finally have upper: "x < 2 powi (a - b + 1)" using q0 by (simp add: x pos_divide_less_eq)
  have "bexp x = (if 2 powi (a - b) \<le> x then a - b else a - b - 1)"
    by (simp add: bexp_def pq a_def b_def Let_def)
  with lower upper show "2 powi (bexp x) \<le> x" and "x < 2 powi (bexp x + 1)" by auto
qed

text \<open>The relative error of one rounding is at most the unit roundoff.\<close>

lemma fl_error: "\<bar>fl x - x\<bar> \<le> unit_roundoff * \<bar>x\<bar>"
proof (cases "x = 0")
  case False
  define e where "e = bexp \<bar>x\<bar>"
  define u where "u = (2::rat) powi (e - 52)"
  have u: "0 < u" by (simp add: u_def)
  have ex: "2 powi e \<le> \<bar>x\<bar>" using bexp_bounds(1) [of "\<bar>x\<bar>"] False by (simp add: e_def)
  have ue: "u = 2 powi e / 2 ^ 52" by (simp add: u_def power_int_diff)
  have "fl x - x = (of_int (rne (x / u)) - x / u) * u"
    using False u by (simp add: fl_def Let_def u_def e_def field_simps)
  then have "\<bar>fl x - x\<bar> = \<bar>of_int (rne (x / u)) - x / u\<bar> * u"
    using u by (simp add: abs_mult)
  also have "\<dots> \<le> 1 / 2 * u" using rne_error u by (intro mult_right_mono) auto
  also have "\<dots> = unit_roundoff * 2 powi e" by (simp add: ue unit_roundoff_def)
  also have "\<dots> \<le> unit_roundoff * \<bar>x\<bar>" using ex by (simp add: unit_roundoff_def)
  finally show ?thesis .
qed (simp add: fl_def)

lemma fl_of_int: "\<bar>n\<bar> < 2 ^ 53 \<Longrightarrow> fl (of_int n) = of_int n"
proof (cases "n = 0")
  case False
  assume n: "\<bar>n\<bar> < 2 ^ 53"
  define e where "e = bexp \<bar>of_int n :: rat\<bar>"
  have "(2::rat) powi e \<le> of_int \<bar>n\<bar>" using bexp_bounds(1) [of "\<bar>of_int n :: rat\<bar>"] False by (simp add: e_def)
  also have "\<dots> < of_int (2 ^ 53)" using n by (simp only: of_int_less_iff)
  also have "\<dots> = (2::rat) powi 53" by (simp add: power_int_def)
  finally have lt: "(2::rat) powi e < 2 powi 53" .
  have "e < 53"
  proof (rule ccontr)
    assume "\<not> e < 53"
    then have "(2::rat) powi 53 \<le> 2 powi e" by (intro power_int_increasing) auto
    with lt show False by simp
  qed
  then have "(2::rat) powi (e - 52) = inverse (2 ^ nat (52 - e))"
    by (cases "e = 52") (auto simp: power_int_def power_one_over inverse_eq_divide)
  then have k: "of_int n / (2::rat) powi (e - 52) = of_int (n * 2 ^ nat (52 - e))"
    by (simp add: divide_inverse)
  have "fl (of_int n) = of_int (rne (of_int n / 2 powi (e - 52))) * 2 powi (e - 52)"
    using False by (simp add: fl_def Let_def e_def)
  also have "\<dots> = of_int n / 2 powi (e - 52) * 2 powi (e - 52)" unfolding k rne_of_int ..
  finally show ?thesis by simp
qed (simp add: fl_def)

lemma fl_0 [simp]: "fl 0 = 0"
  by (simp add: fl_def)

lemma fl_bounds:
  assumes "0 \<le> x"
  shows "x * (1 - unit_roundoff) \<le> fl x" and "fl x \<le> x * (1 + unit_roundoff)"
  using fl_error [of x] assms by (simp_all add: algebra_simps abs_le_iff)

lemma d_trunc_nonneg: "0 \<le> x \<Longrightarrow> d_trunc x = \<lfloor>x\<rfloor>"
  by (simp add: d_trunc_def)

lemma d_trunc_of_int [simp]: "d_trunc (of_int n) = n"
  by (simp add: d_trunc_def)

end
