(* ===== verification/Val_Prelude.thy ===== *)
theory Val_Prelude
  imports Main "HOL-Library.Word"
begin

text \<open>
  Shared vocabulary of the development: the machine integers of the C++ sources, results that
  carry an error (a thrown \<open>tlv::Error\<close>) or mark undefined behaviour of the C++ abstract machine,
  the list traversals every VAL table is written with, and the theorem collections the component
  theories fill.
\<close>

section \<open>Machine integers\<close>

type_synonym byte = "8 word"
type_synonym u8 = "8 word"
type_synonym u16 = "16 word"
type_synonym u32 = "32 word"
type_synonym u64 = "64 word"

text \<open>A \<open>FaceId\<close> is a \<open>uint64_t\<close>, an Interest nonce a \<open>uint32_t\<close>.\<close>

type_synonym face_id = u64
type_synonym nonce = u32

named_theorems tlv_simps \<open>evaluation and shape of the TLV readers and writers\<close>
named_theorems table_simps \<open>the VAL tables seen through their entry lists\<close>
named_theorems table_inv \<open>preservation of the table invariants\<close>
named_theorems fwd_simps \<open>evaluation of the forwarding pipelines\<close>

section \<open>Results\<close>

text \<open>
  A C++ function that may throw returns \<open>'e + 'a\<close>; \<open>bindR\<close> stops at the first exception, as
  stack unwinding does.
\<close>

definition bindR :: "'e + 'a \<Rightarrow> ('a \<Rightarrow> 'e + 'b) \<Rightarrow> 'e + 'b" where
  "bindR r f = (case r of Inl e \<Rightarrow> Inl e | Inr a \<Rightarrow> f a)"

text \<open>
  An operation whose C++ behaviour may be undefined returns an \<open>outcome\<close>: \<open>Undef\<close> names what the
  code does that the language gives no meaning to (or the failed assertion).
\<close>

datatype ub_reason =
    NullDereference
  | EndDereference
  | InvalidatedIterator
  | FloatConversion
  | AssertionFailed

datatype 'a outcome = Def 'a | Undef ub_reason

definition bindU :: "'a outcome \<Rightarrow> ('a \<Rightarrow> 'b outcome) \<Rightarrow> 'b outcome" where
  "bindU r f = (case r of Def a \<Rightarrow> f a | Undef u \<Rightarrow> Undef u)"

text \<open>\<open>BOOST_ASSERT(c)\<close> before the rest of a function.\<close>

definition assertion :: "bool \<Rightarrow> 'a outcome \<Rightarrow> 'a outcome" where
  "assertion c x = (if c then x else Undef AssertionFailed)"

section \<open>List traversals\<close>

text \<open>The scan of a \<open>std::list\<close> that erases the first element satisfying \<open>P\<close> and stops.\<close>

fun erase_first :: "('a \<Rightarrow> bool) \<Rightarrow> 'a list \<Rightarrow> 'a list" where
  "erase_first P [] = []"
| "erase_first P (x # xs) = (if P x then xs else x # erase_first P xs)"

text \<open>Replacing the first element satisfying \<open>P\<close> (an update through an iterator).\<close>

fun update_first :: "('a \<Rightarrow> bool) \<Rightarrow> ('a \<Rightarrow> 'a) \<Rightarrow> 'a list \<Rightarrow> 'a list" where
  "update_first P f [] = []"
| "update_first P f (x # xs) = (if P x then f x # xs else x # update_first P f xs)"

section \<open>Lemmas on results\<close>

lemma bindR_Inl [simp]: "bindR (Inl e) f = Inl e"
  and bindR_Inr [simp]: "bindR (Inr a) f = f a"
  by (simp_all add: bindR_def)

lemma bindR_eq_Inr: "bindR r f = Inr b \<longleftrightarrow> (\<exists>a. r = Inr a \<and> f a = Inr b)"
  by (cases r) auto

lemma bindR_eq_InrE:
  assumes "bindR r f = Inr b"
  obtains a where "r = Inr a" and "f a = Inr b"
  using assms by (auto simp: bindR_eq_Inr)

lemma bindR_cong [fundef_cong]:
  assumes "r = r'" and "\<And>a. r' = Inr a \<Longrightarrow> f a = g a"
  shows "bindR r f = bindR r' g"
  using assms by (cases r') auto

lemma bindU_simps [simp]:
  "bindU (Def a) f = f a"
  "bindU (Undef u) f = Undef u"
  by (simp_all add: bindU_def)

lemma assertion_True: "assertion True x = x"
  by (simp add: assertion_def)

lemma bindU_cong [fundef_cong]:
  assumes "r = r'" and "\<And>a. r' = Def a \<Longrightarrow> f a = g a"
  shows "bindU r f = bindU r' g"
  using assms by (cases r') auto

lemma bindU_eq_Def: "bindU r f = Def b \<longleftrightarrow> (\<exists>a. r = Def a \<and> f a = Def b)"
  by (cases r) auto

section \<open>Lemmas on traversals\<close>

lemma erase_first_none [simp]: "\<forall>x\<in>set xs. \<not> P x \<Longrightarrow> erase_first P xs = xs"
  by (induction xs) auto

lemma set_erase_first: "set (erase_first P xs) \<subseteq> set xs"
  by (induction xs) auto

lemma erase_first_keeps: "x \<in> set xs \<Longrightarrow> \<not> P x \<Longrightarrow> x \<in> set (erase_first P xs)"
  by (induction xs) auto

lemma length_erase_first:
  "length (erase_first P xs) = (if \<exists>x\<in>set xs. P x then length xs - 1 else length xs)"
  by (induction xs) (auto dest!: length_pos_if_in_set)

lemma Suc_length_erase_first: "x \<in> set xs \<Longrightarrow> P x \<Longrightarrow> Suc (length (erase_first P xs)) = length xs"
  by (induction xs) auto

lemma distinct_erase_first: "distinct (map f xs) \<Longrightarrow> distinct (map f (erase_first P xs))"
  by (induction xs) (auto dest: subsetD [OF set_erase_first])

lemma erase_first_eq_filter:
  assumes "\<And>x y. x \<in> set xs \<Longrightarrow> y \<in> set xs \<Longrightarrow> P x \<Longrightarrow> P y \<Longrightarrow> k x = k y"
    and "distinct (map k xs)"
  shows "erase_first P xs = filter (\<lambda>x. \<not> P x) xs"
  using assms
proof (induction xs)
  case Nil
  then show ?case by simp
next
  case (Cons x xs)
  show ?case
  proof (cases "P x")
    case True
    then have "\<not> P y" if "y \<in> set xs" for y
      using Cons.prems that by (metis distinct.simps(2) image_eqI list.set_intros list.simps(9) set_map)
    then have "filter (\<lambda>x. \<not> P x) xs = xs" by simp
    with True show ?thesis by simp
  next
    case False
    with Cons show ?thesis by simp
  qed
qed

lemma length_update_first [simp]: "length (update_first P f xs) = length xs"
  by (induction xs) auto

lemma map_update_first:
  "(\<And>x. x \<in> set xs \<Longrightarrow> P x \<Longrightarrow> g (f x) = g x) \<Longrightarrow> map g (update_first P f xs) = map g xs"
  by (induction xs) auto

lemma find_append: "List.find P (xs @ ys) = (case List.find P xs of None \<Rightarrow> List.find P ys | Some x \<Rightarrow> Some x)"
  by (induction xs) auto

lemma find_NoneD: "List.find P xs = None \<Longrightarrow> x \<in> set xs \<Longrightarrow> \<not> P x"
  by (auto simp: find_None_iff)

lemma find_SomeD: "List.find P xs = Some x \<Longrightarrow> P x \<and> x \<in> set xs"
  by (induction xs) (auto split: if_splits)

lemma find_exists: "x \<in> set xs \<Longrightarrow> P x \<Longrightarrow> \<exists>e. List.find P xs = Some e \<and> P e"
  by (induction xs) auto

lemma find_erase_first_other:
  "(\<And>x. x \<in> set xs \<Longrightarrow> P x \<Longrightarrow> \<not> Q x) \<Longrightarrow> List.find Q (erase_first P xs) = List.find Q xs"
  by (induction xs) auto

section \<open>Lemmas on machine integers\<close>

lemma of_nat_length_minus_one:
  "xs \<noteq> [] \<Longrightarrow> (of_nat (length xs - Suc 0) :: 'a::len word) = of_nat (length xs) - 1"
  by (cases xs) auto

lemma of_nat_length_erase_first:
  "(of_nat (length (erase_first P xs)) :: 'a::len word) =
     (if \<exists>x\<in>set xs. P x then of_nat (length xs) - 1 else of_nat (length xs))"
proof (cases "\<exists>x\<in>set xs. P x")
  case True
  then have "xs \<noteq> []" by auto
  with True show ?thesis by (simp add: length_erase_first of_nat_length_minus_one)
next
  case False
  then show ?thesis by (simp add: length_erase_first)
qed

lemma unat_u8_bound [simp]: "unat (b :: 8 word) < 256"
  using unsigned_less [of b] by simp

lemma unat_u32_le [simp]: "unat (n :: 32 word) \<le> 4294967295"
  using unsigned_less [of n, where 'a = nat] by simp

lemma unat_u32_bound [simp]: "unat (n :: 32 word) < 4294967296"
  using unsigned_less [of n] by simp

lemma unat_u64_bound [simp]: "unat (n :: 64 word) < 18446744073709551616"
  using unsigned_less [of n] by simp

lemma unat_Suc_u64: "(n :: 64 word) \<noteq> - 1 \<Longrightarrow> unat (n + 1) = Suc (unat n)"
proof -
  assume n: "n \<noteq> - 1"
  have "unat n \<noteq> 18446744073709551615"
  proof
    assume "unat n = 18446744073709551615"
    then have "n = of_nat 18446744073709551615" by (metis of_nat_unat ucast_id)
    also have "(of_nat 18446744073709551615 :: 64 word) = - 1" by simp
    finally show False using n by simp
  qed
  moreover have "unat n < 18446744073709551616" by simp
  ultimately have "unat n + 1 < 18446744073709551616" by linarith
  then show ?thesis by (simp add: unat_word_ariths)
qed

lemma no_overflow_Suc: "(n :: 64 word) \<noteq> - 1 \<Longrightarrow> n < n + 1"
  by (simp add: word_less_nat_alt unat_Suc_u64)

end
