(* ===== verification/Tlv_Encoding.thy ===== *)
theory Tlv_Encoding
  imports Val_Prelude
begin

text \<open>
  The TLV layer of \<open>src/ndn-cxx/ndn-cxx/encoding\<close>: the number readers and writers of \<open>tlv.hpp\<close>,
  the growing \<open>Encoder\<close> buffer that is filled from its back, the \<open>Estimator\<close> that computes sizes
  without writing, and \<open>Block\<close> with its sub-element parser. A read position (\<open>begin\<close>, \<open>end\<close>) is the
  list of the bytes still to be read. A \<open>size_t\<close> that counts bytes of a buffer is a \<open>nat\<close>.
\<close>

section \<open>Errors\<close>

text \<open>The reasons of the \<open>tlv::Error\<close>s (and its subclasses) that the modelled decoders throw.\<close>

datatype tlv_error =
    EmptyBuffer
  | InsufficientData
  | TypeExceedsMaximum
  | LengthExceedsParent u32
  | BlockTooShort
  | LengthMismatch
  | InvalidIntegerLength
  | NoSubElement u32
  | UnexpectedType u32
  | UnrecognizedField u32
  | FieldOutOfOrder u32
  | FieldNotRepeatable u32
  | FieldAbsent
  | ValueTooLarge
  | UnsupportedKeyLocator
  | NotSigned
  | InvalidComponent u32

section \<open>Big-endian numbers\<close>

text \<open>
  \<open>native_to_big\<close> followed by a copy of the object representation, and \<open>memcpy\<close> followed by
  \<open>big_to_native\<close>, are the big-endian digits of the number.
\<close>

primrec be_bytes :: "nat \<Rightarrow> nat \<Rightarrow> byte list" where
  "be_bytes 0 n = []"
| "be_bytes (Suc k) n = of_nat (n div 256 ^ k) # be_bytes k n"

primrec be_nat :: "byte list \<Rightarrow> nat" where
  "be_nat [] = 0"
| "be_nat (b # bs) = unat b * 256 ^ length bs + be_nat bs"

section \<open>Readers (tlv.hpp)\<close>

primrec ReadNumberSlow_loop :: "nat \<Rightarrow> byte list \<Rightarrow> u64 \<Rightarrow> (u64 \<times> byte list) option" where
  "ReadNumberSlow_loop 0 bs number = Some (number, bs)"
| "ReadNumberSlow_loop (Suc k) bs number =
     (case bs of [] \<Rightarrow> None
      | b # bs' \<Rightarrow> ReadNumberSlow_loop k bs' (or (push_bit 8 number) (ucast b)))"

definition ReadNumberSlow :: "nat \<Rightarrow> byte list \<Rightarrow> (u64 \<times> byte list) option" where
  "ReadNumberSlow sz bs = ReadNumberSlow_loop sz bs 0"

definition ReadNumberFast :: "nat \<Rightarrow> byte list \<Rightarrow> (u64 \<times> byte list) option" where
  "ReadNumberFast sz bs =
     (if sz > length bs then None
      else if sz = 1 then Some (ucast (hd bs), tl bs)
      else if sz = 2 then Some (ucast (of_nat (be_nat (take 2 bs)) :: u16), drop 2 bs)
      else if sz = 4 then Some (ucast (of_nat (be_nat (take 4 bs)) :: u32), drop 4 bs)
      else if sz = 8 then Some (of_nat (be_nat (take 8 bs)), drop 8 bs)
      else None)"

text \<open>All callers read from contiguous iterators, for which \<open>ReadNumber\<close> is \<open>ReadNumberFast\<close>.\<close>

definition tryReadVarNumber :: "byte list \<Rightarrow> (u64 \<times> byte list) option" where
  "tryReadVarNumber bs =
     (case bs of [] \<Rightarrow> None
      | firstOctet # bs' \<Rightarrow>
          if firstOctet < 253 then Some (ucast firstOctet, bs')
          else ReadNumberFast (if firstOctet = 253 then 2 else if firstOctet = 254 then 4 else 8) bs')"

definition tryReadType :: "byte list \<Rightarrow> (u32 \<times> byte list) option" where
  "tryReadType bs =
     (case tryReadVarNumber bs of None \<Rightarrow> None
      | Some (number, bs') \<Rightarrow> if number > 4294967295 then None else Some (ucast number, bs'))"

definition readVarNumber :: "byte list \<Rightarrow> tlv_error + (u64 \<times> byte list)" where
  "readVarNumber bs =
     (if bs = [] then Inl EmptyBuffer
      else case tryReadVarNumber bs of None \<Rightarrow> Inl InsufficientData | Some r \<Rightarrow> Inr r)"

definition readType :: "byte list \<Rightarrow> tlv_error + (u32 \<times> byte list)" where
  "readType bs =
     bindR (readVarNumber bs) (\<lambda>(type, bs').
       if type > 4294967295 then Inl TypeExceedsMaximum else Inr (ucast type, bs'))"

definition readNonNegativeInteger :: "nat \<Rightarrow> byte list \<Rightarrow> tlv_error + (u64 \<times> byte list)" where
  "readNonNegativeInteger sz bs =
     (if sz \<noteq> 1 \<and> sz \<noteq> 2 \<and> sz \<noteq> 4 \<and> sz \<noteq> 8 then Inl InvalidIntegerLength
      else case ReadNumberFast sz bs of None \<Rightarrow> Inl InsufficientData | Some r \<Rightarrow> Inr r)"

section \<open>Writers (tlv.hpp)\<close>

definition sizeOfVarNumber :: "u64 \<Rightarrow> nat" where
  "sizeOfVarNumber number =
     (if number < 253 then 1 else if number \<le> 65535 then 3 else if number \<le> 4294967295 then 5 else 9)"

definition writeVarNumber :: "u64 \<Rightarrow> byte list" where
  "writeVarNumber number =
     (if number < 253 then [ucast number]
      else if number \<le> 65535 then 253 # be_bytes 2 (unat (ucast number :: u16))
      else if number \<le> 4294967295 then 254 # be_bytes 4 (unat (ucast number :: u32))
      else 255 # be_bytes 8 (unat number))"

definition sizeOfNonNegativeInteger :: "u64 \<Rightarrow> nat" where
  "sizeOfNonNegativeInteger integer =
     (if integer \<le> 255 then 1 else if integer \<le> 65535 then 2 else if integer \<le> 4294967295 then 4 else 8)"

definition writeNonNegativeInteger :: "u64 \<Rightarrow> byte list" where
  "writeNonNegativeInteger integer =
     (if integer \<le> 255 then [ucast integer]
      else if integer \<le> 65535 then be_bytes 2 (unat (ucast integer :: u16))
      else if integer \<le> 4294967295 then be_bytes 4 (unat (ucast integer :: u32))
      else be_bytes 8 (unat integer))"

section \<open>Lemmas on the readers and writers\<close>

lemma length_be_bytes [simp]: "length (be_bytes k n) = k"
  by (induction k) auto

lemma be_nat_bound: "be_nat bs < 256 ^ length bs"
proof (induction bs)
  case (Cons b bs)
  have "unat b < 256" by simp
  then have le: "(unat b + 1) * 256 ^ length bs \<le> 256 * 256 ^ length bs"
    by (intro mult_right_mono) linarith+
  have "be_nat (b # bs) < (unat b + 1) * 256 ^ length bs" using Cons by simp
  also note le
  finally show ?case by simp
qed simp

lemma be_nat_be_bytes [simp]: "be_nat (be_bytes k n) = n mod 256 ^ k"
proof (induction k)
  case (Suc k)
  have "n mod (256 ^ k * 256) = 256 ^ k * (n div 256 ^ k mod 256) + n mod 256 ^ k"
    by (rule mod_mult2_eq)
  with Suc show ?case by (simp add: unat_of_nat mult.commute)
qed simp

lemma be_bytes_shift: "be_bytes k (m * 256 ^ k + n) = be_bytes k n"
proof (induction k arbitrary: m)
  case (Suc k)
  have "(m * 256 ^ Suc k + n) div 256 ^ k = m * 256 + n div 256 ^ k"
    using div_mult_self3 [of "256 ^ k" "m * 256" n] by (simp add: mult.assoc)
  moreover have "be_bytes k (m * 256 ^ Suc k + n) = be_bytes k n"
    using Suc [of "m * 256"] by (simp add: mult.assoc)
  moreover have "(256 :: byte) = 0" by simp
  ultimately show ?case by (simp only: be_bytes.simps of_nat_add of_nat_mult of_nat_numeral) simp
qed simp

lemma be_bytes_be_nat: "be_bytes (length bs) (be_nat bs) = bs"
proof (induction bs)
  case (Cons b bs)
  have "(unat b * 256 ^ length bs + be_nat bs) div 256 ^ length bs = unat b"
    using be_nat_bound [of bs] by simp
  with Cons show ?case by (simp add: be_bytes_shift)
qed simp

lemma or_push_bit_8: "or (push_bit 8 n) (ucast (b :: byte)) = n * 256 + (of_nat (unat b) :: u64)"
proof -
  have "or (push_bit 8 n) (ucast b :: u64) = push_bit 8 n + ucast b"
    by (rule disjunctive_add [symmetric])
       (auto simp: bit_push_bit_iff bit_unsigned_iff dest: bit_imp_le_length)
  then show ?thesis by (simp add: push_bit_eq_mult)
qed

lemma ReadNumberSlow_loop_eq:
  "ReadNumberSlow_loop k bs n =
     (if k \<le> length bs then Some (n * 256 ^ k + of_nat (be_nat (take k bs)), drop k bs) else None)"
proof (induction k arbitrary: bs n)
  case (Suc k)
  show ?case
  proof (cases bs)
    case (Cons b bs')
    then show ?thesis
      by (simp add: Suc.IH or_push_bit_8 min_absorb2 algebra_simps)
  qed simp
qed simp

lemma ucast_of_nat_small:
  "m < 2 ^ LENGTH('a) \<Longrightarrow> (ucast (of_nat m :: 'a::len word) :: 'b::len word) = of_nat m"
  by (simp add: unsigned_of_nat take_bit_nat_eq_self)

lemma be_nat_take_bound: "k \<le> length bs \<Longrightarrow> be_nat (take k bs) < 2 ^ (8 * k)"
  using be_nat_bound [of "take k bs"] by (simp add: power_mult)

lemma ReadNumberFast_eq:
  assumes "sz \<in> {1, 2, 4, 8}"
  shows "ReadNumberFast sz bs =
    (if sz \<le> length bs then Some (of_nat (be_nat (take sz bs)), drop sz bs) else None)"
proof (cases "sz \<le> length bs")
  case True
  have small: "be_nat (take 2 bs) < 65536" if "2 \<le> length bs"
    using be_nat_take_bound [OF that] by simp
  have medium: "be_nat (take 4 bs) < 4294967296" if "4 \<le> length bs"
    using be_nat_take_bound [OF that] by simp
  have one: "of_nat (be_nat (take 1 bs)) = (ucast (hd bs) :: u64)" "drop 1 bs = tl bs" if "1 \<le> length bs"
    using that by (cases bs; simp)+
  from True assms show ?thesis
    by (auto simp: ReadNumberFast_def ucast_of_nat_small small medium one simp del: One_nat_def)
next
  case False
  then show ?thesis by (simp add: ReadNumberFast_def)
qed

lemma ReadNumberFast_be_bytes:
  assumes "sz \<in> {1, 2, 4, 8}" and "unat n < 256 ^ sz"
  shows "ReadNumberFast sz (be_bytes sz (unat n) @ rest) = Some (n, rest)"
  using assms(2) by (simp add: ReadNumberFast_eq [OF assms(1)])

lemma be_bytes_1: "n < 256 \<Longrightarrow> be_bytes 1 (unat (n :: u64)) = [ucast n]"
  by (simp add: One_nat_def)

lemma unat_ucast_le:
  "n \<le> 255 \<Longrightarrow> unat (ucast (n :: u64) :: u8) = unat n"
  "n \<le> 65535 \<Longrightarrow> unat (ucast n :: u16) = unat n"
  "n \<le> 4294967295 \<Longrightarrow> unat (ucast n :: u32) = unat n"
  by (simp_all add: unsigned_ucast_eq take_bit_nat_eq_self word_le_nat_alt)

lemma ucast_ucast_eq_of_unat:
  "unat (ucast (n :: 'a::len word) :: 'b::len word) = unat n \<Longrightarrow> (ucast (ucast n :: 'b word) :: 'a word) = n"
  by (metis of_nat_unat ucast_id)

lemma tryReadVarNumber_write: "tryReadVarNumber (writeVarNumber n @ rest) = Some (n, rest)"
proof -
  have "(ucast n :: u8) < 253" "(ucast (ucast n :: u8) :: u64) = n" if "n < 253"
  proof -
    from that have "unat n < 253" by (simp add: word_less_nat_alt)
    moreover from this have "unat (ucast n :: u8) = unat n"
      by (simp add: unsigned_ucast_eq take_bit_nat_eq_self)
    ultimately show "(ucast n :: u8) < 253" "(ucast (ucast n :: u8) :: u64) = n"
      by (simp_all add: word_less_nat_alt ucast_ucast_eq_of_unat)
  qed
  then show ?thesis
    by (auto simp: tryReadVarNumber_def writeVarNumber_def unat_ucast_le word_le_nat_alt
        intro!: ReadNumberFast_be_bytes)
qed

lemma length_writeVarNumber [simp]: "length (writeVarNumber n) = sizeOfVarNumber n"
  by (simp add: writeVarNumber_def sizeOfVarNumber_def)

lemma length_writeNonNegativeInteger [simp]:
  "length (writeNonNegativeInteger n) = sizeOfNonNegativeInteger n"
  by (simp add: writeNonNegativeInteger_def sizeOfNonNegativeInteger_def)

lemma sizeOf_pos [simp]: "0 < sizeOfVarNumber n" "0 < sizeOfNonNegativeInteger n"
  by (simp_all add: sizeOfVarNumber_def sizeOfNonNegativeInteger_def)

lemma writeVarNumber_nonempty [simp]: "writeVarNumber n \<noteq> []"
  by (simp add: writeVarNumber_def)

lemma readVarNumber_write [tlv_simps]: "readVarNumber (writeVarNumber n @ rest) = Inr (n, rest)"
  by (simp add: readVarNumber_def tryReadVarNumber_write)

lemma unat_ucast_u32 [simp]: "unat (ucast (t :: u32) :: u64) = unat t"
  by (simp add: unsigned_ucast_eq take_bit_nat_eq_self less_trans [OF unat_u32_bound])

lemma ucast_u32_le: "(ucast (t :: u32) :: u64) \<le> 4294967295"
  unfolding word_le_nat_alt unat_ucast_u32 by simp

lemma ucast_ucast_u32 [simp]: "(ucast (ucast (t :: u32) :: u64) :: u32) = t"
  by (rule ucast_ucast_eq_of_unat) simp

lemma readType_write [tlv_simps]: "readType (writeVarNumber (ucast t) @ rest) = Inr (t, rest)"
  using ucast_u32_le [of t] by (simp add: readType_def readVarNumber_write)

lemma readNonNegativeInteger_write [tlv_simps]:
  "readNonNegativeInteger (sizeOfNonNegativeInteger n) (writeNonNegativeInteger n @ rest) = Inr (n, rest)"
proof -
  have "n \<le> 255 \<Longrightarrow> (ucast (ucast n :: u8) :: u64) = n"
    by (intro ucast_ucast_eq_of_unat unat_ucast_le)
  then show ?thesis
    by (auto simp: readNonNegativeInteger_def sizeOfNonNegativeInteger_def writeNonNegativeInteger_def
        ReadNumberFast_be_bytes unat_ucast_le word_le_nat_alt ReadNumberFast_def [of "Suc 0"])
qed

lemma tryReadVarNumber_shorter:
  "tryReadVarNumber bs = Some (n, rest) \<Longrightarrow> length rest < length bs"
  by (auto simp: tryReadVarNumber_def ReadNumberFast_def split: list.splits if_splits)

lemma readVarNumber_shorter: "readVarNumber bs = Inr (n, rest) \<Longrightarrow> length rest < length bs"
  by (auto simp: readVarNumber_def tryReadVarNumber_shorter split: option.splits if_splits)

lemma readType_shorter: "readType bs = Inr (t, rest) \<Longrightarrow> length rest < length bs"
  by (auto simp: readType_def bindR_eq_Inr readVarNumber_shorter split: if_splits)

text \<open>C28: for every length a TLV number can have, the optimised \<open>ReadNumberFast\<close> and the byte-wise
  shift loop \<open>ReadNumberSlow\<close> read the same number and leave the same bytes, or both fail.\<close>

theorem ReadNumberFast_equiv_Slow:
  assumes "sz \<in> {1, 2, 4, 8}"
  shows "ReadNumberFast sz bs = ReadNumberSlow sz bs"
  by (simp add: ReadNumberFast_eq [OF assms] ReadNumberSlow_def ReadNumberSlow_loop_eq)

theorem ReadNumberFast_equiv_Slow_witness:
  "ReadNumberFast 2 [1, 2, 3] = ReadNumberSlow 2 [1, 2, 3] \<and> ReadNumberSlow 2 [1, 2, 3] = Some (258, [3])"
proof
  show "ReadNumberFast 2 [1, 2, 3] = ReadNumberSlow 2 [1, 2, 3]"
    by (rule ReadNumberFast_equiv_Slow) simp
  show "ReadNumberSlow 2 [1, 2, 3] = Some (258, [3])" by code_simp
qed

end
