(* ===== verification/Tlv_Encoder.thy ===== *)
theory Tlv_Encoder
  imports Tlv_Encoding
begin

text \<open>
  The \<open>Encoder\<close> of \<open>encoder.cpp\<close>: a buffer with a window \<open>[m_begin, m_end)\<close> that grows at both ends
  and is reallocated when the room runs out, and the \<open>Estimator\<close> of \<open>estimator.cpp\<close>. The encoder
  refines the plain byte list \<open>enc_bytes\<close>: prepending to the encoder is prepending to the list, for
  every amount of reserved room. Every operation returns the updated encoder and the number of bytes
  it reports.
\<close>

section \<open>Encoder\<close>

record encoder =
  m_buffer :: "byte list"
  m_begin :: nat
  m_end :: nat

definition mkEncoder :: "nat \<Rightarrow> nat \<Rightarrow> encoder" where
  "mkEncoder totalReserve reserveFromBack =
     (let p = totalReserve - (if reserveFromBack < totalReserve then reserveFromBack else 0) in
      \<lparr> m_buffer = replicate totalReserve 0, m_begin = p, m_end = p \<rparr>)"

definition reserve :: "nat \<Rightarrow> bool \<Rightarrow> encoder \<Rightarrow> encoder" where
  "reserve sz addInFront e =
     (let old = length (m_buffer e); n = (if sz < old then old else sz) in
      if addInFront then
        \<lparr> m_buffer = replicate (n - old) 0 @ m_buffer e,
          m_begin = n - (old - m_begin e), m_end = n - (old - m_end e) \<rparr>
      else
        \<lparr> m_buffer = m_buffer e @ replicate (n - old) 0, m_begin = m_begin e, m_end = m_end e \<rparr>)"

definition reserveBack :: "nat \<Rightarrow> encoder \<Rightarrow> encoder" where
  "reserveBack sz e =
     (if m_end e + sz > length (m_buffer e) then reserve (length (m_buffer e) * 2 + sz) False e else e)"

definition reserveFront :: "nat \<Rightarrow> encoder \<Rightarrow> encoder" where
  "reserveFront sz e =
     (if sz > m_begin e then reserve (length (m_buffer e) * 2 + sz) True e else e)"

definition prependByte :: "u8 \<Rightarrow> encoder \<Rightarrow> encoder \<times> nat" where
  "prependByte v e0 =
     (let e = reserveFront 1 e0; p = m_begin e - 1 in
      (e\<lparr> m_begin := p, m_buffer := (m_buffer e)[p := v] \<rparr>, 1))"

definition appendByte :: "u8 \<Rightarrow> encoder \<Rightarrow> encoder \<times> nat" where
  "appendByte v e0 =
     (let e = reserveBack 1 e0 in
      (e\<lparr> m_buffer := (m_buffer e)[m_end e := v], m_end := m_end e + 1 \<rparr>, 1))"

text \<open>\<open>std::copy\<close> of \<open>xs\<close> over the buffer starting at position \<open>p\<close>.\<close>

definition copy_to :: "byte list \<Rightarrow> nat \<Rightarrow> byte list \<Rightarrow> byte list" where
  "copy_to xs p buf = take p buf @ xs @ drop (p + length xs) buf"

definition prependByteArray :: "byte list \<Rightarrow> encoder \<Rightarrow> encoder \<times> nat" where
  "prependByteArray xs e0 =
     (let e = reserveFront (length xs) e0; p = m_begin e - length xs in
      (e\<lparr> m_begin := p, m_buffer := copy_to xs p (m_buffer e) \<rparr>, length xs))"

definition appendByteArray :: "byte list \<Rightarrow> encoder \<Rightarrow> encoder \<times> nat" where
  "appendByteArray xs e0 =
     (let e = reserveBack (length xs) e0 in
      (e\<lparr> m_buffer := copy_to xs (m_end e) (m_buffer e), m_end := m_end e + length xs \<rparr>, length xs))"

definition prependVarNumber :: "u64 \<Rightarrow> encoder \<Rightarrow> encoder \<times> nat" where
  "prependVarNumber n e =
     (if n < 253 then (fst (prependByte (ucast n) e), 1)
      else if n \<le> 65535 then
        (fst (prependByte 253 (fst (prependByteArray (be_bytes 2 (unat (ucast n :: u16))) e))), 3)
      else if n \<le> 4294967295 then
        (fst (prependByte 254 (fst (prependByteArray (be_bytes 4 (unat (ucast n :: u32))) e))), 5)
      else
        (fst (prependByte 255 (fst (prependByteArray (be_bytes 8 (unat n)) e))), 9))"

definition appendVarNumber :: "u64 \<Rightarrow> encoder \<Rightarrow> encoder \<times> nat" where
  "appendVarNumber n e =
     (if n < 253 then (fst (appendByte (ucast n) e), 1)
      else if n \<le> 65535 then
        (fst (appendByteArray (be_bytes 2 (unat (ucast n :: u16))) (fst (appendByte 253 e))), 3)
      else if n \<le> 4294967295 then
        (fst (appendByteArray (be_bytes 4 (unat (ucast n :: u32))) (fst (appendByte 254 e))), 5)
      else
        (fst (appendByteArray (be_bytes 8 (unat n)) (fst (appendByte 255 e))), 9))"

definition prependNonNegativeInteger :: "u64 \<Rightarrow> encoder \<Rightarrow> encoder \<times> nat" where
  "prependNonNegativeInteger n e =
     (if n \<le> 255 then prependByte (ucast n) e
      else if n \<le> 65535 then prependByteArray (be_bytes 2 (unat (ucast n :: u16))) e
      else if n \<le> 4294967295 then prependByteArray (be_bytes 4 (unat (ucast n :: u32))) e
      else prependByteArray (be_bytes 8 (unat n)) e)"

definition appendNonNegativeInteger :: "u64 \<Rightarrow> encoder \<Rightarrow> encoder \<times> nat" where
  "appendNonNegativeInteger n e =
     (if n \<le> 255 then appendByte (ucast n) e
      else if n \<le> 65535 then appendByteArray (be_bytes 2 (unat (ucast n :: u16))) e
      else if n \<le> 4294967295 then appendByteArray (be_bytes 4 (unat (ucast n :: u32))) e
      else appendByteArray (be_bytes 8 (unat n)) e)"

definition prependByteArrayBlock :: "u32 \<Rightarrow> byte list \<Rightarrow> encoder \<Rightarrow> encoder \<times> nat" where
  "prependByteArrayBlock type xs e0 =
     (let (e1, l1) = prependByteArray xs e0;
          (e2, l2) = prependVarNumber (of_nat (length xs)) e1;
          (e3, l3) = prependVarNumber (ucast type) e2
      in (e3, l1 + l2 + l3))"

definition appendByteArrayBlock :: "u32 \<Rightarrow> byte list \<Rightarrow> encoder \<Rightarrow> encoder \<times> nat" where
  "appendByteArrayBlock type xs e0 =
     (let (e1, l1) = appendVarNumber (ucast type) e0;
          (e2, l2) = appendVarNumber (of_nat (length xs)) e1;
          (e3, l3) = appendByteArray xs e2
      in (e3, l1 + l2 + l3))"

section \<open>Block helpers on an encoder (block-helpers.cpp)\<close>

definition prependNonNegativeIntegerBlock :: "u32 \<Rightarrow> u64 \<Rightarrow> encoder \<Rightarrow> encoder \<times> nat" where
  "prependNonNegativeIntegerBlock type v e0 =
     (let (e1, l1) = prependNonNegativeInteger v e0;
          (e2, l2) = prependVarNumber (of_nat l1) e1;
          (e3, l3) = prependVarNumber (ucast type) e2
      in (e3, l1 + l2 + l3))"

definition prependEmptyBlock :: "u32 \<Rightarrow> encoder \<Rightarrow> encoder \<times> nat" where
  "prependEmptyBlock type e0 =
     (let (e1, l1) = prependVarNumber 0 e0;
          (e2, l2) = prependVarNumber (ucast type) e1
      in (e2, l1 + l2))"

text \<open>The bytes of a \<open>std::string\<close>, and the string over the bytes of a TLV-VALUE.\<close>

definition byte_of_char :: "char \<Rightarrow> byte" where
  "byte_of_char c = of_nat (of_char c)"

definition char_of_byte :: "byte \<Rightarrow> char" where
  "char_of_byte b = char_of (unat b)"

definition prependStringBlock :: "u32 \<Rightarrow> string \<Rightarrow> encoder \<Rightarrow> encoder \<times> nat" where
  "prependStringBlock type s e = prependByteArrayBlock type (map byte_of_char s) e"

section \<open>Estimator (estimator.cpp)\<close>

definition est_prependVarNumber :: "u64 \<Rightarrow> nat" where
  "est_prependVarNumber n =
     (if n < 253 then 1 else if n \<le> 65535 then 3 else if n \<le> 4294967295 then 5 else 9)"

definition est_prependNonNegativeInteger :: "u64 \<Rightarrow> nat" where
  "est_prependNonNegativeInteger n =
     (if n \<le> 255 then 1 else if n \<le> 65535 then 2 else if n \<le> 4294967295 then 4 else 8)"

definition est_prependByteArrayBlock :: "u32 \<Rightarrow> byte list \<Rightarrow> nat" where
  "est_prependByteArrayBlock type xs =
     length xs + est_prependVarNumber (of_nat (length xs)) + est_prependVarNumber (ucast type)"

definition est_prependNonNegativeIntegerBlock :: "u32 \<Rightarrow> u64 \<Rightarrow> nat" where
  "est_prependNonNegativeIntegerBlock type v =
     (let valueLength = est_prependNonNegativeInteger v in
      valueLength + est_prependVarNumber (of_nat valueLength) + est_prependVarNumber (ucast type))"

section \<open>The abstraction to byte lists\<close>

definition enc_wf :: "encoder \<Rightarrow> bool" where
  "enc_wf e \<longleftrightarrow> m_begin e \<le> m_end e \<and> m_end e \<le> length (m_buffer e)"

definition enc_bytes :: "encoder \<Rightarrow> byte list" where
  "enc_bytes e = take (m_end e - m_begin e) (drop (m_begin e) (m_buffer e))"

text \<open>The wire form of a TLV element.\<close>

definition tlv_bytes :: "u32 \<Rightarrow> byte list \<Rightarrow> byte list" where
  "tlv_bytes type xs = writeVarNumber (ucast type) @ writeVarNumber (of_nat (length xs)) @ xs"

text \<open>An encoder operation that writes \<open>xs\<close> in front, respectively behind, and reports its length.\<close>

definition prepends :: "(encoder \<Rightarrow> encoder \<times> nat) \<Rightarrow> byte list \<Rightarrow> bool" where
  "prepends f xs \<longleftrightarrow> (\<forall>e. enc_wf e \<longrightarrow>
     enc_wf (fst (f e)) \<and> enc_bytes (fst (f e)) = xs @ enc_bytes e \<and> snd (f e) = length xs)"

definition appends :: "(encoder \<Rightarrow> encoder \<times> nat) \<Rightarrow> byte list \<Rightarrow> bool" where
  "appends f xs \<longleftrightarrow> (\<forall>e. enc_wf e \<longrightarrow>
     enc_wf (fst (f e)) \<and> enc_bytes (fst (f e)) = enc_bytes e @ xs \<and> snd (f e) = length xs)"

text \<open>
  Two operations in sequence with their lengths added, and the length and type that close an element:
  the shape of every \<open>wireEncode\<close> template.
\<close>

definition then_prepend ::
  "(encoder \<Rightarrow> encoder \<times> nat) \<Rightarrow> (encoder \<Rightarrow> encoder \<times> nat) \<Rightarrow> encoder \<Rightarrow> encoder \<times> nat" where
  "then_prepend f g e = (let (e1, l1) = f e; (e2, l2) = g e1 in (e2, l1 + l2))"

definition close_element :: "u32 \<Rightarrow> (encoder \<Rightarrow> encoder \<times> nat) \<Rightarrow> encoder \<Rightarrow> encoder \<times> nat" where
  "close_element type f e =
     (let (e1, len) = f e;
          (e2, l2) = prependVarNumber (of_nat len) e1;
          (e3, l3) = prependVarNumber (ucast type) e2
      in (e3, len + l2 + l3))"

section \<open>Refinement\<close>

lemma mkEncoder_wf [simp]: "enc_wf (mkEncoder n k)" "enc_bytes (mkEncoder n k) = []"
  by (simp_all add: enc_wf_def enc_bytes_def mkEncoder_def Let_def)

lemma reserve_refines:
  assumes "enc_wf e"
  shows "enc_wf (reserve n front e)" and "enc_bytes (reserve n front e) = enc_bytes e"
  using assms by (auto simp: enc_wf_def enc_bytes_def reserve_def Let_def)

lemma reserveFront_refines:
  assumes "enc_wf e"
  shows "enc_wf (reserveFront n e)" and "enc_bytes (reserveFront n e) = enc_bytes e"
    and "n \<le> m_begin (reserveFront n e)"
  using assms reserve_refines [OF assms]
  by (auto simp: reserveFront_def) (auto simp: enc_wf_def reserve_def Let_def)

lemma reserveBack_refines:
  assumes "enc_wf e"
  shows "enc_wf (reserveBack n e)" and "enc_bytes (reserveBack n e) = enc_bytes e"
    and "m_end (reserveBack n e) + n \<le> length (m_buffer (reserveBack n e))"
  using assms reserve_refines [OF assms]
  by (auto simp: reserveBack_def) (auto simp: enc_wf_def reserve_def Let_def)

lemma window_copy_to_front:
  assumes "p + length xs \<le> q" and "q \<le> length buf"
  shows "take (q - p) (drop p (copy_to xs p buf)) = xs @ take (q - (p + length xs)) (drop (p + length xs) buf)"
  using assms by (simp add: copy_to_def min_absorb2)

lemma prependByteArray_refines:
  assumes "enc_wf e"
  shows "enc_wf (fst (prependByteArray xs e))"
    and "enc_bytes (fst (prependByteArray xs e)) = xs @ enc_bytes e"
    and "snd (prependByteArray xs e) = length xs"
proof -
  let ?f = "reserveFront (length xs) e"
  note f = reserveFront_refines [OF assms, of "length xs"]
  show "enc_wf (fst (prependByteArray xs e))" "snd (prependByteArray xs e) = length xs"
    using f by (auto simp: prependByteArray_def copy_to_def enc_wf_def Let_def)
  have "enc_bytes (fst (prependByteArray xs e)) = xs @ enc_bytes ?f"
    using f(1,3) window_copy_to_front [of "m_begin ?f - length xs" xs "m_end ?f" "m_buffer ?f"]
    by (simp add: prependByteArray_def enc_wf_def enc_bytes_def Let_def)
  with f(2) show "enc_bytes (fst (prependByteArray xs e)) = xs @ enc_bytes e" by simp
qed

lemma appendByteArray_refines:
  assumes "enc_wf e"
  shows "enc_wf (fst (appendByteArray xs e))"
    and "enc_bytes (fst (appendByteArray xs e)) = enc_bytes e @ xs"
    and "snd (appendByteArray xs e) = length xs"
proof -
  let ?f = "reserveBack (length xs) e"
  note f = reserveBack_refines [OF assms, of "length xs"]
  show "enc_wf (fst (appendByteArray xs e))" "snd (appendByteArray xs e) = length xs"
    using f by (auto simp: appendByteArray_def copy_to_def enc_wf_def Let_def)
  have "enc_bytes (fst (appendByteArray xs e)) = enc_bytes ?f @ xs"
    using f(1,3)
    by (simp add: appendByteArray_def copy_to_def enc_wf_def enc_bytes_def Let_def min_absorb2 drop_take)
  with f(2) show "enc_bytes (fst (appendByteArray xs e)) = enc_bytes e @ xs" by simp
qed

lemma prependByte_eq: "enc_wf e \<Longrightarrow> prependByte v e = prependByteArray [v] e"
  using reserveFront_refines [of e 1]
  by (auto simp: prependByte_def prependByteArray_def copy_to_def Let_def enc_wf_def upd_conv_take_nth_drop)

lemma appendByte_eq: "enc_wf e \<Longrightarrow> appendByte v e = appendByteArray [v] e"
  using reserveBack_refines [of e 1]
  by (auto simp: appendByte_def appendByteArray_def copy_to_def Let_def enc_wf_def upd_conv_take_nth_drop)

lemma prependsD:
  assumes "prepends f xs" and "enc_wf e"
  shows "enc_wf (fst (f e))" and "enc_bytes (fst (f e)) = xs @ enc_bytes e" and "snd (f e) = length xs"
  using assms by (simp_all add: prepends_def)

lemma appendsD:
  assumes "appends f xs" and "enc_wf e"
  shows "enc_wf (fst (f e))" and "enc_bytes (fst (f e)) = enc_bytes e @ xs" and "snd (f e) = length xs"
  using assms by (simp_all add: appends_def)

lemma prepends_ByteArray: "prepends (prependByteArray xs) xs"
  by (simp add: prepends_def prependByteArray_refines)

lemma appends_ByteArray: "appends (appendByteArray xs) xs"
  by (simp add: appends_def appendByteArray_refines)

lemma prepends_Byte: "prepends (prependByte v) [v]"
  by (simp add: prepends_def prependByte_eq prependByteArray_refines)

lemma appends_Byte: "appends (appendByte v) [v]"
  by (simp add: appends_def appendByte_eq appendByteArray_refines)

lemmas prepends_basic = prependsD [OF prepends_ByteArray] prependsD [OF prepends_Byte]
lemmas appends_basic = appendsD [OF appends_ByteArray] appendsD [OF appends_Byte]

lemma prepends_VarNumber: "prepends (prependVarNumber n) (writeVarNumber n)"
  by (auto simp: prepends_def prependVarNumber_def writeVarNumber_def prepends_basic)

lemma appends_VarNumber: "appends (appendVarNumber n) (writeVarNumber n)"
  by (auto simp: appends_def appendVarNumber_def writeVarNumber_def appends_basic)

lemma prepends_NonNegativeInteger: "prepends (prependNonNegativeInteger n) (writeNonNegativeInteger n)"
  by (auto simp: prepends_def prependNonNegativeInteger_def writeNonNegativeInteger_def prepends_basic)

lemma appends_NonNegativeInteger: "appends (appendNonNegativeInteger n) (writeNonNegativeInteger n)"
  by (auto simp: appends_def appendNonNegativeInteger_def writeNonNegativeInteger_def appends_basic)

lemma prepends_ByteArrayBlock: "prepends (prependByteArrayBlock type xs) (tlv_bytes type xs)"
  by (auto simp: prepends_def prependByteArrayBlock_def tlv_bytes_def prepends_basic
      prependsD [OF prepends_VarNumber] Let_def split_beta)

lemma appends_ByteArrayBlock: "appends (appendByteArrayBlock type xs) (tlv_bytes type xs)"
  by (auto simp: appends_def appendByteArrayBlock_def tlv_bytes_def appends_basic
      appendsD [OF appends_VarNumber] Let_def split_beta)

lemma prepends_NonNegativeIntegerBlock:
  "prepends (prependNonNegativeIntegerBlock type v) (tlv_bytes type (writeNonNegativeInteger v))"
  by (auto simp: prepends_def prependNonNegativeIntegerBlock_def tlv_bytes_def
      prependsD [OF prepends_NonNegativeInteger] prependsD [OF prepends_VarNumber] Let_def split_beta)

lemma prepends_EmptyBlock: "prepends (prependEmptyBlock type) (tlv_bytes type [])"
  by (auto simp: prepends_def prependEmptyBlock_def tlv_bytes_def
      prependsD [OF prepends_VarNumber] Let_def split_beta)

lemma prepends_StringBlock: "prepends (prependStringBlock type s) (tlv_bytes type (map byte_of_char s))"
  using prepends_ByteArrayBlock by (simp add: prependStringBlock_def prepends_def)

lemma prepends_then: "prepends f xs \<Longrightarrow> prepends g ys \<Longrightarrow> prepends (then_prepend f g) (ys @ xs)"
  by (simp add: prepends_def then_prepend_def split_beta Let_def)

lemma prepends_close: "prepends f xs \<Longrightarrow> prepends (close_element type f) (tlv_bytes type xs)"
  using prepends_VarNumber
  by (simp add: prepends_def close_element_def split_beta Let_def tlv_bytes_def)

lemma length_tlv_bytes:
  "length (tlv_bytes type xs) = est_prependVarNumber (ucast type) + est_prependVarNumber (of_nat (length xs)) + length xs"
  by (simp add: tlv_bytes_def est_prependVarNumber_def sizeOfVarNumber_def)

lemma est_prependByteArrayBlock_eq: "est_prependByteArrayBlock type xs = length (tlv_bytes type xs)"
  by (simp add: est_prependByteArrayBlock_def length_tlv_bytes)

lemma est_prependVarNumber_eq [simp]: "est_prependVarNumber n = sizeOfVarNumber n"
  by (simp add: est_prependVarNumber_def sizeOfVarNumber_def)

lemma est_prependNonNegativeInteger_eq [simp]:
  "est_prependNonNegativeInteger n = sizeOfNonNegativeInteger n"
  by (simp add: est_prependNonNegativeInteger_def sizeOfNonNegativeInteger_def)

lemma est_prependNonNegativeIntegerBlock_eq:
  "est_prependNonNegativeIntegerBlock type v = length (tlv_bytes type (writeNonNegativeInteger v))"
  by (simp add: est_prependNonNegativeIntegerBlock_def Let_def length_tlv_bytes)

lemma char_byte_char [simp]: "char_of_byte (byte_of_char c) = c"
proof -
  have "(of_char c :: nat) < 256" by (metis nat_of_char_less_256)
  then show ?thesis by (simp add: char_of_byte_def byte_of_char_def unat_of_nat)
qed

lemma byte_char_byte [simp]: "byte_of_char (char_of_byte b) = b"
  by (simp add: char_of_byte_def byte_of_char_def)

lemma map_char_byte_char [simp]: "map (char_of_byte \<circ> byte_of_char) s = s"
  by (induction s) auto

text \<open>C29: whatever room an encoder has left, prepending a TLV element with \<open>prependByteArrayBlock\<close>
  keeps the encoder well formed, puts exactly type, length and value in front of the bytes already
  written, and reports the number of bytes that the estimator predicts.\<close>

theorem prependByteArrayBlock_refines:
  assumes "enc_wf e"
  shows "enc_wf (fst (prependByteArrayBlock type xs e)) \<and>
    enc_bytes (fst (prependByteArrayBlock type xs e)) = tlv_bytes type xs @ enc_bytes e \<and>
    snd (prependByteArrayBlock type xs e) = est_prependByteArrayBlock type xs"
  using prependsD [OF prepends_ByteArrayBlock assms, of type xs]
  by (simp add: tlv_bytes_def est_prependByteArrayBlock_def)

theorem prependByteArrayBlock_refines_witness:
  "enc_bytes (fst (prependByteArrayBlock 851 [7, 8] (mkEncoder 3 1))) = [253, 3, 83, 2, 7, 8]"
proof -
  have "enc_bytes (fst (prependByteArrayBlock 851 [7, 8] (mkEncoder 3 1))) = tlv_bytes 851 [7, 8] @ []"
    using prependByteArrayBlock_refines [of "mkEncoder 3 1" 851 "[7, 8]"] by simp
  also have "\<dots> = [253, 3, 83, 2, 7, 8]" by code_simp
  finally show ?thesis .
qed

end
