(* ===== verification/Tlv_Block.thy ===== *)
theory Tlv_Block
  imports Tlv_Encoder
begin

text \<open>
  \<open>Block\<close> of \<open>block.cpp\<close>: a TLV element that is a window on a wire buffer, decoded from a buffer,
  with its TLV-VALUE parsed into sub-elements on demand, and the tree of sub-elements a block is
  encoded from. The two locales at the end state what a wire format promises to its clients.
\<close>

section \<open>Blocks\<close>

text \<open>\<open>blk_wire\<close> are the bytes from \<open>m_begin\<close> to \<open>m_end\<close>, \<open>blk_value\<close> those from \<open>m_valueBegin\<close> on.\<close>

record block =
  blk_type :: u32
  blk_wire :: "byte list"
  blk_value :: "byte list"

text \<open>The block with a given type and value whose wire form the encoder writes.\<close>

definition mkBlock :: "u32 \<Rightarrow> byte list \<Rightarrow> block" where
  "mkBlock type xs = \<lparr> blk_type = type, blk_wire = tlv_bytes type xs, blk_value = xs \<rparr>"

text \<open>The constructor that decodes the element at the front of a buffer.\<close>

definition blockOfBuffer :: "byte list \<Rightarrow> tlv_error + block" where
  "blockOfBuffer bs =
     bindR (readType bs) (\<lambda>(type, p1).
     bindR (readVarNumber p1) (\<lambda>(len, p2).
       if unat len > length p2 then Inl BlockTooShort
       else let typeLengthSize = length bs - length p2 in
            Inr \<lparr> blk_type = type, blk_wire = take (typeLengthSize + unat len) bs,
                  blk_value = take (unat len) p2 \<rparr>))"

text \<open>
  \<open>Encoder::block(true)\<close>: the window of an encoder as a block, with the check that the TLV-LENGTH it
  contains is the number of bytes that follow.
\<close>

definition encoder_block :: "encoder \<Rightarrow> tlv_error + block" where
  "encoder_block e =
     (if m_buffer e = [] then Inl EmptyBuffer
      else
        bindR (readType (enc_bytes e)) (\<lambda>(type, p1).
        bindR (readVarNumber p1) (\<lambda>(len, p2).
          if unat len \<noteq> length p2 then Inl LengthMismatch
          else Inr \<lparr> blk_type = type, blk_wire = enc_bytes e, blk_value = p2 \<rparr>)))"

text \<open>The non-throwing factory; \<open>None\<close> is the pair of \<open>false\<close> and an empty block.\<close>

definition fromBuffer :: "byte list \<Rightarrow> block option" where
  "fromBuffer bs =
     (case tryReadType bs of None \<Rightarrow> None
      | Some (type, p1) \<Rightarrow>
          (case tryReadVarNumber p1 of None \<Rightarrow> None
           | Some (len, p2) \<Rightarrow>
               if unat len > length p2 then None
               else Some \<lparr> blk_type = type, blk_wire = take (length bs - length p2 + unat len) bs,
                           blk_value = take (unat len) p2 \<rparr>))"

section \<open>Parsing sub-elements\<close>

text \<open>
  The loop of \<open>Block::parse\<close> over the bytes left, with the elements found so far. A thrown
  \<open>readType\<close> or \<open>readVarNumber\<close> error leaves those elements in the block, a length error clears them.
\<close>

function parse_loop :: "block list \<Rightarrow> byte list \<Rightarrow> block list \<times> tlv_error option" where
  "parse_loop elements bs =
     (if bs = [] then (elements, None)
      else case readType bs of Inl err \<Rightarrow> (elements, Some err)
      | Inr (type, p1) \<Rightarrow>
          (case readVarNumber p1 of Inl err \<Rightarrow> (elements, Some err)
           | Inr (len, p2) \<Rightarrow>
               if unat len > length p2 then ([], Some (LengthExceedsParent type))
               else parse_loop
                 (elements @ [\<lparr> blk_type = type, blk_wire = take (length bs - length p2 + unat len) bs,
                                blk_value = take (unat len) p2 \<rparr>])
                 (drop (unat len) p2)))"
  by pat_completeness auto
termination
  by (relation "measure (length \<circ> snd)")
     (auto dest!: readType_shorter readVarNumber_shorter)

declare parse_loop.simps [simp del]

text \<open>One round of that loop, as a decoder of the element at the front.\<close>

definition readElement :: "byte list \<Rightarrow> tlv_error + (block \<times> byte list)" where
  "readElement bs =
     bindR (readType bs) (\<lambda>(type, p1).
     bindR (readVarNumber p1) (\<lambda>(len, p2).
       if unat len > length p2 then Inl (LengthExceedsParent type)
       else Inr (\<lparr> blk_type = type, blk_wire = take (length bs - length p2 + unat len) bs,
                   blk_value = take (unat len) p2 \<rparr>, drop (unat len) p2)))"

text \<open>\<open>Block::parse\<close> on the elements the block already holds.\<close>

definition parse :: "block list \<Rightarrow> byte list \<Rightarrow> block list \<times> tlv_error option" where
  "parse elements val = (if elements \<noteq> [] \<or> val = [] then (elements, None) else parse_loop [] val)"

text \<open>A first \<open>parse()\<close> followed by \<open>elements()\<close>.\<close>

definition elements_of :: "byte list \<Rightarrow> tlv_error + block list" where
  "elements_of val = (case parse [] val of (es, None) \<Rightarrow> Inr es | (_, Some err) \<Rightarrow> Inl err)"

definition blk_find :: "u32 \<Rightarrow> block list \<Rightarrow> block option" where
  "blk_find type es = List.find (\<lambda>b. blk_type b = type) es"

definition blk_get :: "u32 \<Rightarrow> block list \<Rightarrow> tlv_error + block" where
  "blk_get type es = (case blk_find type es of None \<Rightarrow> Inl (NoSubElement type) | Some b \<Rightarrow> Inr b)"

definition blk_remove :: "u32 \<Rightarrow> block list \<Rightarrow> block list" where
  "blk_remove type es = filter (\<lambda>b. blk_type b \<noteq> type) es"

definition blk_eq :: "block \<Rightarrow> block \<Rightarrow> bool" where
  "blk_eq a b \<longleftrightarrow> blk_type a = blk_type b \<and> length (blk_value a) = length (blk_value b) \<and>
     (length (blk_value a) = 0 \<or> blk_value a = blk_value b)"

section \<open>Reading values (block-helpers.cpp)\<close>

definition readNonNegativeIntegerBlock :: "block \<Rightarrow> tlv_error + u64" where
  "readNonNegativeIntegerBlock b =
     bindR (readNonNegativeInteger (length (blk_value b)) (blk_value b)) (\<lambda>(n, _). Inr n)"

definition readString :: "block \<Rightarrow> string" where
  "readString b = map char_of_byte (blk_value b)"

section \<open>Encoding a tree of blocks\<close>

text \<open>
  A block that already has a TLV-VALUE (with the \<open>m_size\<close> it caches), or one that is made of
  sub-elements.
\<close>

datatype block_tree =
    ValueBlock u32 nat "byte list"
  | NestedBlock u32 "block_tree list"

fun estimateBlock :: "block_tree \<Rightarrow> nat" and estimateValue :: "block_tree list \<Rightarrow> nat" where
  "estimateBlock (ValueBlock type sz val) = sz"
| "estimateBlock (NestedBlock type elements) =
     (let len = estimateValue elements; len2 = len + est_prependVarNumber (of_nat len) in
      len2 + est_prependVarNumber (ucast type))"
| "estimateValue [] = 0"
| "estimateValue (b # bs) = estimateValue bs + estimateBlock b"

function (sequential) encodeBlock :: "block_tree \<Rightarrow> encoder \<Rightarrow> encoder \<times> nat"
  and encodeElements :: "block_tree list \<Rightarrow> encoder \<Rightarrow> encoder \<times> nat" where
  "encodeBlock (ValueBlock type sz val) e0 =
     (let (e1, len1) = prependByteArray val e0;
          (e2, len2) = prependVarNumber (of_nat len1) e1;
          (e3, len3) = prependVarNumber (ucast type) e2
      in (e3, len1 + len2 + len3))"
| "encodeBlock (NestedBlock type elements) e0 =
     (let (e1, len1) = encodeElements elements e0;
          (e2, len2) = prependVarNumber (of_nat len1) e1;
          (e3, len3) = prependVarNumber (ucast type) e2
      in (e3, len1 + len2 + len3))"
| "encodeElements [] e = (e, 0)"
| "encodeElements (b # bs) e0 =
     (let (e1, len1) = encodeElements bs e0;
          (e2, len2) = encodeBlock b e1
      in (e2, len1 + len2))"
  by pat_completeness auto
termination
  by (relation "measure (case_sum (size \<circ> fst) (size_list size \<circ> fst))") auto

fun tree_block :: "block_tree \<Rightarrow> block" where
  "tree_block (ValueBlock type sz val) = mkBlock type val"
| "tree_block (NestedBlock type elements) = mkBlock type (concat (map (blk_wire \<circ> tree_block) elements))"

section \<open>The contract of a wire format\<close>

text \<open>
  \<open>dec\<close> reads one element off the front of the input; an encoded element is read back and the rest
  of the input is left untouched.
\<close>

locale wire_codec =
  fixes valid :: "'a \<Rightarrow> bool"
    and enc :: "'a \<Rightarrow> byte list"
    and dec :: "byte list \<Rightarrow> tlv_error + ('a \<times> byte list)"
  assumes dec_enc: "valid a \<Longrightarrow> dec (enc a @ rest) = Inr (a, rest)"
begin

lemma enc_prefix_free:
  assumes "valid a" and "valid b" and eq: "enc a @ r = enc b @ s"
  shows "(a, r) = (b, s)"
proof -
  have "Inr (a, r) = dec (enc b @ s)" using dec_enc [OF assms(1), of r] unfolding eq by (rule sym)
  also have "\<dots> = Inr (b, s)" by (rule dec_enc [OF assms(2)])
  finally show ?thesis by simp
qed

lemma enc_inj:
  assumes "valid a" and "valid b" and "enc a = enc b"
  shows "a = b"
proof -
  have "enc a @ [] = enc b @ []" using assms(3) by (rule arg_cong)
  from enc_prefix_free [OF assms(1,2) this] show ?thesis by (rule Pair_inject)
qed

end

text \<open>A decoder for sequences applies the element decoder until the input is used up.\<close>

locale wire_seq_codec = wire_codec +
  fixes dec_all :: "byte list \<Rightarrow> tlv_error + 'a list"
  assumes dec_all_Nil: "dec_all [] = Inr []"
    and dec_all_step: "valid a \<Longrightarrow>
      dec_all (enc a @ rest) = bindR (dec (enc a @ rest)) (\<lambda>(b, rest'). bindR (dec_all rest') (\<lambda>bs. Inr (b # bs)))"
begin

lemma dec_all_enc: "\<forall>a\<in>set as. valid a \<Longrightarrow> dec_all (concat (map enc as)) = Inr as"
proof (induction as)
  case Nil
  then show ?case by (simp add: dec_all_Nil)
next
  case (Cons a as)
  then have "dec_all (enc a @ concat (map enc as)) = Inr (a # as)"
    by (subst dec_all_step) (simp_all add: dec_enc)
  then show ?case by simp
qed

lemma enc_all_inj:
  assumes "\<forall>a\<in>set as. valid a" and "\<forall>b\<in>set bs. valid b"
    and "concat (map enc as) = concat (map enc bs)"
  shows "as = bs"
proof -
  have "Inr as = dec_all (concat (map enc bs))"
    using dec_all_enc [OF assms(1)] unfolding assms(3) by (rule sym)
  also have "\<dots> = Inr bs" by (rule dec_all_enc [OF assms(2)])
  finally show ?thesis by simp
qed

end

section \<open>Blocks satisfy the contract\<close>

definition blk_valid :: "block \<Rightarrow> bool" where
  "blk_valid b \<longleftrightarrow> b = mkBlock (blk_type b) (blk_value b) \<and> length (blk_value b) < 2 ^ 64"

lemma mkBlock_sel [simp]:
  "blk_type (mkBlock t xs) = t" "blk_value (mkBlock t xs) = xs" "blk_wire (mkBlock t xs) = tlv_bytes t xs"
  by (simp_all add: mkBlock_def)

lemma blk_valid_mkBlock [simp]: "blk_valid (mkBlock t xs) \<longleftrightarrow> length xs < 2 ^ 64"
  by (simp add: blk_valid_def)

lemma unat_of_nat_length: "length xs < 2 ^ 64 \<Longrightarrow> unat (of_nat (length xs) :: u64) = length xs"
  by (simp add: unat_of_nat)

lemma tlv_bytes_header_length:
  "length (tlv_bytes t xs @ rest) - length (xs @ rest) + length xs = length (tlv_bytes t xs)"
  by (simp add: tlv_bytes_def)

lemma readElement_tlv_bytes [tlv_simps]:
  assumes "length xs < 2 ^ 64"
  shows "readElement (tlv_bytes t xs @ rest) = Inr (mkBlock t xs, rest)"
  using assms tlv_bytes_header_length [of t xs rest]
  by (simp add: readElement_def tlv_bytes_def readType_write readVarNumber_write
      unat_of_nat_length mkBlock_def)

lemma blockOfBuffer_tlv_bytes [tlv_simps]:
  assumes "length xs < 2 ^ 64"
  shows "blockOfBuffer (tlv_bytes t xs @ rest) = Inr (mkBlock t xs)"
  using assms tlv_bytes_header_length [of t xs rest]
  by (simp add: blockOfBuffer_def tlv_bytes_def readType_write readVarNumber_write
      unat_of_nat_length mkBlock_def Let_def)

lemma encoder_block_tlv_bytes [tlv_simps]:
  assumes "enc_bytes e = tlv_bytes t xs" and "length xs < 2 ^ 64"
  shows "encoder_block e = Inr (mkBlock t xs)"
proof -
  have "m_buffer e \<noteq> []" using assms(1) by (auto simp: enc_bytes_def tlv_bytes_def)
  with assms(2) show ?thesis
    unfolding encoder_block_def assms(1)
    by (simp add: tlv_bytes_def readType_write readVarNumber_write unat_of_nat_length mkBlock_def)
qed

lemma tlv_bytes_nonempty [simp]: "tlv_bytes t xs \<noteq> []"
  by (simp add: tlv_bytes_def)

lemma readElement_shorter: "readElement bs = Inr (b, rest) \<Longrightarrow> length rest < length bs"
  by (auto simp: readElement_def bindR_eq_Inr split: if_splits
      dest!: readType_shorter readVarNumber_shorter)

lemma parse_loop_step:
  assumes "readElement bs = Inr (b, rest)"
  shows "parse_loop es bs = parse_loop (es @ [b]) rest"
proof -
  from assms have "bs \<noteq> []" by (auto dest: readElement_shorter)
  with assms show ?thesis
    by (subst parse_loop.simps) (auto simp: readElement_def bindR_eq_Inr split: if_splits)
qed

lemma parse_loop_stop:
  assumes "readElement bs = Inl err" and "bs \<noteq> []"
  shows "snd (parse_loop es bs) = Some err"
  using assms
  by (subst parse_loop.simps) (auto simp: readElement_def bindR_def split: if_splits sum.splits)

definition parse_result :: "block list \<times> tlv_error option \<Rightarrow> tlv_error + block list" where
  "parse_result r = (case snd r of None \<Rightarrow> Inr (fst r) | Some err \<Rightarrow> Inl err)"

lemma elements_of_eq: "elements_of bs = parse_result (parse_loop [] bs)"
  by (cases "bs = []")
     (auto simp: elements_of_def parse_def parse_result_def parse_loop.simps [of "[]" "[]"]
       split: prod.splits option.splits)

lemma parse_loop_acc: "parse_result (parse_loop es bs) = bindR (elements_of bs) (\<lambda>fs. Inr (es @ fs))"
proof (induction "length bs" arbitrary: es bs rule: less_induct)
  case less
  show ?case
  proof (cases "bs = []")
    case True
    then show ?thesis by (simp add: elements_of_eq parse_result_def parse_loop.simps)
  next
    case nonempty: False
    show ?thesis
    proof (cases "readElement bs")
      case (Inl err)
      with nonempty show ?thesis by (simp add: elements_of_eq parse_result_def parse_loop_stop)
    next
      case (Inr r)
      then obtain b rest where *: "readElement bs = Inr (b, rest)" by (cases r) auto
      note IH = less [OF readElement_shorter [OF *]]
      show ?thesis
        by (cases "elements_of rest") (simp_all add: elements_of_eq [of bs] parse_loop_step [OF *] IH)
    qed
  qed
qed

lemma elements_of_Nil [simp]: "elements_of [] = Inr []"
  by (simp add: elements_of_def parse_def)

lemma elements_of_step:
  assumes "readElement bs = Inr (b, rest)"
  shows "elements_of bs = bindR (elements_of rest) (\<lambda>es. Inr (b # es))"
  by (simp add: elements_of_eq [of bs] parse_loop_step [OF assms] parse_loop_acc)

lemma blk_valid_readElement: "blk_valid b \<Longrightarrow> readElement (blk_wire b @ rest) = Inr (b, rest)"
  using readElement_tlv_bytes [of "blk_value b" "blk_type b" rest]
  by (metis blk_valid_def mkBlock_sel(3))

interpretation varnum: wire_codec "\<lambda>_. True" writeVarNumber readVarNumber
  by unfold_locales (simp add: readVarNumber_write)

interpretation typenum: wire_codec "\<lambda>_. True" "\<lambda>t. writeVarNumber (ucast t)" readType
  by unfold_locales (simp add: readType_write)

interpretation blocks: wire_seq_codec blk_valid blk_wire readElement elements_of
  by unfold_locales (simp_all add: blk_valid_readElement elements_of_step [OF blk_valid_readElement])

lemma elements_of_concat [tlv_simps]:
  "\<forall>b\<in>set bs. blk_valid b \<Longrightarrow> elements_of (concat (map blk_wire bs)) = Inr bs"
  by (rule blocks.dec_all_enc)

section \<open>Properties\<close>

lemma encode_refines:
  "enc_wf e \<Longrightarrow> enc_wf (fst (encodeBlock t e)) \<and>
     enc_bytes (fst (encodeBlock t e)) = blk_wire (tree_block t) @ enc_bytes e \<and>
     snd (encodeBlock t e) = length (blk_wire (tree_block t))"
  "enc_wf e \<Longrightarrow> enc_wf (fst (encodeElements ts e)) \<and>
     enc_bytes (fst (encodeElements ts e)) = concat (map (blk_wire \<circ> tree_block) ts) @ enc_bytes e \<and>
     snd (encodeElements ts e) = length (concat (map (blk_wire \<circ> tree_block) ts))"
proof (induction t e and ts e rule: encodeBlock_encodeElements.induct)
  case (1 type sz val e0)
  then show ?case
    by (simp add: split_beta Let_def prepends_basic prependsD [OF prepends_VarNumber] tlv_bytes_def)
next
  case (2 type ts e0)
  then show ?case
    by (simp add: split_beta Let_def prependsD [OF prepends_VarNumber] tlv_bytes_def comp_def)
next
  case (3 e)
  then show ?case by simp
next
  case (4 b bs e0)
  then show ?case
    using 4(2) [OF refl prod.collapse] by (simp add: split_beta Let_def comp_def)
qed

lemma tree_block_mkBlock: "tree_block t = mkBlock (blk_type (tree_block t)) (blk_value (tree_block t))"
  by (cases t) simp_all

lemma length_blk_value_le: "length (blk_value (tree_block t)) \<le> length (blk_wire (tree_block t))"
  by (subst (2) tree_block_mkBlock) (simp add: tlv_bytes_def)

lemma length_le_concat: "x \<in> set xs \<Longrightarrow> length x \<le> length (concat xs)"
  by (induction xs) auto

lemma tree_children_valid:
  assumes "length (concat (map (blk_wire \<circ> tree_block) ts)) < 2 ^ 64" and "b \<in> set (map tree_block ts)"
  shows "blk_valid b"
proof -
  from assms(2) obtain t where t: "t \<in> set ts" "b = tree_block t" by auto
  then have "length (blk_wire b) \<le> length (concat (map (blk_wire \<circ> tree_block) ts))"
    by (intro length_le_concat) auto
  with assms(1) length_blk_value_le [of t] t tree_block_mkBlock [of t] show ?thesis
    by (simp add: blk_valid_def)
qed

text \<open>C27: a block built from sub-elements is encoded into an encoder with any amount of room such that
  decoding the written bytes gives the block back and parsing its TLV-VALUE gives the sub-elements
  back in order.\<close>

theorem block_encode_decode:
  assumes "length (blk_value (tree_block (NestedBlock type ts))) < 2 ^ 64"
  shows "\<exists>b. blockOfBuffer (enc_bytes (fst (encodeBlock (NestedBlock type ts) (mkEncoder n k)))) = Inr b \<and>
    blk_type b = type \<and> elements_of (blk_value b) = Inr (map tree_block ts)"
proof -
  let ?v = "concat (map (blk_wire \<circ> tree_block) ts)"
  have bytes: "enc_bytes (fst (encodeBlock (NestedBlock type ts) (mkEncoder n k))) = tlv_bytes type ?v"
    using encode_refines(1) [of "mkEncoder n k" "NestedBlock type ts"] by simp
  have "blockOfBuffer (tlv_bytes type ?v) = Inr (mkBlock type ?v)"
    using blockOfBuffer_tlv_bytes [of ?v type "[]"] assms by simp
  moreover have "elements_of ?v = Inr (map tree_block ts)"
    using elements_of_concat [of "map tree_block ts"] tree_children_valid [of ts] assms by simp
  ultimately show ?thesis unfolding bytes by auto
qed

theorem block_encode_decode_witness:
  "\<exists>b. blockOfBuffer (enc_bytes (fst (encodeBlock
      (NestedBlock 850 [ValueBlock 859 4 [9], NestedBlock 6 [ValueBlock 7 2 []]]) (mkEncoder 0 0)))) = Inr b \<and>
    blk_type b = 850 \<and> elements_of (blk_value b) = Inr [mkBlock 859 [9], mkBlock 6 [7, 0]]"
proof -
  have "length (blk_value (tree_block (NestedBlock 850 [ValueBlock 859 4 [9], NestedBlock 6 [ValueBlock 7 2 []]]))) < 2 ^ 64"
    by (simp add: tlv_bytes_def sizeOfVarNumber_def)
  from block_encode_decode [OF this, of 0 0] show ?thesis
    by (simp add: tlv_bytes_def writeVarNumber_def)
qed

lemma readVarNumber_try:
  "tryReadVarNumber bs = (case readVarNumber bs of Inl _ \<Rightarrow> None | Inr r \<Rightarrow> Some r)"
  by (auto simp: readVarNumber_def tryReadVarNumber_def split: option.splits list.splits)

lemma readType_try: "tryReadType bs = (case readType bs of Inl _ \<Rightarrow> None | Inr r \<Rightarrow> Some r)"
  by (auto simp: tryReadType_def readType_def readVarNumber_try bindR_def split: sum.splits)

text \<open>the non-throwing \<open>fromBuffer\<close> succeeds on exactly the buffers on which the throwing
  constructor does, with the same block.\<close>

theorem fromBuffer_equiv:
  "fromBuffer bs = (case blockOfBuffer bs of Inl _ \<Rightarrow> None | Inr b \<Rightarrow> Some b)"
  by (auto simp: fromBuffer_def blockOfBuffer_def readType_try readVarNumber_try bindR_def Let_def
      split: sum.splits prod.splits)

text \<open>
  A block whose \<open>parse()\<close> threw on a truncated sub-element keeps the sub-elements before it, and the
  next \<open>parse()\<close> returns them without an error.
\<close>

lemma parse_again_hides_error:
  "\<exists>val es err. parse [] val = (es, Some err) \<and> parse es val = (es, None)"
proof (intro exI conjI)
  show "parse [] [1, 1, 5, 2] = ([mkBlock 1 [5]], Some EmptyBuffer)" by code_simp
  show "parse [mkBlock 1 [5]] [1, 1, 5, 2] = ([mkBlock 1 [5]], None)" by (simp add: parse_def)
qed

end
