(* ===== verification/Ndn_Types.thy ===== *)
theory Ndn_Types
  imports Tlv_Block
begin

text \<open>
  The NDN packets as VAL and NFD see them: names with the prefix operations of \<open>name.cpp\<close>, Interests
  with their selectors, Data with its meta information and signature, the cached wire block of each,
  and the link-protocol tags that are attached to a packet object. An Interest carries the nonce that
  \<open>getNonce()\<close> returns.
\<close>

section \<open>Names\<close>

text \<open>A component is its TLV-TYPE and its value.\<close>

type_synonym component = "u32 \<times> byte list"
type_synonym name = "component list"

definition tlv_ImplicitSha256Digest :: u32 where "tlv_ImplicitSha256Digest = 1"

definition npos :: u64 where "npos = 18446744073709551615"

definition name_at :: "int \<Rightarrow> name \<Rightarrow> component option" where
  "name_at i n =
     (let j = (if i < 0 then int (length n) + i else i) in
      if j < 0 \<or> int (length n) \<le> j then None else Some (n ! nat j))"

definition getSubName :: "int \<Rightarrow> u64 \<Rightarrow> name \<Rightarrow> name" where
  "getSubName iStartComponent nComponents n =
     (let iStart = max (if iStartComponent < 0 then int (length n) + iStartComponent else iStartComponent) 0;
          iEnd = (if nComponents \<noteq> npos then min (length n) (unat (of_int iStart + nComponents)) else length n)
      in take (iEnd - nat iStart) (drop (nat iStart) n))"

definition getPrefix :: "int \<Rightarrow> name \<Rightarrow> name" where
  "getPrefix nComponents n =
     (if nComponents < 0 then getSubName 0 (of_nat (length n) + of_int nComponents) n
      else getSubName 0 (of_int nComponents) n)"

text \<open>The comparison loops of \<open>isPrefixOf\<close> and \<open>equals\<close>, from component \<open>i\<close> on, \<open>k\<close> left.\<close>

primrec name_cmp_loop :: "nat \<Rightarrow> nat \<Rightarrow> name \<Rightarrow> name \<Rightarrow> bool" where
  "name_cmp_loop 0 i a b = True"
| "name_cmp_loop (Suc k) i a b = (if a ! i \<noteq> b ! i then False else name_cmp_loop k (Suc i) a b)"

definition isPrefixOf :: "name \<Rightarrow> name \<Rightarrow> bool" where
  "isPrefixOf a b = (if length a > length b then False else name_cmp_loop (length a) 0 a b)"

definition name_equals :: "name \<Rightarrow> name \<Rightarrow> bool" where
  "name_equals a b = (if length a \<noteq> length b then False else name_cmp_loop (length a) 0 a b)"

section \<open>Packets\<close>

text \<open>
  The TLV-VALUEs of a signature's SignatureInfo, which is missing when the Data is not signed, and of
  its SignatureValue.
\<close>

type_synonym signature = "byte list option \<times> byte list option"

definition signature_eq :: "signature \<Rightarrow> signature \<Rightarrow> bool" where
  "signature_eq l r \<longleftrightarrow> fst l = fst r \<and> snd l = snd r"

datatype key_locator_type =
    KeyLocator_None
  | KeyLocator_Name name
  | KeyLocator_KeyDigest block
  | KeyLocator_Unknown

record key_locator =
  kl_type :: key_locator_type
  kl_wire :: "block option"

text \<open>
  The entries of an Exclude in the order of its \<open>std::map\<close>, the greatest component first; \<open>None\<close> is the
  negative infinity, the flag says that an Any follows.
\<close>

type_synonym exclude = "(component option \<times> bool) list"

record selectors =
  sel_minSuffixComponents :: int
  sel_maxSuffixComponents :: int
  sel_publisherPublicKeyLocator :: key_locator
  sel_exclude :: exclude
  sel_childSelector :: int
  sel_mustBeFresh :: bool
  sel_wire :: "block option"

definition mkSelectors :: selectors where
  "mkSelectors = \<lparr> sel_minSuffixComponents = - 1, sel_maxSuffixComponents = - 1,
     sel_publisherPublicKeyLocator = \<lparr> kl_type = KeyLocator_None, kl_wire = None \<rparr>, sel_exclude = [],
     sel_childSelector = 0, sel_mustBeFresh = False, sel_wire = None \<rparr>"

text \<open>A delegation is its preference and its name.\<close>

type_synonym delegation = "u64 \<times> name"

record interest =
  in_name :: name
  in_selectors :: selectors
  in_nonce :: nonce
  in_lifetime :: int
  in_forwardingHint :: "delegation list"
  in_parameters :: "block option"
  in_wire :: "block option"
  in_hopCount :: "u64 option"
  in_nextHopFaceId :: "face_id option"
  in_incomingFaceId :: "face_id option"
  in_congestionMark :: "u64 option"
  in_nonDiscovery :: bool

record data =
  d_name :: name
  d_contentType :: u32
  d_freshness :: int
  d_finalBlockId :: "component option"
  d_appMetaInfo :: "block list"
  d_content :: "byte list"
  d_signature :: signature
  d_wire :: "block option"
  d_hopCount :: "u64 option"
  d_incomingFaceId :: "face_id option"
  d_congestionMark :: "u64 option"
  d_cachePolicy :: "u64 option"
  d_prefixAnnouncement :: "block option"

section \<open>Lemmas\<close>

lemma name_cmp_loop_eq:
  "i + k \<le> length a \<Longrightarrow> i + k \<le> length b \<Longrightarrow>
     name_cmp_loop k i a b \<longleftrightarrow> take k (drop i a) = take k (drop i b)"
proof (induction k arbitrary: i)
  case (Suc k)
  then have "drop i a = a ! i # drop (Suc i) a" "drop i b = b ! i # drop (Suc i) b"
    by (simp_all add: Cons_nth_drop_Suc)
  with Suc show ?case by simp
qed simp

lemma isPrefixOf_iff: "isPrefixOf a b \<longleftrightarrow> (\<exists>c. b = a @ c)"
proof
  assume "isPrefixOf a b"
  then have "a = take (length a) b" by (simp add: isPrefixOf_def name_cmp_loop_eq split: if_splits)
  then show "\<exists>c. b = a @ c" by (metis append_take_drop_id)
qed (auto simp: isPrefixOf_def name_cmp_loop_eq)

lemma name_equals_iff [simp]: "name_equals a b \<longleftrightarrow> a = b"
  by (auto simp: name_equals_def name_cmp_loop_eq)

lemma signature_eq_iff [simp]: "signature_eq l r \<longleftrightarrow> l = r"
  by (auto simp: signature_eq_def prod_eq_iff)

lemma getPrefix_minus_one:
  assumes "length n < 2 ^ 64"
  shows "getPrefix (- 1) n = butlast n"
proof (cases n rule: rev_cases)
  case Nil
  then show ?thesis by (simp add: getPrefix_def getSubName_def)
next
  case (snoc m c)
  then have "unat (of_nat (length m) :: u64) = length m"
    using assms by (simp add: unat_of_nat)
  moreover from this have "(of_nat (length m) :: u64) \<noteq> npos"
    using assms snoc by (auto simp: npos_def)
  ultimately show ?thesis by (simp add: getPrefix_def getSubName_def snoc)
qed

section \<open>Example packets\<close>

text \<open>Concrete packets on which the witnesses evaluate the model.\<close>

definition example_interest :: "nonce \<Rightarrow> interest" where
  "example_interest n = \<lparr> in_name = [(8, [1]), (8, [2])], in_selectors = mkSelectors\<lparr> sel_maxSuffixComponents := 1 \<rparr>,
     in_nonce = n, in_lifetime = 4000, in_forwardingHint = [], in_parameters = None, in_wire = None,
     in_hopCount = None, in_nextHopFaceId = None, in_incomingFaceId = None, in_congestionMark = None,
     in_nonDiscovery = False \<rparr>"

definition example_data :: "byte \<Rightarrow> data" where
  "example_data b = \<lparr> d_name = [(8, [1]), (8, [2])], d_contentType = 0, d_freshness = 0, d_finalBlockId = None,
     d_appMetaInfo = [], d_content = [b], d_signature = (Some [27, 1, 0], Some [b]), d_wire = None,
     d_hopCount = None, d_incomingFaceId = None, d_congestionMark = None, d_cachePolicy = None,
     d_prefixAnnouncement = None \<rparr>"

end
