(* ===== verification/Ndn_Uri.thy ===== *)
theory Ndn_Uri
  imports Ndn_Types
begin

text \<open>
  The URI form of names that VAL puts into the road-name field of its headers: percent-encoding of
  \<open>util/string-helper\<close>, the escaped value of a component (\<open>impl/name-component-types.hpp\<close>), and the
  output operators of components and names.
\<close>

section \<open>Model\<close>

definition toHexChar :: "nat \<Rightarrow> bool \<Rightarrow> char" where
  "toHexChar n wantUpperCase =
     (if wantUpperCase then ''0123456789ABCDEF'' else ''0123456789abcdef'') ! (n mod 16)"

definition fromHexChar :: "char \<Rightarrow> int" where
  "fromHexChar c =
     (let n = (of_char c :: int) in
      if 48 \<le> n \<and> n \<le> 57 then n - 48
      else if 65 \<le> n \<and> n \<le> 70 then n - 65 + 10
      else if 97 \<le> n \<and> n \<le> 102 then n - 97 + 10
      else -1)"

definition unreserved :: "byte \<Rightarrow> bool" where
  "unreserved c \<longleftrightarrow> (97 \<le> c \<and> c \<le> 122) \<or> (65 \<le> c \<and> c \<le> 90) \<or> (48 \<le> c \<and> c \<le> 57) \<or>
     c = 45 \<or> c = 46 \<or> c = 95 \<or> c = 126"

primrec escape :: "byte list \<Rightarrow> string" where
  "escape [] = []"
| "escape (c # cs) =
     (if unreserved c then [char_of_byte c]
      else [CHR ''%'', toHexChar (unat c div 16) True, toHexChar (unat c mod 16) True]) @ escape cs"

fun unescape :: "string \<Rightarrow> byte list" where
  "unescape (c # h # l # cs) =
     (if c = CHR ''%'' then
        (let hi = fromHexChar h; lo = fromHexChar l in
         if hi < 0 \<or> lo < 0 then byte_of_char c # byte_of_char h # byte_of_char l # unescape cs
         else of_int (hi * 16 + lo) # unescape cs)
      else byte_of_char c # unescape (h # l # cs))"
| "unescape (c # cs) = byte_of_char c # unescape cs"
| "unescape [] = []"

definition writeUriEscapedValue :: "byte list \<Rightarrow> string" where
  "writeUriEscapedValue val = (if list_all (\<lambda>x. x = 46) val then ''...'' else []) @ escape val"

definition parseUriEscapedValue :: "string \<Rightarrow> tlv_error + byte list" where
  "parseUriEscapedValue input =
     (let val = unescape input in
      if list_all (\<lambda>x. x = 46) val then
        (if length val < 3 then Inl (UnrecognizedField 8) else Inr (take (length val - 3) val))
      else Inr val)"

fun decimal :: "nat \<Rightarrow> string" where
  "decimal n = (if n < 10 then [char_of (48 + n)] else decimal (n div 10) @ [char_of (48 + n mod 10)])"

declare decimal.simps [simp del]

primrec printHex :: "byte list \<Rightarrow> string" where
  "printHex [] = []"
| "printHex (b # bs) = [toHexChar (unat b div 16) False, toHexChar (unat b mod 16) False] @ printHex bs"

definition tlv_GenericNameComponent :: u32 where "tlv_GenericNameComponent = 8"
definition tlv_ParametersSha256Digest :: u32 where "tlv_ParametersSha256Digest = 2"

definition component_toUri :: "component \<Rightarrow> string" where
  "component_toUri c =
     (if fst c = tlv_GenericNameComponent then writeUriEscapedValue (snd c)
      else if fst c = tlv_ImplicitSha256Digest then ''sha256digest='' @ printHex (snd c)
      else if fst c = tlv_ParametersSha256Digest then ''params-sha256='' @ printHex (snd c)
      else decimal (unat (fst c)) @ ''='' @ writeUriEscapedValue (snd c))"

definition name_toUri :: "name \<Rightarrow> string" where
  "name_toUri n = (if n = [] then ''/'' else concat (map (\<lambda>c. ''/'' @ component_toUri c) n))"

section \<open>Lemmas\<close>

lemma fromHexChar_toHexChar: "n < 16 \<Longrightarrow> fromHexChar (toHexChar n True) = int n"
proof -
  assume "n < 16"
  moreover have "list_all (\<lambda>n. fromHexChar (toHexChar n True) = int n) [0..<16]" by code_simp
  ultimately show ?thesis by (simp add: list_all_iff)
qed

lemma of_int_nibbles: "(of_int (int (unat (b :: byte) div 16) * 16 + int (unat b mod 16)) :: byte) = b"
proof -
  have "int (unat b div 16) * 16 + int (unat b mod 16) = int (unat b)"
    by (metis div_mult_mod_eq of_nat_add of_nat_mult of_nat_numeral)
  then show ?thesis by simp
qed

lemma unreserved_not_percent: "unreserved c \<Longrightarrow> char_of_byte c \<noteq> CHR ''%''"
proof
  assume u: "unreserved c" and "char_of_byte c = CHR ''%''"
  then have "c = byte_of_char (CHR ''%'')" by (metis byte_char_byte)
  then have "c = 37" by (simp add: byte_of_char_def)
  with u show False by (simp add: unreserved_def)
qed

lemma unescape_other: "c \<noteq> CHR ''%'' \<Longrightarrow> unescape (c # cs) = byte_of_char c # unescape cs"
  by (cases cs rule: unescape.cases) auto

lemma unescape_escape_append: "unescape (escape bs @ cs) = bs @ unescape cs"
proof (induction bs)
  case (Cons b bs)
  have "unat b div 16 < 16" "unat b mod 16 < 16" by (simp_all add: div_less_iff_less_mult)
  with Cons show ?case
    by (cases "unreserved b")
       (simp_all add: unescape_other unreserved_not_percent fromHexChar_toHexChar of_int_nibbles Let_def
         del: of_int_add of_int_mult of_int_of_nat_eq)
qed simp

lemma all_equal_replicate: "list_all (\<lambda>x. x = c) xs \<Longrightarrow> \<exists>k. xs = replicate k c"
proof (induction xs)
  case (Cons x xs)
  then obtain k where "xs = replicate k c" by auto
  with Cons.prems show ?case by (intro exI [of _ "Suc k"]) simp
qed simp

text \<open>C34: percent-encoding is undone by decoding, for every byte string; and the URI form of a name
  component (where a value of periods only gets three more) parses back to the component's value.\<close>

theorem uri_value_roundtrip:
  "unescape (escape bs) = bs \<and> parseUriEscapedValue (writeUriEscapedValue bs) = Inr bs"
proof
  show *: "unescape (escape bs) = bs" using unescape_escape_append [of bs "[]"] by simp
  have dots: "unescape (''...'' @ escape bs) = [46, 46, 46] @ bs"
    by (simp add: unescape_other * byte_of_char_def)
  have rot: "take (length bs) ([46, 46, 46] @ bs) = bs" if "list_all (\<lambda>x. x = 46) bs"
  proof -
    from all_equal_replicate [OF that] obtain k where bs: "bs = replicate k 46" by blast
    have "[46, 46, 46] @ bs = replicate (3 + k) (46 :: byte)"
      by (simp add: bs replicate_add numeral_3_eq_3)
    then show ?thesis by (simp add: bs)
  qed
  show "parseUriEscapedValue (writeUriEscapedValue bs) = Inr bs"
    using rot by (auto simp: parseUriEscapedValue_def writeUriEscapedValue_def * dots Let_def simp del: append_Cons)
qed

end
