(* ===== verification/Val_Table.thy ===== *)
theory Val_Table
  imports Val_Prelude
begin

text \<open>
  The contract the four VAL tables share with the forwarder that uses them: a list of entries with a
  separately maintained \<open>size_t\<close> counter, an add operation that may find the entry already present, a
  remove operation, and a lookup that scans the list from its front. The clients' lemmas are about
  every sequence of operations on a table that starts empty.
\<close>

datatype ('a, 'k) table_op = AddOp 'a | RemoveOp 'k

primrec run_ops ::
  "('a \<Rightarrow> 't \<Rightarrow> 't) \<Rightarrow> ('k \<Rightarrow> 't \<Rightarrow> 't outcome) \<Rightarrow> ('a, 'k) table_op list \<Rightarrow> 't \<Rightarrow> 't outcome" where
  "run_ops add remove [] t = Def t"
| "run_ops add remove (c # cs) t =
     bindU (case c of AddOp a \<Rightarrow> Def (add a t) | RemoveOp k \<Rightarrow> remove k t) (run_ops add remove cs)"

text \<open>The counter is a \<open>size_t\<close>, so the contract is modulo \<open>2 ^ 64\<close> (an exact count on any real heap).\<close>

locale counted_table =
  fixes entries :: "'t \<Rightarrow> 'e list"
    and count :: "'t \<Rightarrow> u64"
    and invar :: "'t \<Rightarrow> bool"
    and empty :: 't
    and add :: "'a \<Rightarrow> 't \<Rightarrow> 't"
    and remove :: "'k \<Rightarrow> 't \<Rightarrow> 't outcome"
  assumes entries_empty: "entries empty = []"
    and count_empty: "count empty = 0"
    and invar_empty: "invar empty"
    and invar_add: "invar t \<Longrightarrow> invar (add a t)"
    and invar_remove: "invar t \<Longrightarrow> remove k t = Def t' \<Longrightarrow> invar t'"
    and add_counts: "invar t \<Longrightarrow> \<exists>n. length (entries (add a t)) = length (entries t) + n \<and> count (add a t) = count t + of_nat n"
    and remove_counts: "invar t \<Longrightarrow> remove k t = Def t' \<Longrightarrow>
      \<exists>n. length (entries t') + n = length (entries t) \<and> count t' = count t - of_nat n"
begin

lemma invar_run: "run_ops add remove cs t = Def t' \<Longrightarrow> invar t \<Longrightarrow> invar t'"
proof (induction cs arbitrary: t)
  case (Cons c cs)
  then show ?case by (cases c) (auto simp: bindU_eq_Def intro: invar_add invar_remove)
qed simp

lemma count_invariant:
  "run_ops add remove cs t = Def t' \<Longrightarrow> invar t \<Longrightarrow> count t = of_nat (length (entries t)) \<Longrightarrow>
     count t' = of_nat (length (entries t'))"
proof (induction cs arbitrary: t)
  case (Cons c cs)
  from Cons.prems(1) obtain s where
    s: "(case c of AddOp a \<Rightarrow> Def (add a t) | RemoveOp k \<Rightarrow> remove k t) = Def s"
    and rest: "run_ops add remove cs s = Def t'"
    by (auto simp: bindU_eq_Def)
  from s have inv: "invar s" by (cases c) (auto intro: invar_add invar_remove Cons.prems(2))
  have "count s = of_nat (length (entries s))"
  proof (cases c)
    case (AddOp a)
    with s obtain n where "length (entries s) = length (entries t) + n" "count s = count t + of_nat n"
      using add_counts [OF Cons.prems(2), of a] by auto
    with Cons.prems(3) show ?thesis by simp
  next
    case (RemoveOp k)
    with s obtain n where n: "length (entries s) + n = length (entries t)" "count s = count t - of_nat n"
      using remove_counts [OF Cons.prems(2), of k s] by auto
    have "(of_nat (length (entries t)) :: u64) = of_nat (length (entries s)) + of_nat n"
      unfolding n(1) [symmetric] by simp
    with n(2) Cons.prems(3) show ?thesis by simp
  qed
  with Cons.IH rest inv show ?case by blast
qed simp

lemma count_correct: "run_ops add remove cs empty = Def t \<Longrightarrow> invar t \<and> count t = of_nat (length (entries t))"
  using invar_run [of cs empty t] count_invariant [of cs empty t]
  by (simp add: entries_empty count_empty invar_empty)

end

text \<open>A table with a lookup by a query; \<open>stored a\<close> is what adding \<open>a\<close> puts into the table.\<close>

locale lookup_table = counted_table +
  fixes stored :: "'a \<Rightarrow> 'e"
    and matches :: "'q \<Rightarrow> 'e \<Rightarrow> bool"
    and find :: "'q \<Rightarrow> 't \<Rightarrow> 'e option"
  assumes find_scan: "invar t \<Longrightarrow> find q t = List.find (matches q) (entries t)"
    and add_stores: "invar t \<Longrightarrow> matches q (stored a) \<Longrightarrow> \<exists>e\<in>set (entries (add a t)). matches q e"
    and add_only: "invar t \<Longrightarrow> set (entries (add a t)) \<subseteq> Set.insert (stored a) (set (entries t))"
    and add_keeps: "invar t \<Longrightarrow> set (entries t) \<subseteq> set (entries (add a t))"
    and remove_only: "invar t \<Longrightarrow> remove k t = Def t' \<Longrightarrow> set (entries t') \<subseteq> set (entries t)"
begin

lemma find_after_add:
  "invar t \<Longrightarrow> matches q (stored a) \<Longrightarrow> \<exists>e. find q (add a t) = Some e \<and> matches q e"
  using add_stores [of t q a] find_scan [OF invar_add, of t q a] by (auto intro: find_exists)

lemma find_sound: "invar t \<Longrightarrow> find q t = Some e \<Longrightarrow> matches q e \<and> e \<in> set (entries t)"
  by (simp add: find_scan find_SomeD)

lemma find_None_remove: "invar t \<Longrightarrow> find q t = None \<Longrightarrow> remove k t = Def t' \<Longrightarrow> find q t' = None"
  using remove_only [of t k t'] invar_remove [of t k t'] by (auto simp: find_scan find_None_iff)

lemma find_Some_add: "invar t \<Longrightarrow> find q t = Some e \<Longrightarrow> \<exists>e'. find q (add a t) = Some e' \<and> matches q e'"
  using add_keeps [of t a] find_sound [of t q e] find_scan [OF invar_add, of t q a]
  by (auto intro!: find_exists [of e])

lemma entries_added:
  "run_ops add remove cs t = Def t' \<Longrightarrow> invar t \<Longrightarrow> e \<in> set (entries t') \<Longrightarrow>
     e \<in> set (entries t) \<or> (\<exists>a. AddOp a \<in> set cs \<and> e = stored a)"
proof (induction cs arbitrary: t)
  case (Cons c cs)
  from Cons.prems(1) obtain s where
    s: "(case c of AddOp a \<Rightarrow> Def (add a t) | RemoveOp k \<Rightarrow> remove k t) = Def s"
    and rest: "run_ops add remove cs s = Def t'"
    by (auto simp: bindU_eq_Def)
  from s have "invar s" by (cases c) (auto intro: invar_add invar_remove Cons.prems(2))
  from Cons.IH [OF rest this Cons.prems(3)]
  show ?case
  proof
    assume "e \<in> set (entries s)"
    with s Cons.prems(2) show ?thesis
      by (cases c) (auto dest: subsetD [OF add_only] subsetD [OF remove_only])
  qed auto
qed simp

lemma find_provenance:
  "run_ops add remove cs empty = Def t \<Longrightarrow> find q t = Some e \<Longrightarrow>
     matches q e \<and> (\<exists>a. AddOp a \<in> set cs \<and> e = stored a)"
  using entries_added [of cs empty t e] find_sound [of t q e] invar_run [of cs empty t]
  by (auto simp: entries_empty invar_empty)

end

end
