(* ===== verification/Val_F2a.thy ===== *)
theory Val_F2a
  imports Val_Table
begin

text \<open>
  F2A, the Face-to-Area table (\<open>src/model/val/table/val-f2a*.{hpp,cpp}\<close>): which geographic area the
  geo-face with a given id stands for. The scans of \<open>findByFaceId\<close> and \<open>findByGeoArea\<close> return the
  first matching entry; entries are immutable, so a shared pointer to one is the entry itself.
\<close>

section \<open>Model\<close>

record f2a_entry =
  f2a_faceId :: face_id
  f2a_geoArea :: string

definition f2a_entry_eq :: "f2a_entry \<Rightarrow> f2a_entry \<Rightarrow> bool" where
  "f2a_entry_eq l r \<longleftrightarrow> f2a_faceId l = f2a_faceId r \<and> f2a_geoArea l = f2a_geoArea r"

record f2a =
  f2a_list :: "f2a_entry list"
  f2a_size :: u64

definition mkF2A :: f2a where "mkF2A = \<lparr> f2a_list = [], f2a_size = 0 \<rparr>"

definition f2a_findEntry :: "f2a_entry \<Rightarrow> f2a \<Rightarrow> bool" where
  "f2a_findEntry entry t = list_ex (\<lambda>x. f2a_entry_eq x entry) (f2a_list t)"

definition f2a_addEntry :: "f2a_entry \<Rightarrow> f2a \<Rightarrow> f2a" where
  "f2a_addEntry entry t =
     (if \<not> f2a_findEntry entry t then t\<lparr> f2a_list := f2a_list t @ [entry], f2a_size := f2a_size t + 1 \<rparr> else t)"

text \<open>
  The three removal loops erase the element under the iterator and then advance that same iterator,
  which \<open>std::list::erase\<close> has invalidated.
\<close>

fun f2a_erase_loop :: "(f2a_entry \<Rightarrow> bool) \<Rightarrow> f2a_entry list \<Rightarrow> f2a \<Rightarrow> f2a outcome" where
  "f2a_erase_loop P [] t = Def t"
| "f2a_erase_loop P (x # xs) t = (if P x then Undef InvalidatedIterator else f2a_erase_loop P xs t)"

definition f2a_removeEntry :: "f2a_entry \<Rightarrow> f2a \<Rightarrow> f2a outcome" where
  "f2a_removeEntry entry t = f2a_erase_loop (\<lambda>x. f2a_entry_eq x entry) (f2a_list t) t"

definition f2a_removeByFaceId :: "face_id \<Rightarrow> f2a \<Rightarrow> f2a outcome" where
  "f2a_removeByFaceId fid t = f2a_erase_loop (\<lambda>x. f2a_faceId x = fid) (f2a_list t) t"

definition f2a_removeByGeoArea :: "string \<Rightarrow> f2a \<Rightarrow> f2a outcome" where
  "f2a_removeByGeoArea area t = f2a_erase_loop (\<lambda>x. f2a_geoArea x = area) (f2a_list t) t"

definition f2a_findByFaceId :: "face_id \<Rightarrow> f2a \<Rightarrow> f2a_entry option" where
  "f2a_findByFaceId fid t = List.find (\<lambda>x. f2a_faceId x = fid) (f2a_list t)"

definition f2a_findByGeoArea :: "string \<Rightarrow> f2a \<Rightarrow> f2a_entry option" where
  "f2a_findByGeoArea area t = List.find (\<lambda>x. f2a_geoArea x = area) (f2a_list t)"

section \<open>The contract\<close>

lemma f2a_entry_eq_iff [simp]: "f2a_entry_eq l r \<longleftrightarrow> l = r"
  by (auto simp: f2a_entry_eq_def)

lemma f2a_findEntry_iff [simp]: "f2a_findEntry e t \<longleftrightarrow> e \<in> set (f2a_list t)"
  by (auto simp: f2a_findEntry_def list_ex_iff)

lemma f2a_erase_loop_eq:
  "f2a_erase_loop P xs t = (if \<exists>x\<in>set xs. P x then Undef InvalidatedIterator else Def t)"
  by (induction xs) auto

lemmas f2a_remove_defs = f2a_removeEntry_def f2a_removeByFaceId_def f2a_removeByGeoArea_def f2a_erase_loop_eq

lemma f2a_addEntry_list [table_simps]:
  "f2a_list (f2a_addEntry e t) = (if e \<in> set (f2a_list t) then f2a_list t else f2a_list t @ [e])"
  by (simp add: f2a_addEntry_def)

interpretation f2a_by_face: lookup_table f2a_list f2a_size "\<lambda>t. distinct (f2a_list t)" mkF2A f2a_addEntry f2a_removeEntry
  "\<lambda>e. e" "\<lambda>fid e. f2a_faceId e = fid" f2a_findByFaceId
proof unfold_locales
  fix a t
  show "\<exists>n. length (f2a_list (f2a_addEntry a t)) = length (f2a_list t) + n \<and>
    f2a_size (f2a_addEntry a t) = f2a_size t + of_nat n"
    by (cases "a \<in> set (f2a_list t)")
       (auto simp: f2a_addEntry_def intro: exI [of _ 0] exI [of _ 1])
qed (auto simp: mkF2A_def f2a_remove_defs f2a_findByFaceId_def table_simps split: if_splits)

interpretation f2a_by_area: lookup_table f2a_list f2a_size "\<lambda>t. distinct (f2a_list t)" mkF2A f2a_addEntry f2a_removeEntry
  "\<lambda>e. e" "\<lambda>area e. f2a_geoArea e = area" f2a_findByGeoArea
  by unfold_locales (auto simp: f2a_findByGeoArea_def table_simps dest: f2a_by_face.remove_only split: if_splits)

section \<open>Properties\<close>

text \<open>
  Removal is only defined when there is nothing to remove: an entry that is present can never be
  removed without undefined behaviour.
\<close>

lemma f2a_remove_present_undefined:
  "e \<in> set (f2a_list t) \<Longrightarrow> f2a_removeEntry e t = Undef InvalidatedIterator"
  "e \<in> set (f2a_list t) \<Longrightarrow> f2a_removeByFaceId (f2a_faceId e) t = Undef InvalidatedIterator"
  "e \<in> set (f2a_list t) \<Longrightarrow> f2a_removeByGeoArea (f2a_geoArea e) t = Undef InvalidatedIterator"
  by (auto simp: f2a_remove_defs)

text \<open>adding the entry of a new area leaves the face that every other area resolves to, and the
  area that every other face resolves to, unchanged, and makes the new area resolve to its face.\<close>

theorem f2a_add_resolves:
  assumes "f2a_findByGeoArea (f2a_geoArea e) t = None"
  shows "f2a_findByGeoArea (f2a_geoArea e) (f2a_addEntry e t) = Some e \<and>
    (area \<noteq> f2a_geoArea e \<longrightarrow> f2a_findByGeoArea area (f2a_addEntry e t) = f2a_findByGeoArea area t) \<and>
    (fid \<noteq> f2a_faceId e \<longrightarrow> f2a_findByFaceId fid (f2a_addEntry e t) = f2a_findByFaceId fid t) \<and>
    f2a_size (f2a_addEntry e t) = f2a_size t + 1"
proof -
  from assms have "e \<notin> set (f2a_list t)" by (auto simp: f2a_findByGeoArea_def find_None_iff)
  with assms show ?thesis
    by (auto simp: f2a_findByGeoArea_def f2a_findByFaceId_def f2a_addEntry_def find_append split: option.splits)
qed

theorem f2a_add_resolves_witness:
  "f2a_findByGeoArea ''B2'' (f2a_addEntry \<lparr> f2a_faceId = 300, f2a_geoArea = ''B2'' \<rparr>
     \<lparr> f2a_list = [\<lparr> f2a_faceId = 256, f2a_geoArea = ''0'' \<rparr>], f2a_size = 1 \<rparr>)
   = Some \<lparr> f2a_faceId = 300, f2a_geoArea = ''B2'' \<rparr>"
  using f2a_add_resolves [of "\<lparr> f2a_faceId = 300, f2a_geoArea = ''B2'' \<rparr>"
      "\<lparr> f2a_list = [\<lparr> f2a_faceId = 256, f2a_geoArea = ''0'' \<rparr>], f2a_size = 1 \<rparr>" "''0''" 256]
  by (simp add: f2a_findByGeoArea_def)

end
