(* ===== verification/Val_Header.thy ===== *)
theory Val_Header
  imports Tlv_Block
begin

text \<open>
  \<open>ValHeader\<close> (\<open>src/model/val/val-header.hpp\<close>, \<open>.cpp\<close>): source area, destination area, position of
  the previous hop, road name and hop counter, with the TLV wire format and the cached wire block.
\<close>

section \<open>TLV-TYPE numbers (lp/tlv.hpp)\<close>

definition tlv_ValHeader :: u32 where [simp]: "tlv_ValHeader = 850"
definition tlv_ValHeaderSA :: u32 where [simp]: "tlv_ValHeaderSA = 851"
definition tlv_ValHeaderDA :: u32 where [simp]: "tlv_ValHeaderDA = 853"
definition tlv_ValHeaderPhPos :: u32 where [simp]: "tlv_ValHeaderPhPos = 855"
definition tlv_ValHeaderRN :: u32 where [simp]: "tlv_ValHeaderRN = 857"
definition tlv_ValHeaderHopC :: u32 where [simp]: "tlv_ValHeaderHopC = 859"

section \<open>The header\<close>

definition MAXHOPS :: u8 where "MAXHOPS = 9"

record val_header =
  h_SA :: string
  h_DA :: string
  h_phPos :: string
  h_RN :: string
  h_hopC :: u8
  h_wire :: "block option"

definition default_ValHeader :: val_header where
  "default_ValHeader = \<lparr> h_SA = ''TEST'', h_DA = ''TEST'', h_phPos = ''TEST'', h_RN = ''TEST'',
     h_hopC = 0, h_wire = None \<rparr>"

definition mkValHeader :: "string \<Rightarrow> string \<Rightarrow> string \<Rightarrow> string \<Rightarrow> u8 \<Rightarrow> val_header" where
  "mkValHeader SA DA phPos RN hopC = \<lparr> h_SA = SA, h_DA = DA, h_phPos = phPos, h_RN = RN,
     h_hopC = hopC, h_wire = None \<rparr>"

text \<open>\<open>wireEncode(encoder)\<close>: the fields are prepended, so the hop counter comes first on the wire.\<close>

definition wireEncode_header :: "val_header \<Rightarrow> encoder \<Rightarrow> encoder \<times> nat" where
  "wireEncode_header h e0 =
     (let (e1, l1) = prependStringBlock tlv_ValHeaderSA (h_SA h) e0;
          (e2, l2) = prependStringBlock tlv_ValHeaderDA (h_DA h) e1;
          (e3, l3) = prependStringBlock tlv_ValHeaderPhPos (h_phPos h) e2;
          (e4, l4) = prependStringBlock tlv_ValHeaderRN (h_RN h) e3;
          (e5, l5) = prependNonNegativeIntegerBlock tlv_ValHeaderHopC (ucast (h_hopC h)) e4;
          len = l1 + l2 + l3 + l4 + l5;
          (e6, l6) = prependVarNumber (of_nat len) e5;
          (e7, l7) = prependVarNumber (ucast tlv_ValHeader) e6
      in (e7, len + l6 + l7))"

text \<open>The same template instantiated with the estimator.\<close>

definition wireEncode_header_estimate :: "val_header \<Rightarrow> nat" where
  "wireEncode_header_estimate h =
     (let len = est_prependByteArrayBlock tlv_ValHeaderSA (map byte_of_char (h_SA h))
              + est_prependByteArrayBlock tlv_ValHeaderDA (map byte_of_char (h_DA h))
              + est_prependByteArrayBlock tlv_ValHeaderPhPos (map byte_of_char (h_phPos h))
              + est_prependByteArrayBlock tlv_ValHeaderRN (map byte_of_char (h_RN h))
              + est_prependNonNegativeIntegerBlock tlv_ValHeaderHopC (ucast (h_hopC h));
          len2 = len + est_prependVarNumber (of_nat len)
      in len2 + est_prependVarNumber (ucast tlv_ValHeader))"

text \<open>\<open>wireEncode()\<close>: the block and the header with its wire cache filled.\<close>

definition header_wireEncode :: "val_header \<Rightarrow> tlv_error + (block \<times> val_header)" where
  "header_wireEncode h =
     (case h_wire h of Some b \<Rightarrow> Inr (b, h)
      | None \<Rightarrow>
          bindR (encoder_block (fst (wireEncode_header h (mkEncoder (wireEncode_header_estimate h) 0))))
            (\<lambda>b. Inr (b, h\<lparr> h_wire := Some b \<rparr>)))"

text \<open>The \<open>switch\<close> on one sub-element, and the loop over all of them.\<close>

definition decode_subblock :: "block \<Rightarrow> val_header \<Rightarrow> tlv_error + val_header" where
  "decode_subblock b h =
     (if blk_type b = tlv_ValHeaderSA then Inr (h\<lparr> h_SA := readString b \<rparr>)
      else if blk_type b = tlv_ValHeaderDA then Inr (h\<lparr> h_DA := readString b \<rparr>)
      else if blk_type b = tlv_ValHeaderPhPos then Inr (h\<lparr> h_phPos := readString b \<rparr>)
      else if blk_type b = tlv_ValHeaderRN then Inr (h\<lparr> h_RN := readString b \<rparr>)
      else if blk_type b = tlv_ValHeaderHopC then
        bindR (readNonNegativeIntegerBlock b) (\<lambda>n. Inr (h\<lparr> h_hopC := ucast n \<rparr>))
      else Inl (UnrecognizedField (blk_type b)))"

primrec decode_subblocks :: "block list \<Rightarrow> val_header \<Rightarrow> tlv_error + val_header" where
  "decode_subblocks [] h = Inr h"
| "decode_subblocks (b # bs) h = bindR (decode_subblock b h) (decode_subblocks bs)"

definition header_wireDecode :: "block \<Rightarrow> val_header \<Rightarrow> tlv_error + val_header" where
  "header_wireDecode wire h =
     (if blk_type wire \<noteq> tlv_ValHeader then Inl (UnexpectedType (blk_type wire))
      else bindR (elements_of (blk_value wire)) (\<lambda>es. decode_subblocks es (h\<lparr> h_wire := Some wire \<rparr>)))"

text \<open>The constructor from a block leaves \<open>m_hopC\<close> uninitialised before it decodes: \<open>garbage\<close>.\<close>

definition mkValHeader_of_block :: "u8 \<Rightarrow> block \<Rightarrow> tlv_error + val_header" where
  "mkValHeader_of_block garbage b =
     header_wireDecode b \<lparr> h_SA = [], h_DA = [], h_phPos = [], h_RN = [], h_hopC = garbage, h_wire = None \<rparr>"

definition setSA :: "string \<Rightarrow> val_header \<Rightarrow> val_header" where "setSA s h = h\<lparr> h_SA := s \<rparr>"
definition setDA :: "string \<Rightarrow> val_header \<Rightarrow> val_header" where "setDA s h = h\<lparr> h_DA := s \<rparr>"
definition setPhPos :: "string \<Rightarrow> val_header \<Rightarrow> val_header" where "setPhPos s h = h\<lparr> h_phPos := s \<rparr>"
definition setRN :: "string \<Rightarrow> val_header \<Rightarrow> val_header" where "setRN s h = h\<lparr> h_RN := s \<rparr>"

definition setHopC :: "u8 \<Rightarrow> val_header \<Rightarrow> val_header" where
  "setHopC hopC h = (if hopC \<le> MAXHOPS then h\<lparr> h_hopC := hopC \<rparr> else h)"

definition header_eq :: "val_header \<Rightarrow> val_header \<Rightarrow> bool" where
  "header_eq l r \<longleftrightarrow> h_DA l = h_DA r \<and> h_hopC l = h_hopC r \<and> h_phPos l = h_phPos r \<and>
     h_RN l = h_RN r \<and> h_SA l = h_SA r"

section \<open>The wire format\<close>

text \<open>The sub-elements in wire order.\<close>

definition header_elements :: "val_header \<Rightarrow> block list" where
  "header_elements h =
     [mkBlock 859 (writeNonNegativeInteger (ucast (h_hopC h))),
      mkBlock 857 (map byte_of_char (h_RN h)),
      mkBlock 855 (map byte_of_char (h_phPos h)),
      mkBlock 853 (map byte_of_char (h_DA h)),
      mkBlock 851 (map byte_of_char (h_SA h))]"

definition header_value :: "val_header \<Rightarrow> byte list" where
  "header_value h = concat (map blk_wire (header_elements h))"

lemma wireEncode_header_eq:
  "wireEncode_header h = close_element tlv_ValHeader
     (then_prepend (then_prepend (then_prepend (then_prepend
        (prependStringBlock tlv_ValHeaderSA (h_SA h))
        (prependStringBlock tlv_ValHeaderDA (h_DA h)))
        (prependStringBlock tlv_ValHeaderPhPos (h_phPos h)))
        (prependStringBlock tlv_ValHeaderRN (h_RN h)))
        (prependNonNegativeIntegerBlock tlv_ValHeaderHopC (ucast (h_hopC h))))"
  by (simp add: fun_eq_iff wireEncode_header_def close_element_def then_prepend_def Let_def split_beta
      del: of_nat_add)

lemma header_value_eq:
  "header_value h = tlv_bytes 859 (writeNonNegativeInteger (ucast (h_hopC h))) @
     tlv_bytes 857 (map byte_of_char (h_RN h)) @ tlv_bytes 855 (map byte_of_char (h_phPos h)) @
     tlv_bytes 853 (map byte_of_char (h_DA h)) @ tlv_bytes 851 (map byte_of_char (h_SA h))"
  by (simp add: header_value_def header_elements_def)

lemma wireEncode_header_refines:
  "prepends (wireEncode_header h) (tlv_bytes tlv_ValHeader (header_value h))"
  unfolding wireEncode_header_eq header_value_eq tlv_ValHeaderSA_def tlv_ValHeaderDA_def
    tlv_ValHeaderPhPos_def tlv_ValHeaderRN_def tlv_ValHeaderHopC_def
  by (intro prepends_close prepends_then prepends_StringBlock prepends_NonNegativeIntegerBlock)

lemma wireEncode_header_estimate_eq:
  "wireEncode_header_estimate h = length (tlv_bytes tlv_ValHeader (header_value h))"
proof -
  have "length (tlv_bytes 851 (map byte_of_char (h_SA h))) + length (tlv_bytes 853 (map byte_of_char (h_DA h))) +
    length (tlv_bytes 855 (map byte_of_char (h_phPos h))) + length (tlv_bytes 857 (map byte_of_char (h_RN h))) +
    length (tlv_bytes 859 (writeNonNegativeInteger (ucast (h_hopC h)))) = length (header_value h)"
    by (simp only: header_value_eq length_append add_ac)
  then show ?thesis
    unfolding wireEncode_header_estimate_def est_prependByteArrayBlock_eq
      est_prependNonNegativeIntegerBlock_eq
    by (simp add: length_tlv_bytes [of 850] Let_def del: of_nat_add)
qed

lemma sizeOfVarNumber_le: "sizeOfVarNumber n \<le> 9" and sizeOfNonNegativeInteger_le: "sizeOfNonNegativeInteger n \<le> 8"
  by (simp_all add: sizeOfVarNumber_def sizeOfNonNegativeInteger_def)

lemma length_tlv_bytes_le: "length (tlv_bytes t xs) \<le> 18 + length xs"
  using sizeOfVarNumber_le [of "ucast t"] sizeOfVarNumber_le [of "of_nat (length xs)"]
  by (simp add: tlv_bytes_def)

lemma header_value_length:
  "length (header_value h) \<le> 98 + length (h_SA h) + length (h_DA h) + length (h_phPos h) + length (h_RN h)"
  using length_tlv_bytes_le [of 851 "map byte_of_char (h_SA h)"]
    length_tlv_bytes_le [of 853 "map byte_of_char (h_DA h)"]
    length_tlv_bytes_le [of 855 "map byte_of_char (h_phPos h)"]
    length_tlv_bytes_le [of 857 "map byte_of_char (h_RN h)"]
    length_tlv_bytes_le [of 859 "writeNonNegativeInteger (ucast (h_hopC h))"]
    sizeOfNonNegativeInteger_le [of "ucast (h_hopC h)"]
  by (simp add: header_value_def header_elements_def)

text \<open>Headers whose strings fit into the address space with room for the TLV framing.\<close>

definition header_fits :: "val_header \<Rightarrow> bool" where
  "header_fits h \<longleftrightarrow> length (h_SA h) + length (h_DA h) + length (h_phPos h) + length (h_RN h) < 2 ^ 63"

lemma header_fits_elements:
  "header_fits h \<Longrightarrow> \<forall>b\<in>set (header_elements h). blk_valid b"
  "header_fits h \<Longrightarrow> length (header_value h) < 2 ^ 64"
  using header_value_length [of h] sizeOfNonNegativeInteger_le [of "ucast (h_hopC h)"]
  by (simp_all add: header_fits_def header_elements_def)

lemma header_wireEncode_eq:
  assumes "h_wire h = None" and "header_fits h"
  shows "header_wireEncode h =
    Inr (mkBlock tlv_ValHeader (header_value h), h\<lparr> h_wire := Some (mkBlock tlv_ValHeader (header_value h)) \<rparr>)"
proof -
  let ?e = "fst (wireEncode_header h (mkEncoder (wireEncode_header_estimate h) 0))"
  have "enc_bytes ?e = tlv_bytes tlv_ValHeader (header_value h)"
    using prependsD(2) [OF wireEncode_header_refines mkEncoder_wf(1)] by simp
  from encoder_block_tlv_bytes [OF this header_fits_elements(2) [OF assms(2)]]
  show ?thesis using assms(1) by (simp add: header_wireEncode_def)
qed

lemma ucast_ucast_u8 [simp]: "(ucast (ucast (c :: u8) :: u64) :: u8) = c"
proof (rule ucast_ucast_eq_of_unat)
  have "unat c < 2 ^ 64" by (rule less_trans [OF unat_u8_bound]) simp
  then show "unat (ucast c :: u64) = unat c"
    by (simp add: unsigned_ucast_eq take_bit_nat_eq_self)
qed

lemma readNonNegativeIntegerBlock_write [tlv_simps]:
  "readNonNegativeIntegerBlock (mkBlock t (writeNonNegativeInteger n)) = Inr n"
  using readNonNegativeInteger_write [of n "[]"] by (simp add: readNonNegativeIntegerBlock_def)

lemma readString_write [tlv_simps]: "readString (mkBlock t (map byte_of_char s)) = s"
  by (simp add: readString_def)

lemma header_wireDecode_value:
  assumes "header_fits h"
  shows "header_wireDecode (mkBlock tlv_ValHeader (header_value h)) h0 =
    Inr (h\<lparr> h_wire := Some (mkBlock tlv_ValHeader (header_value h)) \<rparr>)"
  using elements_of_concat [OF header_fits_elements(1) [OF assms]]
  by (simp add: header_wireDecode_def header_value_def header_elements_def decode_subblock_def
      readNonNegativeIntegerBlock_write readString_write)

section \<open>Properties\<close>

text \<open>C17: encoding a header that has no cached wire block never fails, writes exactly the number of
  bytes the estimator predicted, and decoding the block into any header object gives all five fields
  back (and the block itself as the cached wire).\<close>

theorem header_roundtrip:
  assumes "h_wire h = None" and "header_fits h"
  shows "\<exists>b h'. header_wireEncode h = Inr (b, h') \<and> length (blk_wire b) = wireEncode_header_estimate h \<and>
    header_wireDecode b h0 = Inr h' \<and> header_eq h' h"
  using header_wireEncode_eq [OF assms] header_wireDecode_value [OF assms(2), of h0]
  by (simp add: wireEncode_header_estimate_eq header_eq_def)

theorem header_roundtrip_witness:
  "\<exists>b h'. header_wireEncode (mkValHeader ''A1'' ''0'' ''10:20:0'' ''RN'' 9) = Inr (b, h') \<and>
    header_wireDecode b default_ValHeader = Inr h' \<and> h_hopC h' = 9 \<and> h_SA h' = ''A1''"
  using header_roundtrip [of "mkValHeader ''A1'' ''0'' ''10:20:0'' ''RN'' 9" default_ValHeader]
  by (auto simp: mkValHeader_def header_fits_def header_eq_def)

definition header_types :: "u32 set" where
  "header_types = {851, 853, 855, 857, 859}"

lemma decode_subblock_type: "decode_subblock b h = Inr h' \<Longrightarrow> blk_type b \<in> header_types"
  by (auto simp: decode_subblock_def header_types_def split: if_splits)

lemma decode_subblock_wire: "decode_subblock b h = Inr h' \<Longrightarrow> h_wire h' = h_wire h"
  by (auto simp: decode_subblock_def bindR_eq_Inr split: if_splits)

lemma decode_subblocks_types:
  "decode_subblocks bs h = Inr h' \<Longrightarrow> \<forall>b\<in>set bs. blk_type b \<in> header_types"
  by (induction bs arbitrary: h) (auto simp: bindR_eq_Inr dest: decode_subblock_type)

lemma decode_subblocks_wire: "decode_subblocks bs h = Inr h' \<Longrightarrow> h_wire h' = h_wire h"
  by (induction bs arbitrary: h) (auto simp: bindR_eq_Inr dest: decode_subblock_wire)

text \<open>C30: \<open>wireDecode\<close> succeeds only on a ValHeader element whose value parses into sub-elements that
  all carry one of the five known types; the decoded header keeps the block as its wire, so encoding
  it again returns the received bytes unchanged.\<close>

theorem header_wireDecode_accepts:
  assumes "header_wireDecode wire h = Inr h'"
  shows "blk_type wire = tlv_ValHeader \<and>
    (\<exists>es. elements_of (blk_value wire) = Inr es \<and> (blk_type ` set es \<subseteq> header_types)) \<and>
    header_wireEncode h' = Inr (wire, h')"
  using assms decode_subblocks_types decode_subblocks_wire
  by (fastforce simp: header_wireDecode_def header_wireEncode_def bindR_eq_Inr split: if_splits)

theorem header_wireDecode_accepts_witness:
  "\<exists>h'. header_wireDecode (mkBlock 850 [253, 3, 91, 1, 4]) default_ValHeader = Inr h' \<and>
    header_wireEncode h' = Inr (mkBlock 850 [253, 3, 91, 1, 4], h')"
proof -
  have "header_wireDecode (mkBlock 850 [253, 3, 91, 1, 4]) default_ValHeader =
    Inr (default_ValHeader\<lparr> h_hopC := 4, h_wire := Some (mkBlock 850 [253, 3, 91, 1, 4]) \<rparr>)"
    by code_simp
  with header_wireDecode_accepts [OF this] show ?thesis by blast
qed

text \<open>
  The setters do not discard the cached wire block, so a header that was encoded or decoded once
  is sent with its old fields whatever is set afterwards.
\<close>

lemma setters_keep_stale_wire:
  assumes "header_wireEncode h = Inr (b, h1)"
  shows "header_wireEncode (setSA s h1) = Inr (b, setSA s h1)"
    and "header_wireEncode (setDA s h1) = Inr (b, setDA s h1)"
    and "header_wireEncode (setPhPos s h1) = Inr (b, setPhPos s h1)"
    and "header_wireEncode (setRN s h1) = Inr (b, setRN s h1)"
    and "header_wireEncode (setHopC c h1) = Inr (b, setHopC c h1)"
  using assms
  by (auto simp: header_wireEncode_def bindR_eq_Inr setSA_def setDA_def setPhPos_def setRN_def setHopC_def
      split: option.splits)

text \<open>The hop counter on the wire is a \<open>uint64_t\<close> that is cut to eight bits: 256 hops arrive as 0.\<close>

lemma decode_hopC_truncates:
  "\<exists>h. header_wireDecode (mkBlock 850 (tlv_bytes 859 (writeNonNegativeInteger 256))) default_ValHeader = Inr h
     \<and> h_hopC h = 0"
proof -
  have "header_wireDecode (mkBlock 850 (tlv_bytes 859 (writeNonNegativeInteger 256))) default_ValHeader =
    Inr (default_ValHeader\<lparr> h_hopC := 0, h_wire := Some (mkBlock 850 (tlv_bytes 859 (writeNonNegativeInteger 256))) \<rparr>)"
    by code_simp
  then show ?thesis by simp
qed

end
