(* ===== verification/Val_Ifnt.thy ===== *)
theory Val_Ifnt
  imports Val_Table Val_Header Ndn_Types
begin

text \<open>
  IFNT, the Interest From Network Table (\<open>src/model/val/table/val-ifnt*.{hpp,cpp}\<close>): one entry per
  Interest received from the network, holding what the header said when it arrived, with the hop
  counter already decreased.
\<close>

section \<open>Model\<close>

record ifnt_entry =
  if_da :: string
  if_sa :: string
  if_nonce :: nonce
  if_phPos :: string
  if_hopC :: u8
  if_rn :: string
  if_faceId :: face_id

definition mkIfntEntry :: "val_header \<Rightarrow> interest \<Rightarrow> face_id \<Rightarrow> ifnt_entry" where
  "mkIfntEntry h i fid = \<lparr> if_da = h_DA h, if_sa = h_SA h, if_nonce = in_nonce i, if_phPos = h_phPos h,
     if_hopC = h_hopC h - 1, if_rn = h_RN h, if_faceId = fid \<rparr>"

definition ifnt_entry_eq :: "ifnt_entry \<Rightarrow> ifnt_entry \<Rightarrow> bool" where
  "ifnt_entry_eq l r \<longleftrightarrow> if_da l = if_da r \<and> if_sa l = if_sa r \<and> if_nonce l = if_nonce r \<and>
     if_phPos l = if_phPos r \<and> if_hopC l = if_hopC r \<and> if_rn l = if_rn r \<and> if_faceId l = if_faceId r"

record ifnt =
  ifnt_table :: "ifnt_entry list"
  ifnt_nItens :: u64

definition mkIfnt :: ifnt where "mkIfnt = \<lparr> ifnt_table = [], ifnt_nItens = 0 \<rparr>"

definition ifnt_findMatch :: "ifnt_entry \<Rightarrow> ifnt \<Rightarrow> ifnt_entry option" where
  "ifnt_findMatch entry t = List.find (\<lambda>x. ifnt_entry_eq x entry) (ifnt_table t)"

definition ifnt_addEntry :: "ifnt_entry \<Rightarrow> ifnt \<Rightarrow> bool \<times> ifnt" where
  "ifnt_addEntry entry t =
     (if ifnt_findMatch entry t = None
      then (True, t\<lparr> ifnt_table := ifnt_table t @ [entry], ifnt_nItens := ifnt_nItens t + 1 \<rparr>)
      else (False, t))"

definition ifnt_removeEntry :: "ifnt_entry \<Rightarrow> ifnt \<Rightarrow> bool \<times> ifnt" where
  "ifnt_removeEntry entry t =
     (if list_ex (\<lambda>x. ifnt_entry_eq x entry) (ifnt_table t)
      then (True, t\<lparr> ifnt_table := erase_first (\<lambda>x. ifnt_entry_eq x entry) (ifnt_table t),
                     ifnt_nItens := ifnt_nItens t - 1 \<rparr>)
      else (False, t))"

definition ifnt_findMatchByNonce :: "nonce \<Rightarrow> ifnt \<Rightarrow> ifnt_entry option" where
  "ifnt_findMatchByNonce n t = List.find (\<lambda>x. if_nonce x = n) (ifnt_table t)"

primrec ifnt_findMatchByNonceList :: "nonce list \<Rightarrow> ifnt \<Rightarrow> ifnt_entry list" where
  "ifnt_findMatchByNonceList [] t = []"
| "ifnt_findMatchByNonceList (n # ns) t =
     (case ifnt_findMatchByNonce n t of
        None \<Rightarrow> ifnt_findMatchByNonceList ns t
      | Some e \<Rightarrow> e # ifnt_findMatchByNonceList ns t)"

definition ifnt_removeEntryByNonce :: "nonce \<Rightarrow> ifnt \<Rightarrow> bool \<times> ifnt" where
  "ifnt_removeEntryByNonce n t =
     (case ifnt_findMatchByNonce n t of None \<Rightarrow> (False, t) | Some e \<Rightarrow> ifnt_removeEntry e t)"

primrec ifnt_removeEntriesByNonceList :: "nonce list \<Rightarrow> ifnt \<Rightarrow> ifnt" where
  "ifnt_removeEntriesByNonceList [] t = t"
| "ifnt_removeEntriesByNonceList (n # ns) t =
     ifnt_removeEntriesByNonceList ns (snd (ifnt_removeEntryByNonce n t))"

section \<open>The contract\<close>

lemma ifnt_entry_eq_iff [simp]: "ifnt_entry_eq l r \<longleftrightarrow> l = r"
  by (auto simp: ifnt_entry_eq_def)

lemma ifnt_findMatch_None [simp]: "ifnt_findMatch e t = None \<longleftrightarrow> e \<notin> set (ifnt_table t)"
  by (auto simp: ifnt_findMatch_def find_None_iff)

lemma ifnt_add_table [table_simps]:
  "ifnt_table (snd (ifnt_addEntry e t)) = (if e \<in> set (ifnt_table t) then ifnt_table t else ifnt_table t @ [e])"
  by (simp add: ifnt_addEntry_def)

lemma ifnt_remove_table [table_simps]:
  "ifnt_table (snd (ifnt_removeEntry e t)) = erase_first (\<lambda>x. x = e) (ifnt_table t)"
  by (auto simp: ifnt_removeEntry_def list_ex_iff intro!: erase_first_none [symmetric])

lemma ifnt_remove_count:
  "ifnt_nItens (snd (ifnt_removeEntry e t)) = (if e \<in> set (ifnt_table t) then ifnt_nItens t - 1 else ifnt_nItens t)"
  by (auto simp: ifnt_removeEntry_def list_ex_iff)

lemma ifnt_removeByNonce_counts:
  "\<exists>m. length (ifnt_table (snd (ifnt_removeEntryByNonce n t))) + m = length (ifnt_table t) \<and>
     ifnt_nItens (snd (ifnt_removeEntryByNonce n t)) = ifnt_nItens t - of_nat m"
proof (cases "ifnt_findMatchByNonce n t")
  case None
  then show ?thesis by (intro exI [of _ 0]) (simp add: ifnt_removeEntryByNonce_def)
next
  case (Some e)
  then have "e \<in> set (ifnt_table t)" by (simp add: ifnt_findMatchByNonce_def find_SomeD)
  then show ?thesis
    by (intro exI [of _ 1])
       (simp add: ifnt_removeEntryByNonce_def Some ifnt_remove_table ifnt_remove_count Suc_length_erase_first)
qed

text \<open>The scan that removes the first entry with a nonce.\<close>

lemma erase_found:
  "List.find P xs = Some e \<Longrightarrow> erase_first (\<lambda>x. x = e) xs = erase_first P xs"
  by (induction xs) (auto split: if_splits dest: find_SomeD)

lemma ifnt_removeByNonce_table [table_simps]:
  "ifnt_table (snd (ifnt_removeEntryByNonce n t)) = erase_first (\<lambda>x. if_nonce x = n) (ifnt_table t)"
  by (auto simp: ifnt_removeEntryByNonce_def ifnt_findMatchByNonce_def table_simps erase_found
      split: option.splits intro!: erase_first_none [symmetric] dest: find_NoneD)

interpretation ifnt_by_nonce: lookup_table ifnt_table ifnt_nItens "\<lambda>t. distinct (ifnt_table t)" mkIfnt
  "\<lambda>e t. snd (ifnt_addEntry e t)" "\<lambda>n t. Def (snd (ifnt_removeEntryByNonce n t))"
  "\<lambda>e. e" "\<lambda>n e. if_nonce e = n" ifnt_findMatchByNonce
proof unfold_locales
  fix a t
  show "distinct (ifnt_table t) \<Longrightarrow> distinct (ifnt_table (snd (ifnt_addEntry a t)))"
    by (simp add: table_simps)
  show "\<exists>n. length (ifnt_table (snd (ifnt_addEntry a t))) = length (ifnt_table t) + n \<and>
    ifnt_nItens (snd (ifnt_addEntry a t)) = ifnt_nItens t + of_nat n"
    by (cases "a \<in> set (ifnt_table t)")
       (auto simp: ifnt_addEntry_def intro: exI [of _ 0] exI [of _ 1])
qed (use ifnt_removeByNonce_counts in
  \<open>auto simp: mkIfnt_def ifnt_findMatchByNonce_def table_simps
    distinct_erase_first [where f = id, simplified] dest: subsetD [OF set_erase_first]\<close>)

section \<open>Properties\<close>

lemma ifnt_findList_eq:
  "ifnt_findMatchByNonceList ns t = List.map_filter (\<lambda>n. ifnt_findMatchByNonce n t) ns"
  by (induction ns) (auto simp: List.map_filter_simps split: option.splits)

lemma ifnt_findList_sound:
  "e \<in> set (ifnt_findMatchByNonceList ns t) \<Longrightarrow> e \<in> set (ifnt_table t) \<and> if_nonce e \<in> set ns"
  by (induction ns) (auto simp: ifnt_findMatchByNonce_def split: option.splits dest: find_SomeD)

lemma ifnt_findList_nonempty:
  "(\<exists>e\<in>set (ifnt_table t). if_nonce e \<in> set ns) \<longleftrightarrow> ifnt_findMatchByNonceList ns t \<noteq> []"
  by (induction ns)
     (auto simp: ifnt_findMatchByNonce_def split: option.splits dest: find_NoneD find_SomeD)

lemma ifnt_removeList_table:
  "ifnt_table (ifnt_removeEntriesByNonceList ns t) =
     fold (\<lambda>n. erase_first (\<lambda>x. if_nonce x = n)) ns (ifnt_table t)"
  by (induction ns arbitrary: t) (simp_all add: table_simps)

lemma distinct_nonces_fold_erase:
  "distinct (map if_nonce xs) \<Longrightarrow>
     fold (\<lambda>n. erase_first (\<lambda>x. if_nonce x = n)) ns xs = filter (\<lambda>x. if_nonce x \<notin> set ns) xs"
proof (induction ns arbitrary: xs)
  case (Cons n ns)
  have "erase_first (\<lambda>x. if_nonce x = n) xs = filter (\<lambda>x. \<not> if_nonce x = n) xs"
    by (rule erase_first_eq_filter [where k = if_nonce]) (use Cons.prems in auto)
  moreover have "distinct (map if_nonce (filter (\<lambda>x. \<not> if_nonce x = n) xs))"
    using Cons.prems by (simp add: distinct_map_filter)
  ultimately show ?case using Cons.IH by (simp add: conj_commute)
qed simp

text \<open>C31: whatever Interests are recorded and whatever nonces are removed, no entry is
  recorded twice, \<open>getIfntSize\<close> is the number of entries, and an entry found for a nonce is one that was recorded and carries that nonce.\<close>

theorem ifnt_size_and_provenance:
  assumes "run_ops (\<lambda>e t. snd (ifnt_addEntry e t)) (\<lambda>n t. Def (snd (ifnt_removeEntryByNonce n t))) ops mkIfnt = Def t"
  shows "distinct (ifnt_table t) \<and> ifnt_nItens t = of_nat (length (ifnt_table t)) \<and>
    (ifnt_findMatchByNonce n t = Some e \<longrightarrow> if_nonce e = n \<and> AddOp e \<in> set ops)"
  using ifnt_by_nonce.count_correct [OF assms] ifnt_by_nonce.find_provenance [OF assms] by blast

theorem ifnt_size_and_provenance_witness:
  "\<exists>e t. run_ops (\<lambda>e t. snd (ifnt_addEntry e t)) (\<lambda>n t. Def (snd (ifnt_removeEntryByNonce n t)))
     [AddOp e, RemoveOp 6, AddOp e] mkIfnt = Def t \<and> ifnt_nItens t = 1 \<and> ifnt_findMatchByNonce 5 t = Some e"
proof -
  let ?e = "\<lparr> if_da = ''0'', if_sa = ''A1'', if_nonce = 5, if_phPos = ''1:2:0'', if_hopC = 8, if_rn = ''RN'', if_faceId = 256 \<rparr>"
  let ?t = "\<lparr> ifnt_table = [?e], ifnt_nItens = 1 \<rparr>"
  have "run_ops (\<lambda>e t. snd (ifnt_addEntry e t)) (\<lambda>n t. Def (snd (ifnt_removeEntryByNonce n t)))
     [AddOp ?e, RemoveOp 6, AddOp ?e] mkIfnt = Def ?t"
    by (simp add: mkIfnt_def ifnt_addEntry_def ifnt_removeEntryByNonce_def ifnt_findMatchByNonce_def)
  with ifnt_size_and_provenance [OF this, of 5 ?e] show ?thesis
    by (intro exI [of _ ?e] exI [of _ ?t]) (simp add: ifnt_findMatchByNonce_def)
qed

text \<open>C32: when the recorded nonces are distinct, removing a list of nonces removes exactly the entries
  with those nonces and keeps all others in order.\<close>

theorem ifnt_removeEntriesByNonceList_exact:
  assumes "distinct (map if_nonce (ifnt_table t))"
  shows "ifnt_table (ifnt_removeEntriesByNonceList ns t) = filter (\<lambda>x. if_nonce x \<notin> set ns) (ifnt_table t)"
  using distinct_nonces_fold_erase [OF assms] by (simp add: ifnt_removeList_table)

theorem ifnt_removeEntriesByNonceList_exact_witness:
  "\<exists>e. ifnt_table (ifnt_removeEntriesByNonceList [7, 5] \<lparr> ifnt_table = [e], ifnt_nItens = 1 \<rparr>) = [] \<and> if_nonce e = 5"
  using ifnt_removeEntriesByNonceList_exact [of "\<lparr> ifnt_table = [\<lparr> if_da = ''0'', if_sa = ''A1'', if_nonce = 5,
      if_phPos = ''1:2:0'', if_hopC = 8, if_rn = ''RN'', if_faceId = 256 \<rparr>], ifnt_nItens = 1 \<rparr>" "[7, 5]"]
  by (auto intro!: exI)

end
