(* ===== verification/Val_Dfnt.thy ===== *)
theory Val_Dfnt
  imports Val_Table Val_Header Ndn_Types
begin

text \<open>
  DFNT, the Data From Network Table (\<open>src/model/val/table/val-dfnt*.{hpp,cpp}\<close>): one entry per
  reception of a Data packet from the network, newest first and without a check for duplicates.
\<close>

section \<open>Model\<close>

record dfnt_entry =
  df_sa :: string
  df_da :: string
  df_sig :: signature
  df_phPos :: string
  df_hopC :: u8
  df_rn :: string
  df_faceId :: face_id

definition mkDfntEntry :: "val_header \<Rightarrow> data \<Rightarrow> face_id \<Rightarrow> dfnt_entry" where
  "mkDfntEntry h d fid = \<lparr> df_sa = h_SA h, df_da = h_DA h, df_sig = d_signature d, df_phPos = h_phPos h,
     df_hopC = h_hopC h - 1, df_rn = h_RN h, df_faceId = fid \<rparr>"

definition dfnt_entry_eq :: "dfnt_entry \<Rightarrow> dfnt_entry \<Rightarrow> bool" where
  "dfnt_entry_eq l r \<longleftrightarrow> df_sa l = df_sa r \<and> df_da l = df_da r \<and> signature_eq (df_sig l) (df_sig r) \<and>
     df_phPos l = df_phPos r \<and> df_hopC l = df_hopC r \<and> df_rn l = df_rn r \<and> df_faceId l = df_faceId r"

record dfnt =
  dfnt_table :: "dfnt_entry list"
  dfnt_nItens :: u64

definition mkDfnt :: dfnt where "mkDfnt = \<lparr> dfnt_table = [], dfnt_nItens = 0 \<rparr>"

definition dfnt_addEntry :: "dfnt_entry \<Rightarrow> dfnt \<Rightarrow> dfnt" where
  "dfnt_addEntry entry t = t\<lparr> dfnt_table := entry # dfnt_table t, dfnt_nItens := dfnt_nItens t + 1 \<rparr>"

text \<open>The removal loop with an iterator, on the part of the list behind it.\<close>

fun dfnt_remove_loop :: "(dfnt_entry \<Rightarrow> bool) \<Rightarrow> dfnt_entry list \<Rightarrow> dfnt_entry list \<Rightarrow> dfnt \<Rightarrow> bool \<times> dfnt" where
  "dfnt_remove_loop P seen [] t = (False, t)"
| "dfnt_remove_loop P seen (x # xs) t =
     (if P x then (True, t\<lparr> dfnt_table := rev seen @ xs, dfnt_nItens := dfnt_nItens t - 1 \<rparr>)
      else dfnt_remove_loop P (x # seen) xs t)"

definition dfnt_removeEntry :: "dfnt_entry \<Rightarrow> dfnt \<Rightarrow> bool \<times> dfnt" where
  "dfnt_removeEntry entry t = dfnt_remove_loop (\<lambda>x. dfnt_entry_eq x entry) [] (dfnt_table t) t"

definition dfnt_removeEntryBySignature :: "signature \<Rightarrow> dfnt \<Rightarrow> bool \<times> dfnt" where
  "dfnt_removeEntryBySignature sig t =
     dfnt_remove_loop (\<lambda>x. signature_eq (df_sig x) sig) [] (dfnt_table t) t"

definition dfnt_findMatch :: "signature \<Rightarrow> dfnt \<Rightarrow> dfnt_entry option" where
  "dfnt_findMatch sig t = List.find (\<lambda>x. signature_eq (df_sig x) sig) (dfnt_table t)"

section \<open>The contract\<close>

lemma dfnt_entry_eq_iff [simp]: "dfnt_entry_eq l r \<longleftrightarrow> l = r"
  by (auto simp: dfnt_entry_eq_def)

lemma dfnt_remove_loop_eq:
  "dfnt_remove_loop P seen xs t =
     (if \<exists>x\<in>set xs. P x
      then (True, t\<lparr> dfnt_table := rev seen @ erase_first P xs, dfnt_nItens := dfnt_nItens t - 1 \<rparr>)
      else (False, t))"
  by (induction P seen xs t rule: dfnt_remove_loop.induct) auto

lemma dfnt_removeEntry_table [table_simps]:
  "dfnt_table (snd (dfnt_removeEntry e t)) = erase_first (\<lambda>x. x = e) (dfnt_table t)"
  by (auto simp: dfnt_removeEntry_def dfnt_remove_loop_eq intro!: erase_first_none [symmetric])

lemma dfnt_removeBySig_table [table_simps]:
  "dfnt_table (snd (dfnt_removeEntryBySignature s t)) = erase_first (\<lambda>x. df_sig x = s) (dfnt_table t)"
  by (auto simp: dfnt_removeEntryBySignature_def dfnt_remove_loop_eq intro!: erase_first_none [symmetric])

lemma dfnt_remove_loop_counts:
  "\<exists>m. length (dfnt_table (snd (dfnt_remove_loop P [] (dfnt_table t) t))) + m = length (dfnt_table t) \<and>
     dfnt_nItens (snd (dfnt_remove_loop P [] (dfnt_table t) t)) = dfnt_nItens t - of_nat m"
proof (cases "\<exists>x\<in>set (dfnt_table t). P x")
  case True
  then show ?thesis
    by (intro exI [of _ 1]) (auto simp: dfnt_remove_loop_eq Suc_length_erase_first)
next
  case False
  then show ?thesis by (intro exI [of _ 0]) (simp add: dfnt_remove_loop_eq)
qed

interpretation dfnt_by_sig: lookup_table dfnt_table dfnt_nItens "\<lambda>_. True" mkDfnt
  dfnt_addEntry "\<lambda>s t. Def (snd (dfnt_removeEntryBySignature s t))"
  "\<lambda>e. e" "\<lambda>s e. df_sig e = s" dfnt_findMatch
proof unfold_locales
  fix a t
  show "\<exists>n. length (dfnt_table (dfnt_addEntry a t)) = length (dfnt_table t) + n \<and>
    dfnt_nItens (dfnt_addEntry a t) = dfnt_nItens t + of_nat n"
    by (intro exI [of _ 1]) (simp add: dfnt_addEntry_def)
next
  fix k t t'
  assume "Def (snd (dfnt_removeEntryBySignature k t)) = Def t'"
  then show "\<exists>n. length (dfnt_table t') + n = length (dfnt_table t) \<and> dfnt_nItens t' = dfnt_nItens t - of_nat n"
    using dfnt_remove_loop_counts by (auto simp: dfnt_removeEntryBySignature_def)
qed (auto simp: mkDfnt_def dfnt_addEntry_def dfnt_findMatch_def table_simps dest: subsetD [OF set_erase_first])

section \<open>Properties\<close>

lemma dfnt_find_newest: "dfnt_findMatch (df_sig e) (dfnt_addEntry e t) = Some e"
  by (simp add: dfnt_findMatch_def dfnt_addEntry_def)

text \<open>a Data packet received \<open>n\<close> times needs \<open>n\<close> removals: adding an entry and removing by its
  signature gives back exactly the table before, so an older entry with the same signature is found
  again.\<close>

theorem dfnt_add_remove_stack:
  "snd (dfnt_removeEntryBySignature (df_sig e) (dfnt_addEntry e t)) = t \<and>
   fst (dfnt_removeEntryBySignature (df_sig e) (dfnt_addEntry e t)) \<and>
   dfnt_findMatch (df_sig e) (dfnt_addEntry e t) = Some e"
  by (simp add: dfnt_findMatch_def dfnt_removeEntryBySignature_def dfnt_addEntry_def)

end
