(* ===== verification/Val_Packet.thy ===== *)
theory Val_Packet
  imports Val_Header Ndn_Types
begin

text \<open>
  \<open>ValPacket\<close> (\<open>src/model/val/val-packet.hpp\<close>, \<open>.cpp\<close>): a VAL header with at most one NDN packet.
  A shared pointer that may be null is an option; the getters dereference it without a check.
\<close>

section \<open>Model\<close>

definition NOT_SET :: u8 where "NOT_SET = 0"
definition DATA_SET :: u8 where "DATA_SET = 1"
definition INTEREST_SET :: u8 where "INTEREST_SET = 2"

record val_packet =
  vp_isSet :: u8
  vp_valH :: val_header
  vp_interest :: "interest option"
  vp_data :: "data option"

definition mkValPacket :: "val_header \<Rightarrow> val_packet" where
  "mkValPacket h = \<lparr> vp_isSet = NOT_SET, vp_valH = h, vp_interest = None, vp_data = None \<rparr>"

definition setInterest :: "interest option \<Rightarrow> val_packet \<Rightarrow> val_packet" where
  "setInterest i p =
     (if vp_isSet p = NOT_SET \<and> i \<noteq> None then p\<lparr> vp_interest := i, vp_isSet := INTEREST_SET \<rparr> else p)"

definition setData :: "data option \<Rightarrow> val_packet \<Rightarrow> val_packet" where
  "setData d p =
     (if vp_isSet p = NOT_SET \<and> d \<noteq> None then p\<lparr> vp_data := d, vp_isSet := DATA_SET \<rparr> else p)"

definition getInterest :: "val_packet \<Rightarrow> interest outcome" where
  "getInterest p = (case vp_interest p of None \<Rightarrow> Undef NullDereference | Some i \<Rightarrow> Def i)"

definition getData :: "val_packet \<Rightarrow> data outcome" where
  "getData p = (case vp_data p of None \<Rightarrow> Undef NullDereference | Some d \<Rightarrow> Def d)"

definition packet_eq :: "val_packet \<Rightarrow> val_packet \<Rightarrow> bool outcome" where
  "packet_eq l r =
     (if vp_isSet l \<noteq> vp_isSet r then Def False
      else if vp_isSet l = INTEREST_SET then
        (if \<not> header_eq (vp_valH l) (vp_valH r) then Def False
         else bindU (getInterest l) (\<lambda>i. bindU (getInterest r) (\<lambda>j. Def (in_nonce i = in_nonce j))))
      else if vp_isSet l = DATA_SET then
        (if \<not> header_eq (vp_valH l) (vp_valH r) then Def False
         else bindU (getData l) (\<lambda>i. bindU (getData r) (\<lambda>j. Def (signature_eq (d_signature i) (d_signature j)))))
      else Def True)"

section \<open>Invariant\<close>

text \<open>The state flag says which of the two pointers is set.\<close>

definition packet_inv :: "val_packet \<Rightarrow> bool" where
  "packet_inv p \<longleftrightarrow>
     (vp_isSet p = NOT_SET \<and> vp_interest p = None \<and> vp_data p = None) \<or>
     (vp_isSet p = INTEREST_SET \<and> vp_interest p \<noteq> None \<and> vp_data p = None) \<or>
     (vp_isSet p = DATA_SET \<and> vp_interest p = None \<and> vp_data p \<noteq> None)"

lemmas packet_states = NOT_SET_def DATA_SET_def INTEREST_SET_def

lemma packet_inv_mk [intro, simp]: "packet_inv (mkValPacket h)"
  by (simp add: packet_inv_def mkValPacket_def)

lemma packet_inv_setInterest [intro, simp]: "packet_inv p \<Longrightarrow> packet_inv (setInterest i p)"
  by (auto simp: packet_inv_def setInterest_def packet_states)

lemma packet_inv_setData [intro, simp]: "packet_inv p \<Longrightarrow> packet_inv (setData d p)"
  by (auto simp: packet_inv_def setData_def packet_states)

lemma packet_getInterest: "packet_inv p \<Longrightarrow> vp_isSet p = INTEREST_SET \<Longrightarrow> \<exists>i. getInterest p = Def i"
  by (auto simp: packet_inv_def getInterest_def packet_states)

lemma packet_getData: "packet_inv p \<Longrightarrow> vp_isSet p = DATA_SET \<Longrightarrow> \<exists>d. getData p = Def d"
  by (auto simp: packet_inv_def getData_def packet_states)

text \<open>The calls that fill a packet, in any order.\<close>

datatype packet_op = SetInterest "interest option" | SetData "data option"

primrec packet_step :: "packet_op \<Rightarrow> val_packet \<Rightarrow> val_packet" where
  "packet_step (SetInterest i) = setInterest i"
| "packet_step (SetData d) = setData d"

lemma packet_step_set: "vp_isSet p \<noteq> NOT_SET \<Longrightarrow> packet_step c p = p"
  by (cases c) (auto simp: setInterest_def setData_def)

lemma packet_steps_set: "vp_isSet p \<noteq> NOT_SET \<Longrightarrow> fold packet_step cs p = p"
  by (induction cs) (auto simp: packet_step_set)

lemma packet_steps_inv: "packet_inv p \<Longrightarrow> packet_inv (fold packet_step cs p)"
proof (induction cs arbitrary: p)
  case (Cons c cs)
  then show ?case by (cases c) auto
qed simp

section \<open>Properties\<close>

text \<open>C33: a packet is set at most once. After any sequence of \<open>setInterest\<close> and \<open>setData\<close> calls the
  state flag names the only pointer that is set, so the getter for that state never dereferences null;
  and once the flag is not NOT_SET further calls change nothing.\<close>

theorem packet_set_once:
  "(let p = fold packet_step cs (mkValPacket h) in
     packet_inv p \<and>
     (if vp_isSet p = INTEREST_SET then (\<exists>i. getInterest p = Def i)
      else if vp_isSet p = DATA_SET then (\<exists>d. getData p = Def d) else True) \<and>
     (if vp_isSet p = NOT_SET then True else fold packet_step cs' p = p))"
  using packet_steps_inv [of "mkValPacket h" cs] packet_getInterest packet_getData packet_steps_set
  by (simp add: Let_def)

section \<open>Example packets\<close>

definition example_header :: "u8 \<Rightarrow> val_header" where
  "example_header hopC = mkValHeader ''A1'' ''0'' ''10:20:0'' ''RN'' hopC"

definition example_interest_packet :: "nonce \<Rightarrow> val_packet" where
  "example_interest_packet n = setInterest (Some (example_interest n)) (mkValPacket (example_header 9))"

definition example_data_packet :: "byte \<Rightarrow> val_packet" where
  "example_data_packet b = setData (Some (example_data b)) (mkValPacket (example_header 9))"

lemmas example_packet_defs = example_header_def example_interest_packet_def example_data_packet_def
  example_interest_def example_data_def setInterest_def setData_def mkValPacket_def mkValHeader_def packet_states

end
