(* ===== verification/Val_Strategy.thy ===== *)
theory Val_Strategy
  imports Doubles Ndn_Uri Val_F2a Val_Ifnt Val_Dfnt Val_Packet
begin

text \<open>
  \<open>ValStrategy\<close> and \<open>ValDistancesStrategy\<close> (\<open>src/model/val/fw/val-strategy.hpp\<close>,
  \<open>val-distances-strategy.cpp\<close>): whether a packet that reaches VAL is sent to the radio, with which
  header, and after which delay. A handler returns the arguments of its \<open>sendValPacket\<close> call, or \<open>None\<close>
  when it drops the packet. Durations are nanoseconds.

  The simulator is a parameter: the position of the vehicle, the text form of positions, the distance
  of two points, and the number the random variable draws. Random numbers are only assumed to lie in
  the interval the call asks for.
\<close>

section \<open>Constants and the environment\<close>

definition MIN_INTEREST_WAIT :: int where [simp]: "MIN_INTEREST_WAIT = 32"
definition MAX_INTEREST_WAIT :: int where [simp]: "MAX_INTEREST_WAIT = 62"
definition MIN_DATA_WAIT :: int where [simp]: "MIN_DATA_WAIT = 0"
definition MAX_DATA_WAIT :: int where [simp]: "MAX_DATA_WAIT = 30"
definition ZERO_WAIT :: int where [simp]: "ZERO_WAIT = 0"
definition DELAY_IN_NANOS :: int where [simp]: "DELAY_IN_NANOS = 40000"
definition SIGNAL_RANGE :: int where [simp]: "SIGNAL_RANGE = 110"
definition AREA_SIZE :: int where [simp]: "AREA_SIZE = 200"

type_synonym vec3 = "double \<times> double \<times> double"

record ns3_env =
  env_position :: vec3
  env_show :: "vec3 \<Rightarrow> string"
  env_read :: "string \<Rightarrow> vec3"
  env_distance :: "vec3 \<Rightarrow> vec3 \<Rightarrow> double"
  env_random :: double

text \<open>The interval asked from \<open>UniformRandomVariable::GetValue\<close>.\<close>

definition random_in_range :: "ns3_env \<Rightarrow> bool" where
  "random_in_range env \<longleftrightarrow> 10000 \<le> env_random env \<and> env_random env < 40000"

section \<open>Access to the forwarder\<close>

definition getGeoArea :: "f2a \<Rightarrow> face_id \<Rightarrow> string" where
  "getGeoArea t fid = (case f2a_findByFaceId fid t of Some e \<Rightarrow> f2a_geoArea e | None \<Rightarrow> ''0'')"

definition getValNetFaceId :: "face_id list \<Rightarrow> face_id outcome" where
  "getValNetFaceId faces = (case faces of [] \<Rightarrow> Undef EndDereference | f # _ \<Rightarrow> Def f)"

section \<open>Positions and areas\<close>

definition d_to_u32 :: "double \<Rightarrow> u32 outcome" where
  "d_to_u32 x = (if 0 \<le> d_trunc x \<and> d_trunc x < 2 ^ 32 then Def (of_int (d_trunc x)) else Undef FloatConversion)"

definition d_to_int :: "double \<Rightarrow> int outcome" where
  "d_to_int x = (if - (2 ^ 31) \<le> d_trunc x \<and> d_trunc x < 2 ^ 31 then Def (d_trunc x) else Undef FloatConversion)"

definition getAreaFromPosition :: "double \<Rightarrow> double \<Rightarrow> string outcome" where
  "getAreaFromPosition x y =
     bindU (d_to_int (d_div x (of_int AREA_SIZE))) (\<lambda>area_x_step.
     bindU (d_to_int (d_div y (of_int AREA_SIZE))) (\<lambda>area_y_step.
       Def [if area_x_step > 25 then CHR ''Z'' else char_of_byte (65 + of_int area_x_step),
            if area_y_step > 5 then CHR ''5'' else char_of_byte (49 + of_int area_y_step)]))"

definition getPositionFromArea :: "string \<Rightarrow> vec3 outcome" where
  "getPositionFromArea area =
     (case area of
        first # second # _ \<Rightarrow>
          (let step_x = sint (byte_of_char first) - 65;
               step_y = sint (byte_of_char second) - 49;
               dist_x = (if step_x \<ge> 0 then AREA_SIZE * (step_x + 1) - AREA_SIZE div 2 else 100);
               dist_y = (if step_y \<ge> 0 then AREA_SIZE * (step_y + 1) - AREA_SIZE div 2 else 100)
           in Def (of_int dist_x, of_int dist_y, 0))
      | _ \<Rightarrow> Undef EndDereference)"

definition getMyPos :: "ns3_env \<Rightarrow> string" where
  "getMyPos env = env_show env (env_position env)"

definition getMyArea :: "ns3_env \<Rightarrow> string outcome" where
  "getMyArea env = getAreaFromPosition (fst (env_position env)) (fst (snd (env_position env)))"

definition getDistanceToArea :: "ns3_env \<Rightarrow> string \<Rightarrow> string \<Rightarrow> double outcome" where
  "getDistanceToArea env pointA area =
     bindU (getPositionFromArea area) (\<lambda>p. Def (env_distance env (env_read env pointA) p))"

definition getDistanceToPoint :: "ns3_env \<Rightarrow> string \<Rightarrow> string \<Rightarrow> double" where
  "getDistanceToPoint env pointA pointB = env_distance env (env_read env pointA) (env_read env pointB)"

definition getPositions :: "ifnt_entry list \<Rightarrow> string list" where
  "getPositions es = map if_phPos es"

text \<open>The mean of no distances is a NaN, which the callers convert to \<open>uint32_t\<close>.\<close>

definition getMultiPointDist :: "ns3_env \<Rightarrow> string \<Rightarrow> string list \<Rightarrow> double outcome" where
  "getMultiPointDist env pointA points =
     (if points = [] then Undef FloatConversion
      else
        let vectorA = env_read env pointA;
            total = foldl (\<lambda>d p. d_add d (env_distance env vectorA (env_read env p))) 0 points
        in Def (d_div total (of_nat (length points))))"

section \<open>Timers\<close>

definition generateMicroSecondDelay :: "ns3_env \<Rightarrow> int" where
  "generateMicroSecondDelay env = d_trunc (env_random env)"

definition timer_gap :: "bool \<Rightarrow> double" where
  "timer_gap isData = of_int (if isData then MAX_DATA_WAIT - MIN_DATA_WAIT else MAX_INTEREST_WAIT - MIN_INTEREST_WAIT)"

definition timer_min :: "bool \<Rightarrow> int" where
  "timer_min isData = (if isData then MIN_DATA_WAIT else MIN_INTEREST_WAIT) * 1000000"

definition calcFwdTimer :: "ns3_env \<Rightarrow> double \<Rightarrow> u8 \<Rightarrow> bool \<Rightarrow> bool \<Rightarrow> int outcome" where
  "calcFwdTimer env dst hopC toArea isData =
     (let time_gap = timer_gap isData; min_time = timer_min isData;
          max_dist = of_int (if toArea then uint hopC * SIGNAL_RANGE else SIGNAL_RANGE) in
      if toArea \<and> hopC = 0 then Undef AssertionFailed
      else if toArea \<and> dst > max_dist then
        Def (min_time + d_trunc time_gap + generateMicroSecondDelay env)
      else
        let time = d_mul (d_div dst (d_div max_dist time_gap)) 1000000 in
        Def (min_time + d_trunc time + generateMicroSecondDelay env))"

definition calcInvertedFwdTimer :: "ns3_env \<Rightarrow> double \<Rightarrow> u8 \<Rightarrow> bool \<Rightarrow> bool \<Rightarrow> int outcome" where
  "calcInvertedFwdTimer env dst hopC toArea isData =
     (let time_gap = timer_gap isData; min_time = timer_min isData;
          max_dist = of_int (if toArea then uint hopC * SIGNAL_RANGE else SIGNAL_RANGE) in
      if toArea \<and> hopC = 0 then Undef AssertionFailed
      else if toArea \<and> dst > max_dist then
        Def (min_time + min_time + generateMicroSecondDelay env)
      else
        let time = (if dst \<le> max_dist then d_sub time_gap (d_mul (d_div time_gap max_dist) dst)
                    else of_int min_time);
            time_ns = d_mul time 1000000 in
        Def (min_time + d_trunc time_ns + generateMicroSecondDelay env))"

section \<open>The handlers\<close>

type_synonym send_request = "face_id \<times> val_packet \<times> int"

text \<open>The loop of \<open>getLongestJorney\<close> over the entries after the first.\<close>

fun longest_loop :: "u8 \<times> string \<Rightarrow> ifnt_entry list \<Rightarrow> u8 \<times> string" where
  "longest_loop (m, sa) [] = (m, sa)"
| "longest_loop (m, sa) (e # es) = longest_loop (if m > if_hopC e then (if_hopC e, if_sa e) else (m, sa)) es"

definition getLongestJorney :: "ifnt_entry list \<Rightarrow> (u8 \<times> string) outcome" where
  "getLongestJorney es =
     (case es of [] \<Rightarrow> Undef EndDereference | e # es' \<Rightarrow> Def (longest_loop (if_hopC e, if_sa e) es'))"

definition doAfterIfntHit ::
  "ns3_env \<Rightarrow> f2a \<Rightarrow> face_id \<Rightarrow> ifnt_entry \<Rightarrow> interest \<Rightarrow> send_request option outcome" where
  "doAfterIfntHit env t faceId e i =
     (if if_hopC e = 0 then Def None
      else bindU (if if_da e \<noteq> ''0'' then bindU (getMyArea env) (\<lambda>myArea. Def (if_da e \<noteq> myArea)) else Def False) (\<lambda>known.
        if known then
          bindU (bindU (getDistanceToArea env (if_phPos e) (if_da e)) d_to_u32) (\<lambda>preHopDist.
          bindU (bindU (getDistanceToArea env (getMyPos env) (if_da e)) d_to_u32) (\<lambda>myDist.
            if myDist < preHopDist then
              bindU (calcFwdTimer env (of_nat (unat myDist)) (if_hopC e) True False) (\<lambda>time.
                Def (Some (if_faceId e,
                  setInterest (Some i) (mkValPacket
                    (mkValHeader (if_sa e) (if_da e) (getMyPos env) (if_rn e) (if_hopC e))), time)))
            else Def None))
        else
          bindU (d_to_u32 (getDistanceToPoint env (if_phPos e) (getMyPos env))) (\<lambda>hopDist.
          bindU (calcInvertedFwdTimer env (of_nat (unat hopDist)) 0 False False) (\<lambda>time.
            Def (Some (if_faceId e,
              setInterest (Some i) (mkValPacket
                (mkValHeader (if_sa e) (getGeoArea t faceId) (getMyPos env) (if_rn e) (if_hopC e))), time))))))"

definition doAfterIfntMiss ::
  "ns3_env \<Rightarrow> f2a \<Rightarrow> face_id list \<Rightarrow> face_id \<Rightarrow> interest \<Rightarrow> send_request option outcome" where
  "doAfterIfntMiss env t faces faceId i =
     bindU (getMyArea env) (\<lambda>myArea.
     bindU (getValNetFaceId faces) (\<lambda>out.
       Def (Some (out,
         setInterest (Some i) (mkValPacket
           (mkValHeader myArea (getGeoArea t faceId) (getMyPos env) (name_toUri (getPrefix (-1) (in_name i))) MAXHOPS)),
         ZERO_WAIT * 1000000))))"

definition doAfterDfntHit ::
  "ns3_env \<Rightarrow> face_id \<Rightarrow> dfnt_entry \<Rightarrow> ifnt_entry list \<Rightarrow> data \<Rightarrow> send_request option outcome" where
  "doAfterDfntHit env faceId e ifntEntries d =
     (if df_hopC e = 0 then Def None
      else
        let nextHopsPosList = getPositions ifntEntries in
        bindU (bindU (getMultiPointDist env (df_phPos e) nextHopsPosList) d_to_u32) (\<lambda>prevHopDist.
        bindU (bindU (getMultiPointDist env (getMyPos env) nextHopsPosList) d_to_u32) (\<lambda>myDist.
          if int (unat prevHopDist) > SIGNAL_RANGE \<and> myDist < prevHopDist then
            bindU (calcFwdTimer env (of_nat (unat myDist)) 0 False True) (\<lambda>time.
              Def (Some (df_faceId e,
                setData (Some d) (mkValPacket
                  (mkValHeader (df_sa e) (df_da e) (getMyPos env) (df_rn e) (df_hopC e))), time)))
          else Def None)))"

definition doAfterDfntMiss ::
  "ns3_env \<Rightarrow> f2a \<Rightarrow> face_id list \<Rightarrow> face_id \<Rightarrow> data \<Rightarrow> ifnt_entry list \<Rightarrow> bool \<Rightarrow> send_request option outcome" where
  "doAfterDfntMiss env t faces faceId d ifntEntries isProducer =
     bindU (getLongestJorney ifntEntries) (\<lambda>(hops, area).
     bindU (if isProducer then getMyArea env else Def (getGeoArea t faceId)) (\<lambda>srcArea.
     bindU (getValNetFaceId faces) (\<lambda>out.
       Def (Some (out,
         setData (Some d) (mkValPacket
           (mkValHeader srcArea area (getMyPos env) (name_toUri (getPrefix (-1) (d_name d))) (MAXHOPS - hops + 1))),
         ZERO_WAIT * 1000000)))))"

section \<open>Example environment\<close>

text \<open>
  A vehicle at (300, 500) that draws a given random number; it is 50 metres from every other position,
  and any other position is 200 metres from every position.
\<close>

definition example_env :: "double \<Rightarrow> ns3_env" where
  "example_env r = \<lparr> env_position = (300, 500, 0), env_show = (\<lambda>_. ''300:500:0''),
     env_read = (\<lambda>s. if s = ''300:500:0'' then (300, 500, 0) else (1, 0, 0)),
     env_distance = (\<lambda>a _. if a = (300, 500, 0) then 50 else 200), env_random = r \<rparr>"

lemma example_env_random: "10000 \<le> r \<Longrightarrow> r < 40000 \<Longrightarrow> random_in_range (example_env r)"
  by (simp add: random_in_range_def example_env_def)

end
