(* ===== verification/Val_Timers.thy ===== *)
theory Val_Timers
  imports Val_Strategy
begin

text \<open>
  The forwarding timers of the distance strategy, proved down to the rounding of the floating point
  operations: which range a timer lies in, and that the vehicle the strategy prefers always fires
  before the others although every timer contains a random part. Two units that the code mixes up are
  shown at the end.
\<close>

section \<open>Rounding errors\<close>

lemma roundoff_factors:
  "(1 + unit_roundoff) * (1 + unit_roundoff) / (1 - unit_roundoff) \<le> 1 + 4 * unit_roundoff"
  "1 - 4 * unit_roundoff \<le> (1 - unit_roundoff) * (1 - unit_roundoff) / (1 + unit_roundoff)"
  "0 < unit_roundoff" "unit_roundoff < 1"
  by (simp_all add: unit_roundoff_def)

text \<open>The three roundings of \<open>dist / (max_dist / time_gap) * 1000000\<close>.\<close>

lemma fwd_time_error:
  assumes "0 < q" and "0 \<le> d"
  shows "d_mul (d_div d (fl q)) 1000000 \<le> d / q * 1000000 * (1 + 4 * unit_roundoff)"
    and "d / q * 1000000 * (1 - 4 * unit_roundoff) \<le> d_mul (d_div d (fl q)) 1000000"
proof -
  let ?u = unit_roundoff
  note u = roundoff_factors(3,4)
  have x: "q * (1 - ?u) \<le> fl q" "fl q \<le> q * (1 + ?u)" using fl_bounds [of q] assms(1) by simp_all
  have q1: "0 < q * (1 - ?u)" using u assms(1) by simp
  then have x0: "0 < fl q" using x(1) by linarith
  have "d / fl q \<le> d / (q * (1 - ?u))" using x(1) q1 x0 assms(2) by (intro divide_left_mono) auto
  then have y1: "d / fl q \<le> d / q / (1 - ?u)" by simp
  have "d / (q * (1 + ?u)) \<le> d / fl q" using x(2) x0 assms u by (intro divide_left_mono) auto
  then have y2: "d / q / (1 + ?u) \<le> d / fl q" by simp
  have y0: "0 \<le> d / fl q" using assms(2) x0 by simp
  note z = fl_bounds [OF y0]
  have z0: "0 \<le> fl (d / fl q) * 1000000" using z(1) mult_nonneg_nonneg [OF y0, of "1 - ?u"] u by linarith
  note w = fl_bounds [OF z0]
  have T0: "0 \<le> d / q * 1000000" using assms by simp
  have "d_mul (d_div d (fl q)) 1000000 \<le> fl (d / fl q) * 1000000 * (1 + ?u)" using w(2) by (simp add: d_mul_def d_div_def)
  also have "\<dots> \<le> d / fl q * (1 + ?u) * 1000000 * (1 + ?u)" using z(2) u by (intro mult_right_mono) auto
  also have "\<dots> \<le> d / q / (1 - ?u) * (1 + ?u) * 1000000 * (1 + ?u)" using y1 u by (intro mult_right_mono) auto
  also have "\<dots> = d / q * 1000000 * ((1 + ?u) * (1 + ?u) / (1 - ?u))" by simp
  also have "\<dots> \<le> d / q * 1000000 * (1 + 4 * ?u)" by (intro mult_left_mono roundoff_factors T0)
  finally show "d_mul (d_div d (fl q)) 1000000 \<le> d / q * 1000000 * (1 + 4 * ?u)" .
  have "d / q * 1000000 * (1 - 4 * ?u) \<le> d / q * 1000000 * ((1 - ?u) * (1 - ?u) / (1 + ?u))"
    by (intro mult_left_mono roundoff_factors T0)
  also have "\<dots> = d / q / (1 + ?u) * (1 - ?u) * 1000000 * (1 - ?u)" by simp
  also have "\<dots> \<le> d / fl q * (1 - ?u) * 1000000 * (1 - ?u)" using y2 u by (intro mult_right_mono) auto
  also have "\<dots> \<le> fl (d / fl q) * 1000000 * (1 - ?u)" using z(1) u by (intro mult_right_mono) auto
  also have "\<dots> \<le> d_mul (d_div d (fl q)) 1000000" using w(1) by (simp add: d_mul_def d_div_def)
  finally show "d / q * 1000000 * (1 - 4 * ?u) \<le> d_mul (d_div d (fl q)) 1000000" .
qed

text \<open>
  For every distance that fits in \<open>uint32_t\<close> the rounded time is within one nanosecond of the exact
  \<open>dist * time_gap / max_dist\<close>, so the truncated one is within two.
\<close>

definition exact_time :: "int \<Rightarrow> int \<Rightarrow> rat" where
  "exact_time m d = of_int d * 30000000 / of_int m"

definition rounded_time :: "int \<Rightarrow> int \<Rightarrow> int" where
  "rounded_time m d = d_trunc (d_mul (d_div (of_int d) (d_div (of_int m) 30)) 1000000)"

lemma rounded_time_error:
  assumes "110 \<le> m" and "0 \<le> d" and "d < 2 ^ 32"
  shows "of_int (rounded_time m d) < exact_time m d + 1"
    and "exact_time m d - 2 < of_int (rounded_time m d)"
proof -
  let ?z = "d_mul (d_div (of_int d) (d_div (of_int m) 30)) 1000000"
  let ?T = "exact_time m d"
  have T: "of_int d / (of_int m / 30) * 1000000 = ?T" by (simp add: exact_time_def)
  have T0: "0 \<le> ?T" using assms by (simp add: exact_time_def)
  have "?T \<le> of_int (2 ^ 32) * 30000000 / 110"
    unfolding exact_time_def using assms by (intro frac_le mult_right_mono) auto
  then have small: "?T * (4 * unit_roundoff) < 1" by (simp add: unit_roundoff_def)
  have z: "?z \<le> ?T * (1 + 4 * unit_roundoff)" "?T * (1 - 4 * unit_roundoff) \<le> ?z"
    using fwd_time_error [of "of_int m / 30" "of_int d", unfolded T] assms
    by (simp_all add: d_div_def)
  have "0 \<le> ?T * (1 - 4 * unit_roundoff)" using T0 by (intro mult_nonneg_nonneg) (simp_all add: unit_roundoff_def)
  with z(2) have z0: "0 \<le> ?z" by linarith
  have fl: "of_int (rounded_time m d) \<le> ?z" "?z < of_int (rounded_time m d) + 1"
    by (simp_all add: rounded_time_def d_trunc_nonneg z0) linarith+
  show "of_int (rounded_time m d) < ?T + 1" using fl(1) z(1) small by (simp add: algebra_simps)
  show "?T - 2 < of_int (rounded_time m d)" using fl(2) z(2) small by (simp add: algebra_simps)
qed

lemma delay_range:
  "random_in_range env \<Longrightarrow> 10000 \<le> generateMicroSecondDelay env \<and> generateMicroSecondDelay env < 40000"
  by (auto simp: random_in_range_def generateMicroSecondDelay_def d_trunc_def le_floor_iff floor_less_iff)

lemma calcFwdTimer_near:
  assumes "hopC \<noteq> 0" and "d \<le> uint hopC * 110"
  shows "calcFwdTimer env (of_int d) hopC True isData =
    Def (timer_min isData + rounded_time (uint hopC * 110) d + generateMicroSecondDelay env)"
  using assms by (simp add: calcFwdTimer_def Let_def timer_gap_def rounded_time_def flip: of_int_mult)

lemma calcFwdTimer_point:
  "calcFwdTimer env (of_int d) hopC False isData =
    Def (timer_min isData + rounded_time 110 d + generateMicroSecondDelay env)"
  by (simp add: calcFwdTimer_def Let_def timer_gap_def rounded_time_def)

section \<open>Timers towards an area\<close>

lemma uint_hops:
  assumes "hopC \<noteq> 0" and "hopC \<le> (9 :: u8)"
  shows "1 \<le> uint hopC" and "uint hopC \<le> 9"
proof -
  show "uint hopC \<le> 9" using assms(2) by (simp add: word_le_def)
  have "uint hopC \<noteq> 0" using assms(1) by (simp add: unsigned_eq_0_iff)
  then show "1 \<le> uint hopC" using uint_nonnegative [of hopC] by linarith
qed

lemma exact_time_step:
  assumes "0 < m" and "m \<le> 990" and "d < d'"
  shows "exact_time m d + 30303 \<le> exact_time m d'"
proof -
  have "exact_time m d + 30303 \<le> exact_time m d + 30000000 / of_int m"
    using assms(1,2) by (simp add: field_simps)
  also have "\<dots> = exact_time m (d + 1)" using assms(1) by (simp add: exact_time_def field_simps)
  also have "\<dots> \<le> exact_time m d'" using assms by (simp add: exact_time_def divide_right_mono)
  finally show ?thesis .
qed

lemma rounded_time_step:
  assumes "110 \<le> m" and "m \<le> 990" and "0 \<le> d" and "d < d'" and "d' < 2 ^ 32"
  shows "rounded_time m d + 30300 < rounded_time m d'"
proof -
  have "of_int (rounded_time m d) < exact_time m d + 1"
    using rounded_time_error(1) [of m d] assms by simp
  moreover have "exact_time m d' - 2 < of_int (rounded_time m d')"
    using rounded_time_error(2) [of m d'] assms by simp
  moreover have "exact_time m d + 30303 \<le> exact_time m d'" using exact_time_step assms by simp
  ultimately have "of_int (rounded_time m d) + (30300 :: rat) < of_int (rounded_time m d')" by linarith
  then have "of_int (rounded_time m d + 30300) < (of_int (rounded_time m d') :: rat)" by simp
  then show ?thesis by (simp only: of_int_less_iff)
qed

lemma rounded_time_range:
  assumes "110 \<le> m" and "m \<le> 990" and "0 \<le> d" and "d \<le> m"
  shows "0 \<le> rounded_time m d" and "rounded_time m d \<le> 30000000"
proof -
  have T: "exact_time m d \<le> 30000000" using assms by (simp add: exact_time_def divide_le_eq)
  have "of_int (rounded_time m d) < exact_time m d + 1"
    using rounded_time_error(1) [of m d] assms by simp
  with T have "of_int (rounded_time m d) < (of_int 30000001 :: rat)" by simp
  then show "rounded_time m d \<le> 30000000" by (simp only: of_int_less_iff)
  have "0 \<le> exact_time m d" using assms by (simp add: exact_time_def)
  show "0 \<le> rounded_time m d"
  proof (cases "d = 0")
    case True
    then show ?thesis by (simp add: rounded_time_def d_mul_def d_div_def d_trunc_def)
  next
    case False
    then have "exact_time m 0 + 30303 \<le> exact_time m d" using exact_time_step [of m 0 d] assms by simp
    moreover have "exact_time m d - 2 < of_int (rounded_time m d)"
      using rounded_time_error(2) [of m d] assms by simp
    ultimately have "(of_int 0 :: rat) \<le> of_int (rounded_time m d)" by (simp add: exact_time_def)
    then show ?thesis by (simp only: of_int_le_iff)
  qed
qed

text \<open>C35: the vehicle closer to the destination area forwards first. For every hop counter a relayed
  header can carry, two vehicles within reach of the area at different distances (in metres) get
  timers in the order of their distances, whatever random delays are drawn: the random part is too
  small to reorder them.\<close>

theorem calcFwdTimer_priority:
  assumes "hopC \<noteq> 0" and "hopC \<le> MAXHOPS" and "0 \<le> d" and "d < d'" and "d' \<le> uint hopC * SIGNAL_RANGE"
    and "random_in_range env" and "random_in_range env'"
    and "calcFwdTimer env (of_int d) hopC True isData = Def t"
    and "calcFwdTimer env' (of_int d') hopC True isData = Def t'"
  shows "t < t'"
proof -
  note h = uint_hops [OF assms(1) assms(2) [unfolded MAXHOPS_def]]
  have "rounded_time (uint hopC * 110) d + 30300 < rounded_time (uint hopC * 110) d'"
    using assms(3-5) h by (intro rounded_time_step) auto
  then show ?thesis
    using assms(5,8,9) delay_range [OF assms(6)] delay_range [OF assms(7)] assms(4)
      calcFwdTimer_near [OF assms(1), of d env isData] calcFwdTimer_near [OF assms(1), of d' env' isData]
    by simp
qed

theorem calcFwdTimer_priority_witness:
  "\<exists>t t'. calcFwdTimer (example_env 39999) (of_int 700) 9 True False = Def t \<and>
     calcFwdTimer (example_env 10000) (of_int 701) 9 True False = Def t' \<and> t < t'"
proof -
  obtain t where t: "calcFwdTimer (example_env 39999) (of_int 700) 9 True False = Def t"
    using calcFwdTimer_near [of 9 700 "example_env 39999" False] by simp
  obtain t' where t': "calcFwdTimer (example_env 10000) (of_int 701) 9 True False = Def t'"
    using calcFwdTimer_near [of 9 701 "example_env 10000" False] by simp
  have "t < t'"
    by (rule calcFwdTimer_priority [OF _ _ _ _ _ _ _ t t'])
       (simp_all add: MAXHOPS_def example_env_random)
  with t t' show ?thesis by blast
qed

text \<open>C36: an Interest that is relayed towards a known area from within reach waits between
  \<open>MIN_INTEREST_WAIT\<close> and \<open>MAX_INTEREST_WAIT\<close> milliseconds plus the random delay.\<close>

theorem calcFwdTimer_interest_range:
  assumes "hopC \<noteq> 0" and "hopC \<le> MAXHOPS" and "0 \<le> d" and "d \<le> uint hopC * SIGNAL_RANGE" and "random_in_range env"
  shows "\<exists>t. calcFwdTimer env (of_int d) hopC True False = Def t \<and>
    MIN_INTEREST_WAIT * 1000000 + 10000 \<le> t \<and> t < MAX_INTEREST_WAIT * 1000000 + DELAY_IN_NANOS"
proof -
  note h = uint_hops [OF assms(1) assms(2) [unfolded MAXHOPS_def]]
  have "0 \<le> rounded_time (uint hopC * 110) d" "rounded_time (uint hopC * 110) d \<le> 30000000"
    using assms(3,4) h by (intro rounded_time_range; simp)+
  then show ?thesis
    using assms(4) delay_range [OF assms(5)] calcFwdTimer_near [OF assms(1), of d env False]
    by (simp add: timer_min_def)
qed

theorem calcFwdTimer_interest_range_witness:
  "\<exists>t. calcFwdTimer (example_env 20000) (of_int 110) 1 True False = Def t \<and> 32010000 \<le> t \<and> t < 62040000"
  using calcFwdTimer_interest_range [of 1 110 "example_env 20000"]
  by (simp add: MAXHOPS_def example_env_random)

text \<open>C37: among vehicles that relay a Data packet, the one whose mean distance to the waiting consumers
  is smaller forwards first, for all distances of the \<open>uint32_t\<close> range and all random delays.\<close>

theorem calcFwdTimer_data_priority:
  assumes "0 \<le> d" and "d < d'" and "d' < 2 ^ 32" and "random_in_range env" and "random_in_range env'"
    and "calcFwdTimer env (of_int d) 0 False True = Def t"
    and "calcFwdTimer env' (of_int d') 0 False True = Def t'"
  shows "t < t'"
proof -
  have "rounded_time 110 d + 30300 < rounded_time 110 d'"
    using assms(1-3) by (intro rounded_time_step) auto
  then show ?thesis
    using assms(6,7) delay_range [OF assms(4)] delay_range [OF assms(5)] by (simp add: calcFwdTimer_point)
qed

theorem calcFwdTimer_data_priority_witness:
  "\<exists>t t'. calcFwdTimer (example_env 39999) (of_int 5000) 0 False True = Def t \<and>
     calcFwdTimer (example_env 10000) (of_int 5001) 0 False True = Def t' \<and> t < t'"
proof -
  obtain t where t: "calcFwdTimer (example_env 39999) (of_int 5000) 0 False True = Def t"
    using calcFwdTimer_point by blast
  obtain t' where t': "calcFwdTimer (example_env 10000) (of_int 5001) 0 False True = Def t'"
    using calcFwdTimer_point by blast
  have "t < t'"
    by (rule calcFwdTimer_data_priority [OF _ _ _ _ _ t t']) (simp_all add: example_env_random)
  with t t' show ?thesis by blast
qed

section \<open>Timers of the exploration phase\<close>

definition inverted_time :: "int \<Rightarrow> int" where
  "inverted_time d = d_trunc (d_mul (d_sub 30 (d_mul (d_div 30 110) (of_int d))) 1000000)"

lemma d_trunc_error: "\<bar>of_int (d_trunc x) - x\<bar> < 1"
  by (auto simp: d_trunc_def abs_less_iff) linarith+

lemma inverted_time_error:
  assumes "0 \<le> d" and "d \<le> 110"
  shows "\<bar>of_int (inverted_time d) - (30000000 - of_int d * 3000000 / 11 :: rat)\<bar> < 2"
proof -
  let ?u = unit_roundoff
  let ?a = "fl (30 / 110)"
  let ?b = "fl (?a * of_int d)"
  let ?c = "fl (30 - ?b)"
  let ?z = "fl (?c * 1000000)"
  have u: "?u = 1 / 9007199254740992" by (simp add: unit_roundoff_def)
  have d: "(0 :: rat) \<le> of_int d" "of_int d \<le> (110 :: rat)" using assms by simp_all
  have "\<bar>?a - 30 / 110\<bar> \<le> ?u * (30 / 110)" using fl_error [of "30 / 110"] by simp
  then have a: "\<bar>?a - 3 / 11\<bar> \<le> 1 / 1000000000000000" by (simp add: u)
  have "\<bar>?a * of_int d - 3 / 11 * of_int d\<bar> = \<bar>?a - 3 / 11\<bar> * of_int d"
    unfolding left_diff_distrib [symmetric] abs_mult using d(1) by (simp only: abs_of_nonneg)
  also have "\<dots> \<le> 1 / 1000000000000000 * 110" using a d by (intro mult_mono) auto
  finally have ad: "\<bar>?a * of_int d - 3 / 11 * of_int d\<bar> \<le> 1 / 1000000000000" by simp
  have "\<bar>?a * of_int d\<bar> \<le> 31" using ad d by linarith
  then have "?u * \<bar>?a * of_int d\<bar> \<le> ?u * 31" by (intro mult_left_mono) (auto simp: u)
  then have b: "\<bar>?b - ?a * of_int d\<bar> \<le> 1 / 1000000000000" using fl_error [of "?a * of_int d"] by (simp add: u)
  have "\<bar>30 - ?b\<bar> \<le> 61" using ad b d by linarith
  then have "?u * \<bar>30 - ?b\<bar> \<le> ?u * 61" by (intro mult_left_mono) (auto simp: u)
  then have c: "\<bar>?c - (30 - ?b)\<bar> \<le> 1 / 1000000000000" using fl_error [of "30 - ?b"] by (simp add: u)
  have c30: "\<bar>?c - (30 - 3 / 11 * of_int d)\<bar> \<le> 3 / 1000000000000" using ad b c by linarith
  have "\<bar>?c * 1000000\<bar> \<le> 31000000" using c30 d by linarith
  then have "?u * \<bar>?c * 1000000\<bar> \<le> ?u * 31000000" by (intro mult_left_mono) (auto simp: u)
  then have z: "\<bar>?z - ?c * 1000000\<bar> \<le> 1 / 1000000" using fl_error [of "?c * 1000000"] by (simp add: u)
  have "\<bar>?z - (30000000 - of_int d * 3000000 / 11)\<bar> < 1" using z c30 by linarith
  moreover have "\<bar>of_int (inverted_time d) - ?z\<bar> < 1"
    using d_trunc_error [of ?z] by (simp add: inverted_time_def d_mul_def d_sub_def d_div_def)
  ultimately show ?thesis by linarith
qed

lemma calcInvertedFwdTimer_near:
  assumes "d \<le> 110"
  shows "calcInvertedFwdTimer env (of_int d) 0 False isData =
    Def (timer_min isData + inverted_time d + generateMicroSecondDelay env)"
  using assms by (simp add: calcInvertedFwdTimer_def Let_def timer_gap_def inverted_time_def)

lemma inverted_time_step:
  assumes "0 \<le> d" and "d < d'" and "d' \<le> 110"
  shows "inverted_time d' + 272000 < inverted_time d"
proof -
  have "of_int d + 1 \<le> (of_int d' :: rat)" using assms(2) by (metis add.commute of_int_1 of_int_add of_int_le_iff zless_imp_add1_zle)
  then have "of_int (inverted_time d' + 272000) < (of_int (inverted_time d) :: rat)"
    using inverted_time_error [of d] inverted_time_error [of d'] assms by simp
  then show ?thesis by (simp only: of_int_less_iff)
qed



section \<open>Units\<close>

text \<open>
  Beyond the reach of \<open>hopC\<close> hops the gap of 30 milliseconds is added as 30 nanoseconds, so a vehicle
  out of reach gets an earlier timer than every vehicle within reach that is at least two metres from
  the destination.
\<close>

lemma calcFwdTimer_out_of_reach:
  assumes "hopC \<noteq> 0" and "uint hopC * SIGNAL_RANGE < d"
  shows "calcFwdTimer env (of_int d) hopC True False = Def (32000030 + generateMicroSecondDelay env)"
proof -
  have "(of_int (uint hopC * 110) :: rat) < of_int d" using assms(2) by (simp only: of_int_less_iff) simp
  then show ?thesis using assms(1) by (simp add: calcFwdTimer_def Let_def timer_gap_def timer_min_def d_trunc_def)
qed

lemma out_of_reach_fires_first:
  assumes "hopC \<noteq> 0" and "hopC \<le> MAXHOPS" and "2 \<le> d" and "d \<le> uint hopC * SIGNAL_RANGE" and "uint hopC * SIGNAL_RANGE < far"
    and "random_in_range env" and "random_in_range env'"
    and "calcFwdTimer env (of_int d) hopC True False = Def t"
    and "calcFwdTimer env' (of_int far) hopC True False = Def t'"
  shows "t' < t"
proof -
  note h = uint_hops [OF assms(1) assms(2) [unfolded MAXHOPS_def]]
  have "0 \<le> rounded_time (uint hopC * 110) 0" using h by (intro rounded_time_range) auto
  moreover have "rounded_time (uint hopC * 110) 0 + 30300 < rounded_time (uint hopC * 110) 1"
    "rounded_time (uint hopC * 110) 1 + 30300 < rounded_time (uint hopC * 110) d"
    using assms(3,4) h by (intro rounded_time_step; simp)+
  ultimately show ?thesis
    using assms(4,8,9) delay_range [OF assms(6)] delay_range [OF assms(7)]
      calcFwdTimer_near [OF assms(1), of d env False] calcFwdTimer_out_of_reach [OF assms(1,5), of env']
    by (simp add: timer_min_def)
qed

text \<open>
  An exploration Interest heard from more than 110 metres is given a time that is converted to
  nanoseconds twice: it waits for almost nine hours.
\<close>

lemma calcInvertedFwdTimer_far:
  assumes "SIGNAL_RANGE < d"
  shows "calcInvertedFwdTimer env (of_int d) 0 False False =
    Def (32000000 + 32000000000000 + generateMicroSecondDelay env)"
proof -
  have "fl 32000000000000 = 32000000000000" using fl_of_int [of 32000000000000] by simp
  moreover have "d_trunc 32000000000000 = 32000000000000" by (simp add: d_trunc_def)
  ultimately show ?thesis
    using assms by (simp add: calcInvertedFwdTimer_def Let_def timer_gap_def timer_min_def d_mul_def)
qed

end
