(* ===== verification/Val_Relay.thy ===== *)
theory Val_Relay
  imports Val_Strategy
begin

text \<open>
  What the distance strategy guarantees over several vehicles: the areas it computes, the hop limit
  every chain of relays obeys, and the progress a packet makes towards a known destination area.
\<close>

section \<open>Areas\<close>

definition area_name :: "nat \<Rightarrow> nat \<Rightarrow> string" where
  "area_name i j = [char_of_byte (65 + of_nat i), char_of_byte (49 + of_nat j)]"

lemma d_trunc_fl_half:
  assumes "n < 1000"
  shows "d_trunc (fl (of_nat n + 1 / 2)) = int n"
proof -
  let ?x = "of_nat n + 1 / 2 :: rat"
  have "(of_nat n :: rat) < of_nat 1000" using assms by (simp only: of_nat_less_iff)
  then have "unit_roundoff * \<bar>?x\<bar> \<le> unit_roundoff * 1001" by (intro mult_left_mono) (auto simp: unit_roundoff_def)
  moreover have "unit_roundoff * 1001 \<le> 1 / 4" by (simp add: unit_roundoff_def)
  ultimately have "\<bar>fl ?x - ?x\<bar> \<le> 1 / 4" using fl_error [of ?x] by linarith
  then have "of_nat n \<le> fl ?x" "fl ?x < of_nat n + 1" by linarith+
  then show ?thesis by (simp add: d_trunc_nonneg floor_eq_iff)
qed

lemma area_step: "n < 1000 \<Longrightarrow> d_to_int (d_div (of_int (100 + 200 * int n)) 200) = Def (int n)"
proof -
  assume n: "n < 1000"
  have eq: "of_int (100 + 200 * int n) / 200 = (of_nat n + 1 / 2 :: rat)" by (simp add: field_simps)
  have "d_trunc (fl (of_int (100 + 200 * int n) / 200)) = int n" unfolding eq by (rule d_trunc_fl_half [OF n])
  then show ?thesis
    using n by (simp add: d_div_def d_to_int_def del: of_int_diff of_int_mult of_int_add)
qed

lemma sint_small_byte: "n < 128 \<Longrightarrow> sint (of_nat n :: byte) = int n"
  by (simp add: signed_of_nat signed_take_bit_int_eq_self)

text \<open>C39: the centre of every area of the grid (columns A to Z, rows 1 to 6) lies in that area:
  computing the position of an area name and the area of that position gives the name back.\<close>

theorem area_position_roundtrip:
  assumes "i \<le> 25" and "j \<le> 5"
  shows "bindU (getPositionFromArea (area_name i j)) (\<lambda>(x, y, z). getAreaFromPosition x y) = Def (area_name i j)"
proof -
  have "sint (65 + of_nat i :: byte) = 65 + int i" "sint (49 + of_nat j :: byte) = 49 + int j"
    using assms sint_small_byte [of "65 + i"] sint_small_byte [of "49 + j"] by simp_all
  then have "getPositionFromArea (area_name i j) = Def (of_int (200 * (int i + 1) - 100), of_int (200 * (int j + 1) - 100), 0)"
    by (simp add: getPositionFromArea_def area_name_def Let_def)
  moreover have "getAreaFromPosition (of_int (200 * (int i + 1) - 100)) (of_int (200 * (int j + 1) - 100)) = Def (area_name i j)"
    unfolding getAreaFromPosition_def AREA_SIZE_def of_int_numeral
    using assms by (simp add: area_step area_name_def del: of_int_diff of_int_mult of_int_add)
  ultimately show ?thesis by simp
qed

theorem area_position_roundtrip_witness:
  "bindU (getPositionFromArea ''C4'') (\<lambda>(x, y, z). getAreaFromPosition x y) = Def ''C4''"
proof -
  have "area_name 2 3 = ''C4''" by code_simp
  then show ?thesis using area_position_roundtrip [of 2 3] by simp
qed

text \<open>
  South of the sixth row the area is row 5 again: one more row is reachable than the boundary check
  wants to allow.
\<close>

lemma area_row_boundary: "getAreaFromPosition 100 1100 = Def ''A6''" "getAreaFromPosition 100 1300 = Def ''A5''"
  by code_simp+

section \<open>The hop limit\<close>

text \<open>
  The contract between the forwarder, which records a received packet with its hop counter decreased,
  and a strategy handler, which decides about the recorded packet.
\<close>

inductive relay ::
  "('x \<Rightarrow> val_header \<Rightarrow> 'e) \<Rightarrow> ('x \<Rightarrow> 'e \<Rightarrow> send_request option outcome) \<Rightarrow> val_header \<Rightarrow> val_header \<Rightarrow> bool"
  for record_pkt handle where
  "handle x (record_pkt x h) = Def (Some (out, pkt, t)) \<Longrightarrow> relay record_pkt handle h (vp_valH pkt)"

text \<open>
  One relay: the packet with header \<open>h\<close> is received and recorded, and the handler sends it on with
  another header.
\<close>

locale hop_limited =
  fixes record_pkt :: "'x \<Rightarrow> val_header \<Rightarrow> 'e"
    and hops :: "'e \<Rightarrow> u8"
    and handle :: "'x \<Rightarrow> 'e \<Rightarrow> send_request option outcome"
  assumes record_hops: "hops (record_pkt x h) = h_hopC h - 1"
    and drop_at_zero: "hops e = 0 \<Longrightarrow> handle x e = Def None"
    and keeps_hops: "handle x e = Def (Some (out, pkt, t)) \<Longrightarrow> h_hopC (vp_valH pkt) = hops e"
begin

lemma relay_hops: "relay record_pkt handle h h' \<Longrightarrow> h_hopC h' = h_hopC h - 1 \<and> h_hopC h' \<noteq> 0"
  unfolding relay.simps using record_hops drop_at_zero keeps_hops by force

lemma relay_unat: "relay record_pkt handle h h' \<Longrightarrow> h_hopC h \<noteq> 0 \<Longrightarrow> unat (h_hopC h) = Suc (unat (h_hopC h')) \<and> h_hopC h' \<noteq> 0"
  using relay_hops [of h h'] unat_minus_one [of "h_hopC h"] unat_gt_0 [of "h_hopC h"] by auto

lemma relays_bounded: "(relay record_pkt handle ^^ n) h h' \<Longrightarrow> h_hopC h \<noteq> 0 \<Longrightarrow>
   unat (h_hopC h) = n + unat (h_hopC h') \<and> h_hopC h' \<noteq> 0"
proof (induction n arbitrary: h')
  case (Suc n)
  then obtain g where g: "(relay record_pkt handle ^^ n) h g" "relay record_pkt handle g h'" by (auto elim: relcompp.cases)
  with Suc have "unat (h_hopC h) = n + unat (h_hopC g)" "h_hopC g \<noteq> 0" by auto
  with relay_unat [OF g(2)] show ?case by simp
qed simp

end

text \<open>
  A vehicle's reaction to an Interest or Data packet from the network depends on its surroundings, the
  face that NFD chose, the face it was heard on, and the packet.
\<close>

type_synonym interest_relay = "ns3_env \<times> f2a \<times> face_id \<times> face_id \<times> interest"
type_synonym data_relay = "ns3_env \<times> face_id \<times> face_id \<times> ifnt_entry list \<times> data"

definition record_interest :: "interest_relay \<Rightarrow> val_header \<Rightarrow> ifnt_entry" where
  "record_interest x h = (case x of (env, t, faceId, inFace, i) \<Rightarrow> mkIfntEntry h i inFace)"

definition handle_interest :: "interest_relay \<Rightarrow> ifnt_entry \<Rightarrow> send_request option outcome" where
  "handle_interest x e = (case x of (env, t, faceId, inFace, i) \<Rightarrow> doAfterIfntHit env t faceId e i)"

definition record_data :: "data_relay \<Rightarrow> val_header \<Rightarrow> dfnt_entry" where
  "record_data x h = (case x of (env, faceId, inFace, es, d) \<Rightarrow> mkDfntEntry h d inFace)"

definition handle_data :: "data_relay \<Rightarrow> dfnt_entry \<Rightarrow> send_request option outcome" where
  "handle_data x e = (case x of (env, faceId, inFace, es, d) \<Rightarrow> doAfterDfntHit env faceId e es d)"

lemma vp_valH_set [simp]: "vp_valH (setInterest i p) = vp_valH p" "vp_valH (setData d p) = vp_valH p"
  by (simp_all add: setInterest_def setData_def)

lemma vp_valH_mk [simp]: "vp_valH (mkValPacket h) = h"
  by (simp add: mkValPacket_def)

lemma mkValHeader_sel [simp]:
  "h_SA (mkValHeader sa da pos rn c) = sa" "h_DA (mkValHeader sa da pos rn c) = da"
  "h_phPos (mkValHeader sa da pos rn c) = pos" "h_RN (mkValHeader sa da pos rn c) = rn"
  "h_hopC (mkValHeader sa da pos rn c) = c" "h_wire (mkValHeader sa da pos rn c) = None"
  by (simp_all add: mkValHeader_def)

interpretation interest_hops: hop_limited record_interest if_hopC handle_interest
  by unfold_locales
     (auto simp: record_interest_def handle_interest_def mkIfntEntry_def doAfterIfntHit_def bindU_eq_Def
       split: if_splits prod.splits)

interpretation data_hops: hop_limited record_data df_hopC handle_data
  by unfold_locales
     (auto simp: record_data_def handle_data_def mkDfntEntry_def doAfterDfntHit_def bindU_eq_Def Let_def
       split: if_splits prod.splits)

text \<open>C21: an Interest that starts with a nonzero hop counter is relayed fewer times than that counter,
  whatever vehicles, areas and faces are involved on the way, and every relay decreases the counter by
  exactly one; so an Interest of this node, which starts with \<open>MAXHOPS\<close>, is relayed at most eight times.\<close>

theorem interest_hop_limit:
  assumes "(relay record_interest handle_interest ^^ n) h h'" and "h_hopC h \<noteq> 0"
  shows "n < unat (h_hopC h) \<and> unat (h_hopC h') = unat (h_hopC h) - n"
  using interest_hops.relays_bounded [OF assms] by (auto simp: unat_gt_0)

theorem interest_hop_limit_witness:
  "\<exists>h'. (relay record_interest handle_interest ^^ 1) (example_header 9) h' \<and> unat (h_hopC h') = 8"
proof -
  let ?x = "(example_env 20000, mkF2A, 256, 300, example_interest 5) :: interest_relay"
  have "d_to_u32 200 = Def 200" by (simp add: d_to_u32_def d_trunc_def)
  then obtain out pkt t where "handle_interest ?x (record_interest ?x (example_header 9)) = Def (Some (out, pkt, t))"
    by (simp add: handle_interest_def record_interest_def doAfterIfntHit_def mkIfntEntry_def example_header_def
        getDistanceToPoint_def getMyPos_def example_env_def calcInvertedFwdTimer_def Let_def)
  then have r: "(relay record_interest handle_interest ^^ 1) (example_header 9) (vp_valH pkt)"
    by (auto intro: relay.intros)
  from interest_hop_limit [OF this] r show ?thesis by (auto simp: example_header_def)
qed

text \<open>C22: the same limit for Data packets.\<close>

theorem data_hop_limit:
  assumes "(relay record_data handle_data ^^ n) h h'" and "h_hopC h \<noteq> 0"
  shows "n < unat (h_hopC h) \<and> unat (h_hopC h') = unat (h_hopC h) - n"
  using data_hops.relays_bounded [OF assms] by (auto simp: unat_gt_0)

theorem data_hop_limit_witness:
  "\<exists>h'. (relay record_data handle_data ^^ 1) (example_header 3) h' \<and> unat (h_hopC h') = 2"
proof -
  let ?x = "(example_env 20000, 256, 300, [mkIfntEntry (example_header 9) (example_interest 5) 300], example_data 7) :: data_relay"
  have "fl 50 = 50" "fl 200 = 200" using fl_of_int [of 50] fl_of_int [of 200] by simp_all
  moreover have "d_to_u32 50 = Def 50" "d_to_u32 200 = Def 200" by (simp_all add: d_to_u32_def d_trunc_def)
  ultimately obtain out pkt t where "handle_data ?x (record_data ?x (example_header 3)) = Def (Some (out, pkt, t))"
    by (simp add: handle_data_def record_data_def doAfterDfntHit_def mkDfntEntry_def mkIfntEntry_def example_header_def
        getPositions_def getMultiPointDist_def getMyPos_def example_env_def calcFwdTimer_def Let_def d_add_def d_div_def)
  then have r: "(relay record_data handle_data ^^ 1) (example_header 3) (vp_valH pkt)"
    by (auto intro: relay.intros)
  from data_hop_limit [OF this] r show ?thesis by (auto simp: example_header_def)
qed

section \<open>Progress towards a known area\<close>

text \<open>The distance in metres that the vehicles compare, from a position in text form to an area.\<close>

definition area_dist :: "ns3_env \<Rightarrow> string \<Rightarrow> string \<Rightarrow> u32 outcome" where
  "area_dist env pos area = bindU (getDistanceToArea env pos area) d_to_u32"

text \<open>Vehicles of one simulation read positions and measure distances in the same way.\<close>

definition same_world :: "ns3_env \<Rightarrow> ns3_env \<Rightarrow> bool" where
  "same_world w env \<longleftrightarrow> env_read env = env_read w \<and> env_distance env = env_distance w"

text \<open>\<open>n\<close> relays of an Interest by vehicles outside its destination area.\<close>

inductive greedy_chain :: "ns3_env \<Rightarrow> nat \<Rightarrow> val_header \<Rightarrow> val_header \<Rightarrow> bool" for w where
  greedy_start: "greedy_chain w 0 h h"
| greedy_step: "greedy_chain w n h g \<Longrightarrow> same_world w env \<Longrightarrow> getMyArea env \<noteq> Def (h_DA g) \<Longrightarrow>
    doAfterIfntHit env t faceId (mkIfntEntry g i inFace) i = Def (Some (out, pkt, time)) \<Longrightarrow>
    greedy_chain w (Suc n) h (vp_valH pkt)"

lemma same_world_area_dist: "same_world w env \<Longrightarrow> area_dist env pos area = area_dist w pos area"
  by (simp add: same_world_def area_dist_def getDistanceToArea_def)

lemma doAfterIfntHit_known:
  assumes "doAfterIfntHit env t faceId e i = Def (Some (out, pkt, time))"
    and "if_da e \<noteq> ''0''" and "getMyArea env \<noteq> Def (if_da e)"
  obtains pre my where "area_dist env (if_phPos e) (if_da e) = Def pre" and "area_dist env (getMyPos env) (if_da e) = Def my"
    and "my < pre" and "h_phPos (vp_valH pkt) = getMyPos env" and "h_DA (vp_valH pkt) = if_da e"
proof -
  have hop: "if_hopC e \<noteq> 0" using assms(1) by (auto simp: doAfterIfntHit_def)
  with assms(1,2) obtain a where a: "getMyArea env = Def a"
    by (cases "getMyArea env") (auto simp: doAfterIfntHit_def)
  with assms(3) have "if_da e \<noteq> a" by auto
  with assms(1,2) hop a show thesis
    by (auto simp: doAfterIfntHit_def area_dist_def bindU_eq_Def split: if_splits intro: that)
qed

lemma greedy_chain_progress:
  assumes "greedy_chain w n h h'" and "h_DA h \<noteq> ''0''" and "area_dist w (h_phPos h) (h_DA h) = Def d"
  shows "h_DA h' = h_DA h \<and> (\<exists>d'. area_dist w (h_phPos h') (h_DA h) = Def d' \<and> unat d' + n \<le> unat d)"
  using assms
proof (induction rule: greedy_chain.induct)
  case (greedy_start h)
  then show ?case by simp
next
  case (greedy_step n h g env t faceId i inFace out pkt time)
  then obtain d1 where d1: "h_DA g = h_DA h" "area_dist w (h_phPos g) (h_DA h) = Def d1" "unat d1 + n \<le> unat d"
    by auto
  have da: "if_da (mkIfntEntry g i inFace) = h_DA h" "if_phPos (mkIfntEntry g i inFace) = h_phPos g"
    by (simp_all add: mkIfntEntry_def d1(1))
  have "getMyArea env \<noteq> Def (h_DA h)" using greedy_step.hyps(3) d1(1) by simp
  from doAfterIfntHit_known [OF greedy_step.hyps(4), unfolded da, OF greedy_step.prems(1) this]
  obtain pre my where "area_dist env (h_phPos g) (h_DA h) = Def pre" "area_dist env (getMyPos env) (h_DA h) = Def my"
    and "my < pre" "h_phPos (vp_valH pkt) = getMyPos env" "h_DA (vp_valH pkt) = h_DA h" .
  with d1 show ?case
    by (auto simp: same_world_area_dist [OF greedy_step.hyps(2)] word_less_nat_alt)
qed



end
