(* ===== verification/Val_Pft.thy ===== *)
theory Val_Pft
  imports Val_Table Val_Packet
begin

text \<open>
  PFT, the Pending Forwarding Table (\<open>src/model/val/table/val-pft*.{hpp,cpp}\<close>). Its entries are
  mutable objects behind shared pointers: the table, the match lists and the timer callbacks all hold
  pointers to the same entry, and an entry outlives its removal from the table while a timer still
  refers to it. So the model has a heap of entries and the table is a list of pointers into it.
\<close>

section \<open>Entries\<close>

definition WAITING_FORWARDING :: int where "WAITING_FORWARDING = 0"
definition WAITING_IMPLICIT_ACK :: int where "WAITING_IMPLICIT_ACK = 1"
definition FORWARDING_TRIES :: int where "FORWARDING_TRIES = -1"
definition MAX_IMPLICIT_ACK_TRIES :: int where "MAX_IMPLICIT_ACK_TRIES = 3"

text \<open>\<open>pe_timer\<close> is the scheduler's event id, \<open>None\<close> the default constructed one.\<close>

record pft_entry =
  pe_pkt :: val_packet
  pe_state :: int
  pe_tries :: int
  pe_faceId :: face_id
  pe_timer :: "nat option"

definition mkPftEntry :: "val_packet \<Rightarrow> face_id \<Rightarrow> pft_entry" where
  "mkPftEntry pkt fid = \<lparr> pe_pkt = pkt, pe_state = WAITING_FORWARDING, pe_tries = FORWARDING_TRIES,
     pe_faceId = fid, pe_timer = None \<rparr>"

text \<open>In milliseconds.\<close>

definition getDefaultImpAckTimerDuration :: "pft_entry \<Rightarrow> int" where
  "getDefaultImpAckTimerDuration e = (if vp_isSet (pe_pkt e) = DATA_SET then 40 else 70)"

definition changeStateToWaintingImpAck :: "pft_entry \<Rightarrow> bool \<times> pft_entry" where
  "changeStateToWaintingImpAck e =
     (if pe_state e = WAITING_FORWARDING
      then (True, e\<lparr> pe_state := WAITING_IMPLICIT_ACK, pe_tries := MAX_IMPLICIT_ACK_TRIES \<rparr>)
      else (False, e))"

definition oneLessTry :: "pft_entry \<Rightarrow> bool \<times> pft_entry" where
  "oneLessTry e = (if pe_tries e > 0 then (True, e\<lparr> pe_tries := pe_tries e - 1 \<rparr>) else (False, e))"

definition setTimer :: "nat \<Rightarrow> pft_entry \<Rightarrow> pft_entry" where
  "setTimer tid e = e\<lparr> pe_timer := Some tid \<rparr>"

section \<open>The table\<close>

type_synonym ptr = nat

record pft =
  pft_heap :: "ptr \<Rightarrow> pft_entry option"
  pft_list :: "ptr list"
  pft_nItens :: u64
  pft_next :: ptr

definition mkPFT :: pft where
  "mkPFT = \<lparr> pft_heap = (\<lambda>_. None), pft_list = [], pft_nItens = 0, pft_next = 0 \<rparr>"

text \<open>
  Same kind of NDN packet, and the same nonce or the same signature. Packets keep \<open>packet_inv\<close>, so
  the pointer that the state flag announces is never null here.
\<close>

definition pkt_match :: "val_packet \<Rightarrow> val_packet \<Rightarrow> bool" where
  "pkt_match a b \<longleftrightarrow> vp_isSet a = vp_isSet b \<and>
     (if vp_isSet a = INTEREST_SET
      then map_option in_nonce (vp_interest a) = map_option in_nonce (vp_interest b)
      else if vp_isSet a = DATA_SET
      then map_option d_signature (vp_data a) = map_option d_signature (vp_data b)
      else False)"

definition ptr_match :: "val_packet \<Rightarrow> pft \<Rightarrow> ptr \<Rightarrow> bool" where
  "ptr_match pkt t p = (case pft_heap t p of None \<Rightarrow> False | Some e \<Rightarrow> pkt_match pkt (pe_pkt e))"

definition pft_findMatch :: "val_packet \<Rightarrow> pft \<Rightarrow> ptr option" where
  "pft_findMatch pkt t = List.find (ptr_match pkt t) (pft_list t)"

definition pft_addEntry :: "pft_entry \<Rightarrow> pft \<Rightarrow> (bool \<times> ptr) \<times> pft" where
  "pft_addEntry entry t =
     (case pft_findMatch (pe_pkt entry) t of
        None \<Rightarrow>
          ((True, pft_next t),
           t\<lparr> pft_heap := (pft_heap t)(pft_next t := Some entry), pft_list := pft_list t @ [pft_next t],
              pft_nItens := pft_nItens t + 1, pft_next := pft_next t + 1 \<rparr>)
      | Some p \<Rightarrow> ((False, p), t))"

text \<open>The inner loop pushes the pointer once per equal nonce; the outer one stops when enough are found.\<close>

fun pft_nonce_loop :: "nonce list \<Rightarrow> pft \<Rightarrow> ptr list \<Rightarrow> ptr list \<Rightarrow> ptr list" where
  "pft_nonce_loop ns t [] res = res"
| "pft_nonce_loop ns t (p # ps) res =
     (let res' = (case pft_heap t p of None \<Rightarrow> res
                  | Some e \<Rightarrow>
                      if vp_isSet (pe_pkt e) = INTEREST_SET
                      then res @ map (\<lambda>_. p) (filter (\<lambda>n. map_option in_nonce (vp_interest (pe_pkt e)) = Some n) ns)
                      else res)
      in if length res' = length ns then res' else pft_nonce_loop ns t ps res')"

definition pft_findMatchByNonceList :: "nonce list \<Rightarrow> pft \<Rightarrow> ptr list" where
  "pft_findMatchByNonceList ns t = pft_nonce_loop ns t (pft_list t) []"

text \<open>
  \<open>removeEntry\<close> erases the first match and then assigns \<open>end()\<close> to the iterator, which the loop
  increments. The standard gives that no meaning; the circular lists of libstdc++ step from \<open>end()\<close> to
  \<open>begin()\<close>, so the scan starts over. The model has this restart.
\<close>

function pft_remove_loop :: "val_packet \<Rightarrow> bool \<Rightarrow> pft \<Rightarrow> bool \<times> pft" where
  "pft_remove_loop pkt st t =
     (if list_ex (ptr_match pkt t) (pft_list t)
      then pft_remove_loop pkt True
             (t\<lparr> pft_list := erase_first (ptr_match pkt t) (pft_list t), pft_nItens := pft_nItens t - 1 \<rparr>)
      else (st, t))"
  by pat_completeness auto
termination
  by (relation "measure (\<lambda>(_, _, t). length (pft_list t))")
     (auto simp: length_erase_first list_ex_iff dest!: length_pos_if_in_set)

declare pft_remove_loop.simps [simp del]

definition pft_removeEntry :: "val_packet \<Rightarrow> pft \<Rightarrow> bool \<times> pft" where
  "pft_removeEntry pkt t = pft_remove_loop pkt False t"

primrec pft_removeEntriesByMatchList :: "ptr list \<Rightarrow> pft \<Rightarrow> pft" where
  "pft_removeEntriesByMatchList [] t = t"
| "pft_removeEntriesByMatchList (p # ps) t =
     pft_removeEntriesByMatchList ps
       (case pft_heap t p of None \<Rightarrow> t | Some e \<Rightarrow> snd (pft_removeEntry (pe_pkt e) t))"

text \<open>An update of the object behind a pointer.\<close>

definition pft_modify :: "ptr \<Rightarrow> (pft_entry \<Rightarrow> pft_entry) \<Rightarrow> pft \<Rightarrow> pft" where
  "pft_modify p f t = t\<lparr> pft_heap := (pft_heap t)(p := map_option f (pft_heap t p)) \<rparr>"

section \<open>Invariant\<close>

definition pft_entries :: "pft \<Rightarrow> val_packet list" where
  "pft_entries t = map (\<lambda>p. pe_pkt (the (pft_heap t p))) (pft_list t)"

text \<open>
  The pointers of the table are allocated and distinct, the allocator hands out fresh ones, and no
  two entries of the table match each other.
\<close>

definition pft_inv :: "pft \<Rightarrow> bool" where
  "pft_inv t \<longleftrightarrow> distinct (pft_list t) \<and>
     (\<forall>p\<in>set (pft_list t). pft_heap t p \<noteq> None) \<and>
     (\<forall>p. pft_heap t p \<noteq> None \<longrightarrow> p < pft_next t) \<and>
     (\<forall>p\<in>set (pft_list t). \<forall>q\<in>set (pft_list t). p \<noteq> q \<longrightarrow>
        \<not> pkt_match (pe_pkt (the (pft_heap t p))) (pe_pkt (the (pft_heap t q))))"

lemma pkt_match_sym: "pkt_match a b \<Longrightarrow> pkt_match b a"
  by (auto simp: pkt_match_def split: if_splits)

lemma pkt_match_trans: "pkt_match a b \<Longrightarrow> pkt_match b c \<Longrightarrow> pkt_match a c"
  by (auto simp: pkt_match_def split: if_splits)

lemma pkt_match_left: "pkt_match a b \<Longrightarrow> pkt_match a c \<Longrightarrow> pkt_match b c"
  by (blast intro: pkt_match_sym pkt_match_trans)

lemma ptr_match_list_upd [simp]:
  "ptr_match pkt (t\<lparr> pft_list := ps \<rparr>) = ptr_match pkt t" "ptr_match pkt (t\<lparr> pft_nItens := n \<rparr>) = ptr_match pkt t"
  by (simp_all add: fun_eq_iff ptr_match_def)

lemma filter_erase_first: "filter (\<lambda>x. \<not> P x) (erase_first P xs) = filter (\<lambda>x. \<not> P x) xs"
  by (induction xs) auto

lemma length_filter_erase_first:
  "x \<in> set xs \<Longrightarrow> P x \<Longrightarrow> length (filter P xs) = Suc (length (filter P (erase_first P xs)))"
  by (induction xs) auto

lemma pft_remove_loop_eq:
  "pft_remove_loop pkt st t =
     (st \<or> (\<exists>p\<in>set (pft_list t). ptr_match pkt t p),
      t\<lparr> pft_list := filter (\<lambda>p. \<not> ptr_match pkt t p) (pft_list t),
         pft_nItens := pft_nItens t - of_nat (length (filter (ptr_match pkt t) (pft_list t))) \<rparr>)"
proof (induction pkt st t rule: pft_remove_loop.induct)
  case (1 pkt st t)
  show ?case
  proof (cases "\<exists>p\<in>set (pft_list t). ptr_match pkt t p")
    case True
    then obtain p where p: "p \<in> set (pft_list t)" "ptr_match pkt t p" by blast
    with 1 show ?thesis
      by (subst pft_remove_loop.simps)
         (auto simp: list_ex_iff filter_erase_first length_filter_erase_first [where P = "ptr_match pkt t", OF p])
  next
    case False
    then show ?thesis by (subst pft_remove_loop.simps) (auto simp: list_ex_iff)
  qed
qed

lemma pft_remove_list [table_simps]:
  "pft_list (snd (pft_removeEntry pkt t)) = filter (\<lambda>p. \<not> ptr_match pkt t p) (pft_list t)"
  "pft_heap (snd (pft_removeEntry pkt t)) = pft_heap t"
  "pft_next (snd (pft_removeEntry pkt t)) = pft_next t"
  "fst (pft_removeEntry pkt t) \<longleftrightarrow> (\<exists>p\<in>set (pft_list t). ptr_match pkt t p)"
  by (simp_all add: pft_removeEntry_def pft_remove_loop_eq)

lemma pft_add_old:
  "pft_findMatch (pe_pkt e) t = Some p \<Longrightarrow> pft_addEntry e t = ((False, p), t)"
  by (simp add: pft_addEntry_def)

lemma pft_invD:
  assumes "pft_inv t"
  shows "distinct (pft_list t)" and "p \<in> set (pft_list t) \<Longrightarrow> \<exists>e. pft_heap t p = Some e"
    and "pft_heap t p = Some e \<Longrightarrow> p < pft_next t"
    and "p \<in> set (pft_list t) \<Longrightarrow> q \<in> set (pft_list t) \<Longrightarrow>
      pkt_match (pe_pkt (the (pft_heap t p))) (pe_pkt (the (pft_heap t q))) \<Longrightarrow> p = q"
  using assms by (auto simp: pft_inv_def)

lemma pft_inv_fresh:
  assumes "pft_inv t"
  shows "pft_heap t (pft_next t) = None" and "pft_next t \<notin> set (pft_list t)"
  using pft_invD(3) [OF assms, of "pft_next t"] pft_invD(2) [OF assms, of "pft_next t"]
  by (cases "pft_heap t (pft_next t)"; force)+

lemma mkPFT_sel [simp]:
  "pft_list mkPFT = []" "pft_heap mkPFT p = None" "pft_nItens mkPFT = 0" "pft_next mkPFT = 0"
  by (simp_all add: mkPFT_def)

lemma pft_inv_empty [table_inv, simp]: "pft_inv mkPFT"
  by (simp add: pft_inv_def mkPFT_def)

lemma pft_inv_remove [table_inv]: "pft_inv t \<Longrightarrow> pft_inv (snd (pft_removeEntry pkt t))"
  by (auto simp: pft_inv_def table_simps)

lemma pft_inv_add [table_inv]:
  assumes "pft_inv t"
  shows "pft_inv (snd (pft_addEntry e t))"
proof (cases "pft_findMatch (pe_pkt e) t")
  case None
  note fresh = pft_inv_fresh [OF assms]
  have no: "\<not> pkt_match (pe_pkt e) (pe_pkt (the (pft_heap t p)))" if "p \<in> set (pft_list t)" for p
    using None that pft_invD(2) [OF assms that]
    by (auto simp: pft_findMatch_def ptr_match_def find_None_iff)
  then show ?thesis
    using assms fresh None
    by (auto simp: pft_addEntry_def pft_inv_def less_Suc_eq dest: pkt_match_sym)
next
  case (Some p)
  with assms show ?thesis by (simp add: pft_addEntry_def)
qed

lemma pft_inv_modify [table_inv]:
  assumes "pft_inv t" and "\<And>e. pft_heap t p = Some e \<Longrightarrow> pe_pkt (f e) = pe_pkt e"
  shows "pft_inv (pft_modify p f t)"
proof -
  have "pe_pkt (the (pft_heap (pft_modify p f t) q)) = pe_pkt (the (pft_heap t q))" if "pft_heap t q \<noteq> None" for q
    using that assms(2) by (auto simp: pft_modify_def)
  with assms(1) show ?thesis
    by (auto simp: pft_inv_def pft_modify_def split: if_splits)
qed

interpretation pft_by_packet: lookup_table pft_entries pft_nItens pft_inv mkPFT
  "\<lambda>e t. snd (pft_addEntry e t)" "\<lambda>pkt t. Def (snd (pft_removeEntry pkt t))"
  pe_pkt pkt_match "\<lambda>pkt t. map_option (\<lambda>p. pe_pkt (the (pft_heap t p))) (pft_findMatch pkt t)"
proof unfold_locales
  fix t a assume inv: "pft_inv t"
  note fresh = pft_inv_fresh [OF inv]
  have entries_add: "pft_entries (snd (pft_addEntry a t)) =
    (if pft_findMatch (pe_pkt a) t = None then pft_entries t @ [pe_pkt a] else pft_entries t)"
    using fresh by (auto simp: pft_entries_def pft_addEntry_def split: option.splits)
  show "\<exists>n. length (pft_entries (snd (pft_addEntry a t))) = length (pft_entries t) + n \<and>
    pft_nItens (snd (pft_addEntry a t)) = pft_nItens t + of_nat n"
  proof (cases "pft_findMatch (pe_pkt a) t")
    case None
    then show ?thesis by (intro exI [of _ 1]) (simp add: entries_add, simp add: pft_addEntry_def)
  next
    case (Some p)
    then show ?thesis by (intro exI [of _ 0]) (simp add: entries_add, simp add: pft_addEntry_def)
  qed
  show "set (pft_entries (snd (pft_addEntry a t))) \<subseteq> Set.insert (pe_pkt a) (set (pft_entries t))"
    "set (pft_entries t) \<subseteq> set (pft_entries (snd (pft_addEntry a t)))"
    by (auto simp: entries_add)
  fix q
  have scan: "map_option (\<lambda>p. pe_pkt (the (pft_heap t p))) (List.find (ptr_match q t) ps) =
    List.find (pkt_match q) (map (\<lambda>p. pe_pkt (the (pft_heap t p))) ps)" if "set ps \<subseteq> set (pft_list t)" for ps
    using that
  proof (induction ps)
    case (Cons p ps)
    then obtain e where "pft_heap t p = Some e" using pft_invD(2) [OF inv, of p] by auto
    with Cons show ?case by (simp add: ptr_match_def)
  qed simp
  then show "map_option (\<lambda>p. pe_pkt (the (pft_heap t p))) (pft_findMatch q t) = List.find (pkt_match q) (pft_entries t)"
    by (simp add: pft_findMatch_def pft_entries_def)
  assume m: "pkt_match q (pe_pkt a)"
  show "\<exists>e\<in>set (pft_entries (snd (pft_addEntry a t))). pkt_match q e"
  proof (cases "pft_findMatch (pe_pkt a) t")
    case None
    with m show ?thesis by (simp add: entries_add)
  next
    case (Some p)
    then have "p \<in> set (pft_list t)" "pkt_match (pe_pkt a) (pe_pkt (the (pft_heap t p)))"
      by (auto simp: pft_findMatch_def ptr_match_def dest!: find_SomeD split: option.splits)
    with m show ?thesis
      by (auto simp: pft_add_old [OF Some] pft_entries_def intro: pkt_match_trans)
  qed
next
  fix t k t'
  assume "Def (snd (pft_removeEntry k t)) = Def t'"
  then show "\<exists>n. length (pft_entries t') + n = length (pft_entries t) \<and> pft_nItens t' = pft_nItens t - of_nat n"
    by (intro exI [of _ "length (filter (ptr_match k t) (pft_list t))"])
       (auto simp: pft_removeEntry_def pft_remove_loop_eq pft_entries_def sum_length_filter_compl add.commute)
qed (auto simp: pft_entries_def table_simps pft_inv_add pft_inv_remove)

section \<open>Properties\<close>

lemma pft_findMatch_unique:
  assumes "pft_inv t" and "pft_findMatch pkt t = Some p" and "q \<in> set (pft_list t)"
  shows "ptr_match pkt t q \<longleftrightarrow> q = p"
proof -
  from assms(2) have p: "p \<in> set (pft_list t)" "ptr_match pkt t p"
    by (auto simp: pft_findMatch_def dest: find_SomeD)
  then show ?thesis
    using pft_invD(4) [OF assms(1) p(1) assms(3)]
    by (auto simp: ptr_match_def split: option.splits dest: pkt_match_left)
qed

lemma filter_not_eq_remove1: "distinct xs \<Longrightarrow> filter (\<lambda>q. q \<noteq> p) xs = remove1 p xs"
  by (induction xs) (auto simp: remove1_idem)

lemma filter_eq_single: "distinct xs \<Longrightarrow> p \<in> set xs \<Longrightarrow> filter (\<lambda>q. q = p) xs = [p]"
  by (induction xs) (auto simp: filter_empty_conv)

text \<open>C24: on a table without matching duplicates, the restarting scan of \<open>removeEntry\<close> is the removal of
  the one entry that \<open>findMatch\<close> returns: it reports whether there was one, takes that pointer out of
  the table, decreases the counter by one, and leaves the entry object itself to its other owners.\<close>

theorem pft_removeEntry_exact:
  assumes "pft_inv t"
  shows "pft_removeEntry pkt t =
    (case pft_findMatch pkt t of
       None \<Rightarrow> (False, t)
     | Some p \<Rightarrow> (True, t\<lparr> pft_list := remove1 p (pft_list t), pft_nItens := pft_nItens t - 1 \<rparr>))"
proof (cases "pft_findMatch pkt t")
  case None
  then have "\<forall>p\<in>set (pft_list t). \<not> ptr_match pkt t p" by (auto simp: pft_findMatch_def find_None_iff)
  with None show ?thesis by (simp add: pft_removeEntry_def pft_remove_loop.simps list_ex_iff)
next
  case (Some p)
  note u = pft_findMatch_unique [OF assms Some]
  have p: "p \<in> set (pft_list t)" using Some by (auto simp: pft_findMatch_def dest: find_SomeD)
  have "filter (\<lambda>q. \<not> ptr_match pkt t q) (pft_list t) = remove1 p (pft_list t)"
    "filter (ptr_match pkt t) (pft_list t) = [p]"
    using u pft_invD(1) [OF assms] p
    by (simp_all cong: filter_cong add: filter_not_eq_remove1 filter_eq_single)
  moreover have "\<exists>q\<in>set (pft_list t). ptr_match pkt t q" using p u [OF p] by auto
  ultimately show ?thesis
    using Some by (simp add: pft_removeEntry_def pft_remove_loop_eq)
qed

text \<open>C25: \<open>addEntry\<close> keeps at most one pending entry per packet: it reports a new entry exactly when no
  match was pending, and the pointer it returns is the one that \<open>findMatch\<close> finds afterwards.\<close>

theorem pft_addEntry_findMatch:
  assumes "pft_inv t" and "pkt_match (pe_pkt e) (pe_pkt e)" and "pft_addEntry e t = ((new, p), t')"
  shows "pft_findMatch (pe_pkt e) t' = Some p \<and> new = (pft_findMatch (pe_pkt e) t = None) \<and> pft_inv t'"
proof (cases "pft_findMatch (pe_pkt e) t")
  case None
  with assms(3) have "pft_heap t' = (pft_heap t)(pft_next t := Some e)" by (auto simp: pft_addEntry_def)
  then have "List.find (ptr_match (pe_pkt e) t') (pft_list t) = List.find (ptr_match (pe_pkt e) t) (pft_list t)"
    using pft_inv_fresh(2) [OF assms(1)] by (intro find_cong) (auto simp: ptr_match_def)
  with None assms pft_inv_add [OF assms(1), of e] show ?thesis
    by (auto simp: pft_addEntry_def pft_findMatch_def ptr_match_def find_append)
next
  case (Some q)
  with assms show ?thesis by (auto simp: pft_addEntry_def)
qed

definition ptr_nonce :: "pft \<Rightarrow> ptr \<Rightarrow> nonce option" where
  "ptr_nonce t p = (case pft_heap t p of None \<Rightarrow> None
     | Some e \<Rightarrow> if vp_isSet (pe_pkt e) = INTEREST_SET then map_option in_nonce (vp_interest (pe_pkt e)) else None)"

text \<open>The reference for the nonce search: the pending Interests whose nonce is in the list.\<close>

definition pft_pending_nonces :: "nonce list \<Rightarrow> pft \<Rightarrow> ptr list" where
  "pft_pending_nonces ns t = filter (\<lambda>p. \<exists>n\<in>set ns. ptr_nonce t p = Some n) (pft_list t)"

lemma nonce_hits:
  assumes "distinct ns"
  shows "(case pft_heap t p of None \<Rightarrow> res
     | Some e \<Rightarrow> if vp_isSet (pe_pkt e) = INTEREST_SET
       then res @ map (\<lambda>_. p) (filter (\<lambda>n. map_option in_nonce (vp_interest (pe_pkt e)) = Some n) ns)
       else res) = (if \<exists>n\<in>set ns. ptr_nonce t p = Some n then res @ [p] else res)"
proof -
  have hits: "map (\<lambda>_. p) (filter (\<lambda>n. k = Some n) ns) = (if \<exists>n\<in>set ns. k = Some n then [p] else [])" for k
  proof (cases k)
    case (Some m)
    then show ?thesis
      using filter_eq_single [OF assms, of m] by (auto simp: filter_empty_conv eq_commute [of m])
  qed simp
  show ?thesis
  proof (cases "pft_heap t p")
    case (Some e)
    show ?thesis unfolding ptr_nonce_def Some option.case hits by simp
  qed (simp add: ptr_nonce_def)
qed

lemma pft_nonce_loop_eq:
  assumes "distinct ns"
    and "length res + length (filter (\<lambda>p. \<exists>n\<in>set ns. ptr_nonce t p = Some n) ps) \<le> length ns"
  shows "pft_nonce_loop ns t ps res = res @ filter (\<lambda>p. \<exists>n\<in>set ns. ptr_nonce t p = Some n) ps"
  using assms(2)
proof (induction ps arbitrary: res)
  case (Cons p ps)
  let ?Q = "\<lambda>p. \<exists>n\<in>set ns. ptr_nonce t p = Some n"
  let ?r = "if ?Q p then res @ [p] else res"
  have "pft_nonce_loop ns t (p # ps) res = (if length ?r = length ns then ?r else pft_nonce_loop ns t ps ?r)"
    by (simp only: pft_nonce_loop.simps Let_def nonce_hits [OF assms(1)])
  moreover have "length ?r + length (filter ?Q ps) \<le> length ns" using Cons.prems by auto
  ultimately show ?case using Cons.IH [of ?r] by auto
qed simp

lemma pending_nonces_bound:
  assumes "pft_inv t" and "distinct ns"
  shows "length (pft_pending_nonces ns t) \<le> length ns"
proof -
  let ?P = "pft_pending_nonces ns t"
  have "inj_on (\<lambda>p. the (ptr_nonce t p)) (set ?P)"
  proof (rule inj_onI)
    fix p q assume "p \<in> set ?P" "q \<in> set ?P" "the (ptr_nonce t p) = the (ptr_nonce t q)"
    then show "p = q"
      using pft_invD(4) [OF assms(1), of p q]
      by (auto simp: pft_pending_nonces_def ptr_nonce_def pkt_match_def split: option.splits if_splits)
  qed
  moreover have "(\<lambda>p. the (ptr_nonce t p)) ` set ?P \<subseteq> set ns"
    by (auto simp: pft_pending_nonces_def)
  ultimately have "card (set ?P) \<le> card (set ns)" by (metis card_inj_on_le List.finite_set)
  moreover have "distinct ?P" using pft_invD(1) [OF assms(1)] by (simp add: pft_pending_nonces_def)
  ultimately show ?thesis using assms(2) by (simp add: distinct_card)
qed

text \<open>C26: for a list of distinct nonces, \<open>findMatchByNonceList\<close> with its early exit returns every pending
  Interest whose nonce is listed, each once and in table order, and no other entry.\<close>

theorem pft_findMatchByNonceList_complete:
  assumes "pft_inv t" and "distinct ns"
  shows "pft_findMatchByNonceList ns t = pft_pending_nonces ns t"
  using pft_nonce_loop_eq [OF assms(2), of "[]" t "pft_list t"] pending_nonces_bound [OF assms]
  by (simp add: pft_findMatchByNonceList_def pft_pending_nonces_def)

text \<open>A table with one pending Interest, for the witnesses.\<close>

definition example_pft :: pft where
  "example_pft = snd (pft_addEntry (mkPftEntry (example_interest_packet 5) 256) mkPFT)"

lemma example_pft_inv: "pft_inv example_pft"
  by (simp add: example_pft_def pft_inv_add)

lemma example_pft_find: "pft_findMatch (example_interest_packet 5) example_pft = Some 0"
  by code_simp

theorem pft_removeEntry_exact_witness:
  "fst (pft_removeEntry (example_interest_packet 5) example_pft) \<and>
   pft_list (snd (pft_removeEntry (example_interest_packet 5) example_pft)) = []"
proof -
  have "pft_list example_pft = [0]" by code_simp
  then show ?thesis
    using pft_removeEntry_exact [OF example_pft_inv, of "example_interest_packet 5"] by (simp add: example_pft_find)
qed

theorem pft_addEntry_findMatch_witness:
  "\<exists>t'. pft_addEntry (mkPftEntry (example_data_packet 7) 256) example_pft = ((True, 1), t') \<and>
     pft_findMatch (example_data_packet 7) t' = Some 1"
proof -
  have 1: "pkt_match (pe_pkt (mkPftEntry (example_data_packet 7) 256)) (pe_pkt (mkPftEntry (example_data_packet 7) 256))"
    by code_simp
  have "fst (pft_addEntry (mkPftEntry (example_data_packet 7) 256) example_pft) = (True, 1)" by code_simp
  then obtain t' where 2: "pft_addEntry (mkPftEntry (example_data_packet 7) 256) example_pft = ((True, 1), t')"
    by (metis prod.collapse)
  from pft_addEntry_findMatch [OF example_pft_inv 1 2] 2 show ?thesis by (simp add: mkPftEntry_def)
qed

theorem pft_findMatchByNonceList_complete_witness:
  "pft_findMatchByNonceList [4, 5] example_pft = [0]"
proof -
  have "pft_pending_nonces [4, 5] example_pft = [0]" by code_simp
  then show ?thesis using pft_findMatchByNonceList_complete [OF example_pft_inv, of "[4, 5]"] by simp
qed

end
