(* ===== verification/Nfd_Face.thy ===== *)
theory Nfd_Face
  imports Val_Prelude
begin

text \<open>
  Faces and the face table of NFD (\<open>src/NFD/daemon/face/face.hpp\<close>, \<open>src/NFD/daemon/fw/face-table.cpp\<close>)
  with VAL's two kinds of faces: the ValNetFace towards the radio and the geo-faces, one per area, that
  exist only between NFD and VAL. The table is the list of its entries in the order of the
  \<open>std::map\<close>; the signals that adding and removing a face emit are returned as values.
\<close>

section \<open>Faces\<close>

datatype face_scope = ScopeNonLocal | ScopeLocal
datatype link_type = LinkPointToPoint | LinkMultiAccess | LinkAdHoc

definition INVALID_FACEID :: face_id where "INVALID_FACEID = 0"
definition FACEID_CONTENT_STORE :: face_id where "FACEID_CONTENT_STORE = 254"
definition FACEID_RESERVED_MAX :: face_id where "FACEID_RESERVED_MAX = 255"

record face =
  fc_id :: face_id
  fc_localUri :: string
  fc_scope :: face_scope
  fc_linkType :: link_type
  fc_metric :: u64
  fc_isValNetFace :: bool
  fc_isGeoFace :: bool

text \<open>The constructor takes its static properties from the transport.\<close>

definition mkFace :: "string \<Rightarrow> face_scope \<Rightarrow> link_type \<Rightarrow> face" where
  "mkFace uri scp lt = \<lparr> fc_id = INVALID_FACEID, fc_localUri = uri, fc_scope = scp, fc_linkType = lt,
     fc_metric = 0, fc_isValNetFace = False, fc_isGeoFace = False \<rparr>"

definition setValNetFace :: "face \<Rightarrow> face" where "setValNetFace f = f\<lparr> fc_isValNetFace := True \<rparr>"
definition setGeoFace :: "face \<Rightarrow> face" where "setGeoFace f = f\<lparr> fc_isGeoFace := True \<rparr>"
definition setMetric :: "u64 \<Rightarrow> face \<Rightarrow> face" where "setMetric m f = f\<lparr> fc_metric := m \<rparr>"

text \<open>\<open>GeofaceFactory::makeGeoface\<close>: a dummy link service over a null transport.\<close>

definition makeGeoface :: face where
  "makeGeoface = setMetric 1 (setGeoFace (mkFace ''geoFace://'' ScopeNonLocal LinkPointToPoint))"

section \<open>Face table\<close>

datatype face_signal = AfterAdd face_id | AfterValFaceAdd face_id | BeforeRemove face_id | BeforeValFaceRemove face_id

record face_table =
  ft_lastFaceId :: face_id
  ft_faces :: "(face_id \<times> face) list"

definition mkFaceTable :: face_table where
  "mkFaceTable = \<lparr> ft_lastFaceId = FACEID_RESERVED_MAX, ft_faces = [] \<rparr>"

definition ft_get :: "face_id \<Rightarrow> face_table \<Rightarrow> face option" where
  "ft_get fid t = map_of (ft_faces t) fid"

fun ft_emplace :: "face_id \<Rightarrow> face \<Rightarrow> (face_id \<times> face) list \<Rightarrow> (face_id \<times> face) list" where
  "ft_emplace k f [] = [(k, f)]"
| "ft_emplace k f ((k', f') # xs) =
     (if k < k' then (k, f) # (k', f') # xs else (k', f') # ft_emplace k f xs)"

definition ft_addImpl :: "face \<Rightarrow> face_id \<Rightarrow> face_table \<Rightarrow> (face_signal \<times> face_table) outcome" where
  "ft_addImpl f fid t =
     (if ft_get fid t \<noteq> None then Undef AssertionFailed
      else Def (if fc_isValNetFace f then AfterValFaceAdd fid else AfterAdd fid,
                t\<lparr> ft_faces := ft_emplace fid (f\<lparr> fc_id := fid \<rparr>) (ft_faces t) \<rparr>))"

text \<open>The id of the face, no signal when the face is in the table already.\<close>

definition ft_add :: "face \<Rightarrow> face_table \<Rightarrow> (face_id \<times> face_signal option \<times> face_table) outcome" where
  "ft_add f t =
     (if fc_id f \<noteq> INVALID_FACEID \<and> ft_get (fc_id f) t \<noteq> None then Def (fc_id f, None, t)
      else
        let fid = ft_lastFaceId t + 1 in
        if \<not> fid > FACEID_RESERVED_MAX then Undef AssertionFailed
        else bindU (ft_addImpl f fid (t\<lparr> ft_lastFaceId := fid \<rparr>)) (\<lambda>(sig, t'). Def (fid, Some sig, t')))"

definition ft_addReserved :: "face \<Rightarrow> face_id \<Rightarrow> face_table \<Rightarrow> (face_signal \<times> face_table) outcome" where
  "ft_addReserved f fid t =
     (if fc_id f \<noteq> INVALID_FACEID \<or> \<not> fid \<le> FACEID_RESERVED_MAX then Undef AssertionFailed
      else ft_addImpl f fid t)"

definition ft_remove :: "face_id \<Rightarrow> face_table \<Rightarrow> (face_signal \<times> face_table) outcome" where
  "ft_remove fid t =
     (case ft_get fid t of
        None \<Rightarrow> Undef AssertionFailed
      | Some f \<Rightarrow>
          Def (if fc_isValNetFace f then BeforeValFaceRemove fid else BeforeRemove fid,
               t\<lparr> ft_faces := filter (\<lambda>(k, _). k \<noteq> fid) (ft_faces t) \<rparr>))"

section \<open>Invariant\<close>

text \<open>Ids ascend, a face knows its own id, and every id handed out so far is at most the last one.\<close>

definition ft_inv :: "face_table \<Rightarrow> bool" where
  "ft_inv t \<longleftrightarrow> sorted_wrt (<) (map fst (ft_faces t)) \<and> FACEID_RESERVED_MAX \<le> ft_lastFaceId t \<and>
     (\<forall>(k, f)\<in>set (ft_faces t). k \<le> ft_lastFaceId t \<and> fc_id f = k)"

lemma set_ft_emplace [simp]: "set (ft_emplace k f xs) = insert (k, f) (set xs)"
  by (induction k f xs rule: ft_emplace.induct) auto

lemma map_of_ft_emplace: "map_of xs k = None \<Longrightarrow> map_of (ft_emplace k f xs) = (map_of xs)(k \<mapsto> f)"
  by (induction k f xs rule: ft_emplace.induct) (auto split: if_splits)

lemma sorted_ft_emplace:
  "sorted_wrt (<) (map fst xs) \<Longrightarrow> map_of xs k = None \<Longrightarrow> sorted_wrt (<) (map fst (ft_emplace k f xs))"
proof (induction k f xs rule: ft_emplace.induct)
  case (2 k f k' f' xs)
  then show ?case by (auto split: if_splits)
qed simp

lemma ft_inv_empty [simp]: "ft_inv mkFaceTable"
  by (simp add: ft_inv_def mkFaceTable_def)

lemma ft_get_id: "ft_inv t \<Longrightarrow> ft_get fid t = Some f \<Longrightarrow> fc_id f = fid"
  by (auto simp: ft_inv_def ft_get_def dest!: map_of_SomeD)

lemma ft_get_le: "ft_inv t \<Longrightarrow> ft_get fid t = Some f \<Longrightarrow> fid \<le> ft_lastFaceId t"
  by (auto simp: ft_inv_def ft_get_def dest!: map_of_SomeD)

text \<open>Adding a new face: it gets a fresh id above the reserved ones, and no other face is affected.\<close>

lemma ft_add_fresh:
  assumes "ft_inv t" and "fc_id f = INVALID_FACEID \<or> ft_get (fc_id f) t = None" and "ft_lastFaceId t \<noteq> - 1"
  obtains t' where "ft_add f t =
      Def (ft_lastFaceId t + 1,
           Some (if fc_isValNetFace f then AfterValFaceAdd (ft_lastFaceId t + 1) else AfterAdd (ft_lastFaceId t + 1)), t')"
    and "ft_inv t'" and "ft_lastFaceId t' = ft_lastFaceId t + 1" and "ft_get (ft_lastFaceId t + 1) t = None"
    and "ft_get (ft_lastFaceId t + 1) t' = Some (f\<lparr> fc_id := ft_lastFaceId t + 1 \<rparr>)"
    and "\<And>k. k \<noteq> ft_lastFaceId t + 1 \<Longrightarrow> ft_get k t' = ft_get k t"
proof -
  let ?n = "ft_lastFaceId t + 1"
  note lt = no_overflow_Suc [OF assms(3)]
  have none: "ft_get ?n t = None"
    using ft_get_le [OF assms(1), of ?n] lt by (cases "ft_get ?n t") auto
  have gt: "?n > FACEID_RESERVED_MAX" using assms(1) lt by (auto simp: ft_inv_def)
  let ?t = "t\<lparr> ft_lastFaceId := ?n, ft_faces := ft_emplace ?n (f\<lparr> fc_id := ?n \<rparr>) (ft_faces t) \<rparr>"
  have "ft_inv ?t"
    using assms(1) lt none gt
    by (auto simp: ft_inv_def ft_get_def sorted_ft_emplace intro: order_trans less_imp_le)
  moreover have "ft_add f t = Def (?n, Some (if fc_isValNetFace f then AfterValFaceAdd ?n else AfterAdd ?n), ?t)"
    using assms(2) none gt by (auto simp: ft_add_def ft_addImpl_def Let_def ft_get_def)
  ultimately show thesis
    using none by (intro that [of ?t]) (simp_all add: ft_get_def map_of_ft_emplace)
qed

lemma ft_inv_remove: "ft_inv t \<Longrightarrow> ft_remove fid t = Def (sig, t') \<Longrightarrow> ft_inv t'"
proof -
  assume inv: "ft_inv t" and "ft_remove fid t = Def (sig, t')"
  then have t': "t' = t\<lparr> ft_faces := filter (\<lambda>(k, _). k \<noteq> fid) (ft_faces t) \<rparr>"
    by (auto simp: ft_remove_def split: option.splits)
  have "map fst (filter (\<lambda>(k, _). k \<noteq> fid) xs) = filter (\<lambda>k. k \<noteq> fid) (map fst xs)" for xs :: "(face_id \<times> face) list"
    by (induction xs) auto
  then show ?thesis using inv by (auto simp: t' ft_inv_def sorted_wrt_filter)
qed

text \<open>Whatever face is added: either it was there already, or its id is new.\<close>

lemma ft_add_Def:
  assumes "ft_inv t" and "ft_add f t = Def (fid, sig, t')"
  shows "sig = None \<and> t' = t \<or>
    sig = Some (if fc_isValNetFace f then AfterValFaceAdd fid else AfterAdd fid) \<and> ft_inv t' \<and>
    ft_get fid t = None \<and> ft_get fid t' = Some (f\<lparr> fc_id := fid \<rparr>) \<and> (\<forall>k. k \<noteq> fid \<longrightarrow> ft_get k t' = ft_get k t)"
proof (cases "fc_id f = INVALID_FACEID \<or> ft_get (fc_id f) t = None")
  case True
  have last: "ft_lastFaceId t \<noteq> - 1"
  proof
    assume "ft_lastFaceId t = - 1"
    with True assms(2) show False by (auto simp: ft_add_def FACEID_RESERVED_MAX_def)
  qed
  show ?thesis by (rule ft_add_fresh [OF assms(1) True last]) (use assms(2) in auto)
next
  case False
  with assms(2) show ?thesis by (simp add: ft_add_def)
qed

lemma map_of_filter_key: "map_of (filter (\<lambda>(k, _). k \<noteq> a) xs) k = (if k = a then None else map_of xs k)"
  by (induction xs) auto

lemma ft_remove_Def:
  assumes "ft_remove fid t = Def (sig, t')"
  obtains f where "ft_get fid t = Some f" and "ft_get fid t' = None" and "\<And>k. k \<noteq> fid \<Longrightarrow> ft_get k t' = ft_get k t"
    and "sig = (if fc_isValNetFace f then BeforeValFaceRemove fid else BeforeRemove fid)"
  using assms by (auto simp: ft_remove_def ft_get_def map_of_filter_key split: option.splits)

lemma makeGeoface_sel [simp]:
  "fc_id makeGeoface = INVALID_FACEID" "fc_isGeoFace makeGeoface" "\<not> fc_isValNetFace makeGeoface"
  "fc_localUri makeGeoface = ''geoFace://''" "fc_scope makeGeoface = ScopeNonLocal"
  by (simp_all add: makeGeoface_def setMetric_def setGeoFace_def mkFace_def)

end
