(* ===== verification/Nfd_Scheduler.thy ===== *)
theory Nfd_Scheduler
  imports Val_Prelude
begin

text \<open>
  The event scheduler (\<open>src/ndn-cxx/ndn-cxx/util/scheduler.cpp\<close>, used through \<open>nfd::scheduler\<close>): a
  queue of events ordered by expiry time, events with equal times in the order of their scheduling.
  A callback is a value of a type parameter. The simulator's own event that wakes the scheduler is
  represented by the clock \<open>sc_now\<close>: \<open>executeEvent\<close> may run whenever the head of the queue has expired.
\<close>

section \<open>Model\<close>

record 'cb event_info =
  ev_id :: nat
  ev_expireTime :: int
  ev_callback :: 'cb

record 'cb scheduler =
  sc_now :: int
  sc_queue :: "'cb event_info list"
  sc_next :: nat

definition mkScheduler :: "'cb scheduler" where
  "mkScheduler = \<lparr> sc_now = 0, sc_queue = [], sc_next = 0 \<rparr>"

text \<open>Insertion into the \<open>std::multiset\<close> goes behind the elements that compare equal.\<close>

fun queue_insert :: "'cb event_info \<Rightarrow> 'cb event_info list \<Rightarrow> 'cb event_info list" where
  "queue_insert e [] = [e]"
| "queue_insert e (x # xs) = (if ev_expireTime e < ev_expireTime x then e # x # xs else x # queue_insert e xs)"

definition scheduleEvent :: "int \<Rightarrow> 'cb \<Rightarrow> 'cb scheduler \<Rightarrow> nat \<times> 'cb scheduler" where
  "scheduleEvent after cb s =
     (sc_next s,
      s\<lparr> sc_queue := queue_insert \<lparr> ev_id = sc_next s, ev_expireTime = sc_now s + after, ev_callback = cb \<rparr> (sc_queue s),
         sc_next := sc_next s + 1 \<rparr>)"

text \<open>\<open>cancelImpl\<close>: nothing happens for a default constructed id or an event that has expired.\<close>

definition cancelEvent :: "nat option \<Rightarrow> 'cb scheduler \<Rightarrow> 'cb scheduler" where
  "cancelEvent i s =
     (case i of None \<Rightarrow> s
      | Some k \<Rightarrow> if list_ex (\<lambda>e. ev_id e = k) (sc_queue s)
                  then s\<lparr> sc_queue := erase_first (\<lambda>e. ev_id e = k) (sc_queue s) \<rparr> else s)"

definition cancelAllEvents :: "'cb scheduler \<Rightarrow> 'cb scheduler" where
  "cancelAllEvents s = s\<lparr> sc_queue := [] \<rparr>"

text \<open>One round of the loop of \<open>executeEvent\<close>: the expired head is taken off the queue to be called.\<close>

definition takeExpired :: "'cb scheduler \<Rightarrow> ((nat \<times> 'cb) \<times> 'cb scheduler) option" where
  "takeExpired s =
     (case sc_queue s of [] \<Rightarrow> None
      | info # rest \<Rightarrow>
          if ev_expireTime info > sc_now s then None
          else Some ((ev_id info, ev_callback info), s\<lparr> sc_queue := rest \<rparr>))"

definition sc_advance :: "int \<Rightarrow> 'cb scheduler \<Rightarrow> 'cb scheduler" where
  "sc_advance t s = s\<lparr> sc_now := max (sc_now s) t \<rparr>"

definition sc_inv :: "'cb scheduler \<Rightarrow> bool" where
  "sc_inv s \<longleftrightarrow> sorted (map ev_expireTime (sc_queue s)) \<and> distinct (map ev_id (sc_queue s)) \<and>
     (\<forall>e\<in>set (sc_queue s). ev_id e < sc_next s)"

section \<open>The contract of a timer service\<close>

locale timer_service =
  fixes invar :: "'s \<Rightarrow> bool"
    and now :: "'s \<Rightarrow> int"
    and pending :: "'s \<Rightarrow> nat \<Rightarrow> (int \<times> 'cb) option"
    and schedule :: "int \<Rightarrow> 'cb \<Rightarrow> 's \<Rightarrow> nat \<times> 's"
    and cancel :: "nat option \<Rightarrow> 's \<Rightarrow> 's"
    and fire :: "'s \<Rightarrow> ((nat \<times> 'cb) \<times> 's) option"
  assumes schedule_fresh: "invar s \<Longrightarrow> schedule d cb s = (i, s') \<Longrightarrow> pending s i = None"
    and schedule_pending: "invar s \<Longrightarrow> schedule d cb s = (i, s') \<Longrightarrow>
      invar s' \<and> now s' = now s \<and> pending s' = (pending s)(i \<mapsto> (now s + d, cb))"
    and cancel_pending: "invar s \<Longrightarrow> invar (cancel (Some i) s) \<and> now (cancel (Some i) s) = now s \<and>
      pending (cancel (Some i) s) = (pending s)(i := None)"
    and cancel_default: "cancel None s = s"
    and fire_pending: "invar s \<Longrightarrow> fire s = Some ((i, cb), s') \<Longrightarrow>
      (\<exists>t. pending s i = Some (t, cb) \<and> t \<le> now s \<and> (\<forall>j u cb'. pending s j = Some (u, cb') \<longrightarrow> t \<le> u)) \<and>
      invar s' \<and> now s' = now s \<and> pending s' = (pending s)(i := None)"
    and fire_none: "invar s \<Longrightarrow> fire s = None \<Longrightarrow> pending s j = Some (u, cb') \<Longrightarrow> now s < u"
begin

lemma cancelled_never_fires:
  assumes "invar s" and "fire (cancel (Some i) s) = Some ((j, cb), s')"
  shows "j \<noteq> i" and "pending s j \<noteq> None"
  using cancel_pending [OF assms(1), of i] fire_pending [of "cancel (Some i) s" j cb s'] assms(2)
  by (auto split: if_splits)

lemma cancel_other: "invar s \<Longrightarrow> j \<noteq> i \<Longrightarrow> pending (cancel (Some i) s) j = pending s j"
  using cancel_pending [of s i] by simp

lemma fires_once:
  assumes "invar s" and "fire s = Some ((i, cb), s')"
  shows "pending s' i = None"
  using fire_pending [OF assms] by simp

lemma fires_in_order:
  assumes "invar s" and "fire s = Some ((i, cb), s1)" and "fire s1 = Some ((j, cb'), s2)"
  shows "\<exists>t u. pending s i = Some (t, cb) \<and> pending s j = Some (u, cb') \<and> t \<le> u \<and> i \<noteq> j"
proof -
  from fire_pending [OF assms(1,2)] obtain t where
    t: "pending s i = Some (t, cb)" "\<forall>j u cb'. pending s j = Some (u, cb') \<longrightarrow> t \<le> u"
    and s1: "invar s1" "pending s1 = (pending s)(i := None)" by blast
  from fire_pending [OF s1(1) assms(3)] obtain u where "pending s1 j = Some (u, cb')" by blast
  with t s1(2) show ?thesis by (auto split: if_splits)
qed

end

section \<open>The scheduler is a timer service\<close>

definition sc_pending :: "'cb scheduler \<Rightarrow> nat \<Rightarrow> (int \<times> 'cb) option" where
  "sc_pending s i = map_option (\<lambda>e. (ev_expireTime e, ev_callback e)) (List.find (\<lambda>e. ev_id e = i) (sc_queue s))"

lemma set_queue_insert [simp]: "set (queue_insert e xs) = insert e (set xs)"
  by (induction xs) auto

lemma sorted_queue_insert:
  "sorted (map ev_expireTime xs) \<Longrightarrow> sorted (map ev_expireTime (queue_insert e xs))"
  by (induction xs) auto

lemma distinct_queue_insert:
  "distinct (map ev_id (queue_insert e xs)) \<longleftrightarrow> ev_id e \<notin> ev_id ` set xs \<and> distinct (map ev_id xs)"
  by (induction xs) auto

lemma find_queue_insert:
  "ev_id e \<notin> ev_id ` set xs \<Longrightarrow>
     List.find (\<lambda>x. ev_id x = i) (queue_insert e xs) = (if i = ev_id e then Some e else List.find (\<lambda>x. ev_id x = i) xs)"
  by (induction xs) auto

lemma find_erase_id:
  "distinct (map ev_id xs) \<Longrightarrow>
     List.find (\<lambda>x. ev_id x = j) (erase_first (\<lambda>x. ev_id x = i) xs) = (if j = i then None else List.find (\<lambda>x. ev_id x = j) xs)"
proof (induction xs)
  case (Cons x xs)
  have "ev_id y \<noteq> ev_id x" if "y \<in> set xs" for y
    using Cons.prems that by (metis distinct.simps(2) image_eqI list.simps(9) set_map)
  then have "List.find (\<lambda>y. ev_id y = ev_id x) xs = None" by (auto simp: find_None_iff)
  with Cons show ?case by auto
qed simp

lemma sorted_erase_first:
  "sorted (map f xs) \<Longrightarrow> sorted (map f (erase_first P xs))"
proof (induction xs)
  case (Cons x xs)
  then show ?case using set_erase_first [of P xs] by (simp add: subset_iff)
qed simp

lemma cancelEvent_eq: "cancelEvent (Some i) s = s\<lparr> sc_queue := erase_first (\<lambda>e. ev_id e = i) (sc_queue s) \<rparr>"
  by (auto simp: cancelEvent_def list_ex_iff)

lemma sc_pending_SomeD: "sc_pending s j = Some (u, cb) \<Longrightarrow> \<exists>e\<in>set (sc_queue s). ev_expireTime e = u"
  by (auto simp: sc_pending_def dest!: find_SomeD)

lemma sc_inv_head_min:
  assumes "sc_inv s" and "sc_queue s = e # es" and "sc_pending s j = Some (u, cb)"
  shows "ev_expireTime e \<le> u"
  using sc_pending_SomeD [OF assms(3)] assms(1,2) by (auto simp: sc_inv_def)

interpretation scheduler: timer_service sc_inv sc_now sc_pending scheduleEvent cancelEvent takeExpired
proof unfold_locales
  fix s :: "'cb scheduler" and d cb i s' assume inv: "sc_inv s" and eq: "scheduleEvent d cb s = (i, s')"
  then have fresh: "sc_next s \<notin> ev_id ` set (sc_queue s)" by (auto simp: sc_inv_def)
  with eq show "sc_pending s i = None"
    by (auto simp: scheduleEvent_def sc_pending_def find_None_iff image_iff)
  show "sc_inv s' \<and> sc_now s' = sc_now s \<and> sc_pending s' = (sc_pending s)(i \<mapsto> (sc_now s + d, cb))"
    using inv eq fresh
    by (auto simp: scheduleEvent_def sc_inv_def sc_pending_def fun_eq_iff sorted_queue_insert
        distinct_queue_insert find_queue_insert less_Suc_eq)
next
  fix s :: "'cb scheduler" and i assume "sc_inv s"
  then show "sc_inv (cancelEvent (Some i) s) \<and> sc_now (cancelEvent (Some i) s) = sc_now s \<and>
      sc_pending (cancelEvent (Some i) s) = (sc_pending s)(i := None)"
    by (auto simp: cancelEvent_eq sc_inv_def sc_pending_def fun_eq_iff find_erase_id sorted_erase_first
        distinct_erase_first dest: subsetD [OF set_erase_first])
next
  fix s :: "'cb scheduler" and i cb s' assume inv: "sc_inv s" and fire: "takeExpired s = Some ((i, cb), s')"
  then obtain e es where q: "sc_queue s = e # es" "ev_expireTime e \<le> sc_now s" "i = ev_id e" "cb = ev_callback e"
    "s' = s\<lparr> sc_queue := es \<rparr>"
    by (auto simp: takeExpired_def split: list.splits if_splits)
  have min: "ev_expireTime e \<le> u" if "sc_pending s j = Some (u, cb')" for j u cb'
    using sc_inv_head_min [OF inv q(1) that] .
  have "sc_pending s i = Some (ev_expireTime e, cb)" by (simp add: sc_pending_def q)
  moreover have "sc_pending s' = (sc_pending s)(i := None)"
    using inv q by (auto simp: sc_pending_def sc_inv_def fun_eq_iff find_None_iff image_iff)
  moreover have "sc_inv s'" "sc_now s' = sc_now s" using inv q by (simp_all add: sc_inv_def)
  ultimately show "(\<exists>t. sc_pending s i = Some (t, cb) \<and> t \<le> sc_now s \<and> (\<forall>j u cb'. sc_pending s j = Some (u, cb') \<longrightarrow> t \<le> u)) \<and>
      sc_inv s' \<and> sc_now s' = sc_now s \<and> sc_pending s' = (sc_pending s)(i := None)"
    using q(2) min by blast
next
  fix s :: "'cb scheduler" and j u cb' assume inv: "sc_inv s" and no: "takeExpired s = None" and j: "sc_pending s j = Some (u, cb')"
  show "sc_now s < u"
  proof (cases "sc_queue s")
    case Nil
    with j show ?thesis by (simp add: sc_pending_def)
  next
    case (Cons e es)
    with no have "sc_now s < ev_expireTime e" by (simp add: takeExpired_def split: if_splits)
    with sc_inv_head_min [OF inv Cons j] show ?thesis by simp
  qed
qed (simp add: cancelEvent_def)

end
