(* ===== verification/Val_Forwarder.thy ===== *)
theory Val_Forwarder
  imports Val_Strategy Val_Pft Nfd_Face Nfd_Scheduler
begin

text \<open>
  \<open>ValForwarder\<close> (\<open>src/model/val/fw/val-forwarder.cpp\<close>): VAL's forwarding plane. Every handler takes
  the forwarder's state and returns the new state with the calls it makes to the outside, in order:
  packets handed to NFD through a geo-face and packets handed to the radio. The calls into NFD are the
  last effect of the handlers that make them, so the calls that NFD makes back to VAL see the returned
  state. Dereferencing a null face or list pointer is \<open>Undef\<close>.
\<close>

section \<open>State\<close>

text \<open>The callbacks that VAL registers with the scheduler capture a PFT entry and the outgoing face.\<close>

datatype val_timer = ForwardingTimer ptr face_id | ImpAckTimer ptr face_id

record val_fwd =
  vf_faceTable :: face_table
  vf_ifnt :: ifnt
  vf_dfnt :: dfnt
  vf_pft :: pft
  vf_f2a :: f2a
  vf_networkFaces :: "face_id list"
  vf_invalidIN :: u32
  vf_sched :: "val_timer scheduler"

datatype val_action =
    SendInterestToForwarder face_id interest
  | SendDataToForwarder face_id data
  | SendValPacket face_id val_packet

type_synonym val_result = "(val_fwd \<times> val_action list) outcome"

text \<open>The methods of \<open>Face\<close> that VAL calls; a face that is not of the right kind ignores the packet.\<close>

definition sendInterestToForwarder :: "interest \<Rightarrow> face \<Rightarrow> val_action list" where
  "sendInterestToForwarder i f = (if fc_isGeoFace f then [SendInterestToForwarder (fc_id f) i] else [])"

definition sendDataToForwarder :: "data \<Rightarrow> face \<Rightarrow> val_action list" where
  "sendDataToForwarder d f = (if fc_isGeoFace f then [SendDataToForwarder (fc_id f) d] else [])"

definition face_sendValPacket :: "val_packet \<Rightarrow> face \<Rightarrow> val_action list" where
  "face_sendValPacket pkt f = (if fc_isValNetFace f then [SendValPacket (fc_id f) pkt] else [])"

section \<open>Network faces\<close>

definition addToNetworkFaceList :: "face_id \<Rightarrow> val_fwd \<Rightarrow> val_fwd" where
  "addToNetworkFaceList fid s = s\<lparr> vf_networkFaces := vf_networkFaces s @ [fid] \<rparr>"

definition removeFromNetworkFaceList :: "face_id \<Rightarrow> val_fwd \<Rightarrow> val_fwd" where
  "removeFromNetworkFaceList fid s = s\<lparr> vf_networkFaces := erase_first (\<lambda>x. x = fid) (vf_networkFaces s) \<rparr>"

definition cleanupOnFaceRemoval :: "face_id \<Rightarrow> val_fwd \<Rightarrow> val_fwd" where
  "cleanupOnFaceRemoval fid s = removeFromNetworkFaceList fid s"

text \<open>The slots that the constructor connects to the signals of the face table.\<close>

definition onFaceSignal :: "face_signal option \<Rightarrow> val_fwd \<Rightarrow> val_fwd" where
  "onFaceSignal sig s =
     (case sig of
        Some (AfterValFaceAdd fid) \<Rightarrow> addToNetworkFaceList fid s
      | Some (BeforeValFaceRemove fid) \<Rightarrow> cleanupOnFaceRemoval fid s
      | _ \<Rightarrow> s)"

definition getNetworkFace :: "face_id \<Rightarrow> val_fwd \<Rightarrow> face option" where
  "getNetworkFace fid s =
     (if list_ex (\<lambda>x. x = fid \<and> list_ex (\<lambda>(k, f). fc_id f = fid) (ft_faces (vf_faceTable s))) (vf_networkFaces s)
      then map_option snd (List.find (\<lambda>(k, f). fc_id f = fid) (ft_faces (vf_faceTable s))) else None)"

fun other_face_loop :: "face_id \<Rightarrow> (face_id \<times> face) list \<Rightarrow> face_id list \<Rightarrow> face option" where
  "other_face_loop fid faces [] = None"
| "other_face_loop fid faces (x # xs) =
     (if x \<noteq> fid then
        (case List.find (\<lambda>(k, f). fc_id f = x) faces of
           Some (k, f) \<Rightarrow> Some f
         | None \<Rightarrow> other_face_loop fid faces xs)
      else other_face_loop fid faces xs)"

definition getOtherNetworkFace :: "face_id \<Rightarrow> val_fwd \<Rightarrow> face option" where
  "getOtherNetworkFace fid s = other_face_loop fid (ft_faces (vf_faceTable s)) (vf_networkFaces s)"

section \<open>Geo-faces\<close>

text \<open>Adding a face through L3Protocol and the forwarder ends in the face table.\<close>

definition l3_addFace :: "face \<Rightarrow> val_fwd \<Rightarrow> (face_id \<times> val_fwd) outcome" where
  "l3_addFace f s =
     bindU (ft_add f (vf_faceTable s)) (\<lambda>(fid, sig, t).
       Def (fid, onFaceSignal sig (s\<lparr> vf_faceTable := t \<rparr>)))"

definition l3_removeFace :: "face_id \<Rightarrow> val_fwd \<Rightarrow> val_fwd outcome" where
  "l3_removeFace fid s =
     bindU (ft_remove fid (vf_faceTable s)) (\<lambda>(sig, t). Def (onFaceSignal (Some sig) (s\<lparr> vf_faceTable := t \<rparr>)))"

text \<open>The half of \<open>makeGeoFaceFromValHeader\<close> for one area; face ids pass through \<open>uint32_t\<close>.\<close>

definition geoFaceForArea :: "string \<Rightarrow> val_fwd \<Rightarrow> (u32 \<times> val_fwd) outcome" where
  "geoFaceForArea area s =
     (case f2a_findByGeoArea area (vf_f2a s) of
        Some e \<Rightarrow> Def (ucast (f2a_faceId e), s)
      | None \<Rightarrow>
          bindU (l3_addFace makeGeoface s) (\<lambda>(fid, s').
            let faceID = (ucast fid :: u32) in
            Def (faceID, s'\<lparr> vf_f2a := f2a_addEntry \<lparr> f2a_faceId = ucast faceID, f2a_geoArea = area \<rparr> (vf_f2a s') \<rparr>)))"

definition makeGeoFaceFromValHeader :: "val_header \<Rightarrow> val_fwd \<Rightarrow> ((u32 \<times> u32) \<times> val_fwd) outcome" where
  "makeGeoFaceFromValHeader h s =
     bindU (geoFaceForArea (h_SA h) s) (\<lambda>(faceID_SA, s1).
     bindU (geoFaceForArea (h_DA h) s1) (\<lambda>(faceID_DA, s2).
       Def ((faceID_SA, faceID_DA), s2)))"

text \<open>The constructor; the default route it puts into the FIB is returned as the flood face's id.\<close>

definition mkValForwarder :: "face_table \<Rightarrow> (face_id \<times> val_fwd) outcome" where
  "mkValForwarder ft =
     bindU (l3_addFace makeGeoface
       \<lparr> vf_faceTable = ft, vf_ifnt = mkIfnt, vf_dfnt = mkDfnt, vf_pft = mkPFT, vf_f2a = mkF2A,
         vf_networkFaces = [], vf_invalidIN = 0, vf_sched = mkScheduler \<rparr>) (\<lambda>(fid, s).
       Def (fid, s\<lparr> vf_f2a := f2a_addEntry \<lparr> f2a_faceId = fid, f2a_geoArea = ''0'' \<rparr> (vf_f2a s) \<rparr>))"

section \<open>Timers\<close>

definition val_schedule :: "int \<Rightarrow> val_timer \<Rightarrow> ptr \<Rightarrow> val_fwd \<Rightarrow> val_fwd" where
  "val_schedule duration cb p s =
     (let (tid, sc) = scheduleEvent duration cb (vf_sched s) in
      s\<lparr> vf_sched := sc, vf_pft := pft_modify p (setTimer tid) (vf_pft s) \<rparr>)"

definition val_cancel :: "ptr \<Rightarrow> val_fwd \<Rightarrow> val_fwd" where
  "val_cancel p s =
     s\<lparr> vf_sched := cancelEvent (Option.bind (pft_heap (vf_pft s) p) pe_timer) (vf_sched s) \<rparr>"

definition registerOutgoingValPacket :: "face_id \<Rightarrow> val_packet \<Rightarrow> int \<Rightarrow> val_fwd \<Rightarrow> val_fwd" where
  "registerOutgoingValPacket outFaceId pkt duration s =
     (let ((new, p), t) = pft_addEntry (mkPftEntry pkt outFaceId) (vf_pft s); s' = s\<lparr> vf_pft := t \<rparr> in
      if new then val_schedule duration (ForwardingTimer p outFaceId) p s' else s')"

definition pft_remove :: "val_packet \<Rightarrow> val_fwd \<Rightarrow> val_fwd" where
  "pft_remove pkt s = s\<lparr> vf_pft := snd (pft_removeEntry pkt (vf_pft s)) \<rparr>"

definition forwardingTimerCallback :: "ptr \<Rightarrow> face_id \<Rightarrow> val_fwd \<Rightarrow> val_result" where
  "forwardingTimerCallback p outFaceId s =
     (case pft_heap (vf_pft s) p of None \<Rightarrow> Undef NullDereference
      | Some e \<Rightarrow>
          if pe_state e \<noteq> WAITING_FORWARDING then Def (s, [])
          else
            (case ft_get outFaceId (vf_faceTable s) of None \<Rightarrow> Undef NullDereference
             | Some outFace \<Rightarrow>
                 if fc_isValNetFace outFace then
                   let s1 = s\<lparr> vf_pft := pft_modify p (snd \<circ> changeStateToWaintingImpAck) (vf_pft s) \<rparr>;
                       s2 = val_schedule (getDefaultImpAckTimerDuration e * 1000000) (ImpAckTimer p outFaceId) p s1;
                       s3 = (if vp_isSet (pe_pkt e) = DATA_SET \<and> h_hopC (vp_valH (pe_pkt e)) \<le> 2
                             then pft_remove (pe_pkt e) (val_cancel p s2) else s2)
                   in Def (s3, face_sendValPacket (pe_pkt e) outFace)
                 else Def (s, [])))"

definition impAckTimerCallback :: "ptr \<Rightarrow> face_id \<Rightarrow> val_fwd \<Rightarrow> val_result" where
  "impAckTimerCallback p outFaceId s =
     (case pft_heap (vf_pft s) p of None \<Rightarrow> Undef NullDereference
      | Some e \<Rightarrow>
          if pe_state e \<noteq> WAITING_IMPLICIT_ACK then Def (s, [])
          else
            (case ft_get outFaceId (vf_faceTable s) of None \<Rightarrow> Undef NullDereference
             | Some outFace \<Rightarrow>
                 if fc_isValNetFace outFace then
                   let e' = snd (oneLessTry e);
                       s1 = s\<lparr> vf_pft := pft_modify p (snd \<circ> oneLessTry) (vf_pft s) \<rparr>;
                       s2 = (if pe_tries e' > 0
                             then val_schedule (getDefaultImpAckTimerDuration e' * 1000000) (ImpAckTimer p outFaceId) p s1
                             else pft_remove (pe_pkt e') s1)
                   in Def (s2, face_sendValPacket (pe_pkt e) outFace)
                 else Def (s, [])))"

section \<open>Packets from the network\<close>

definition preProcessingValPacket :: "val_packet \<Rightarrow> val_fwd \<Rightarrow> bool \<times> val_fwd" where
  "preProcessingValPacket pkt s =
     (case pft_findMatch pkt (vf_pft s) of None \<Rightarrow> (True, s)
      | Some p \<Rightarrow>
          (False,
           case pft_heap (vf_pft s) p of None \<Rightarrow> s
           | Some e \<Rightarrow>
               let mine = uint (h_hopC (vp_valH (pe_pkt e))); theirs = uint (h_hopC (vp_valH pkt)) in
               if pe_state e = WAITING_FORWARDING then
                 (if mine = theirs then
                    let s1 = val_cancel p s;
                        s2 = s1\<lparr> vf_pft := pft_modify p (snd \<circ> changeStateToWaintingImpAck) (vf_pft s1) \<rparr>
                    in if vp_isSet (pe_pkt e) = DATA_SET then pft_remove pkt s2 else s2
                  else s)
               else if pe_state e = WAITING_IMPLICIT_ACK then
                 (if mine - 1 = theirs \<or> (vp_isSet (pe_pkt e) = DATA_SET \<and> mine = theirs) then
                    let s1 = val_cancel p s in
                    if vp_isSet (pe_pkt e) = DATA_SET then pft_remove pkt s1 else s1
                  else s)
               else s))"

definition isEscapedPacket :: "val_header \<Rightarrow> bool" where
  "isEscapedPacket h = False"

definition processInterestFromNetwork :: "face_id \<Rightarrow> val_header \<Rightarrow> interest \<Rightarrow> val_fwd \<Rightarrow> val_result" where
  "processInterestFromNetwork inFace h i s =
     (if isEscapedPacket h then Def (s, [])
      else
        let (added, t) = ifnt_addEntry (mkIfntEntry h i inFace) (vf_ifnt s); s1 = s\<lparr> vf_ifnt := t \<rparr> in
        if added then
          bindU (makeGeoFaceFromValHeader h s1) (\<lambda>((sa, da), s2).
            let i' = (if h_DA h \<noteq> ''0'' then i\<lparr> in_nextHopFaceId := Some (ucast da) \<rparr> else i) in
            case ft_get (ucast sa) (vf_faceTable s2) of
              None \<Rightarrow> Def (s2, [])
            | Some g \<Rightarrow> Def (s2, sendInterestToForwarder i' g))
        else Def (s1, []))"

definition processDataFromNetwork :: "face_id \<Rightarrow> val_header \<Rightarrow> data \<Rightarrow> val_fwd \<Rightarrow> val_result" where
  "processDataFromNetwork inFace h d s =
     (let s1 = s\<lparr> vf_dfnt := dfnt_addEntry (mkDfntEntry h d inFace) (vf_dfnt s) \<rparr> in
      bindU (makeGeoFaceFromValHeader h s1) (\<lambda>((sa, da), s2).
        case ft_get (ucast sa) (vf_faceTable s2) of
          None \<Rightarrow> Def (s2, [])
        | Some g \<Rightarrow> Def (s2, sendDataToForwarder d g)))"

definition onReceivedValPacket :: "face_id \<Rightarrow> val_packet \<Rightarrow> val_fwd \<Rightarrow> val_result" where
  "onReceivedValPacket inFace pkt s =
     (let (fresh, s1) = preProcessingValPacket pkt s in
      if \<not> fresh then Def (s1, [])
      else if vp_isSet pkt = INTEREST_SET then
        bindU (getInterest pkt) (\<lambda>i. processInterestFromNetwork inFace (vp_valH pkt) i s1)
      else if vp_isSet pkt = DATA_SET then
        bindU (getData pkt) (\<lambda>d. processDataFromNetwork inFace (vp_valH pkt) d s1)
      else Def (s1\<lparr> vf_invalidIN := vf_invalidIN s1 + 1 \<rparr>, []))"

section \<open>Packets from NFD\<close>

text \<open>The strategy's \<open>sendValPacket\<close> registers the packet.\<close>

definition val_send :: "send_request option outcome \<Rightarrow> val_fwd \<Rightarrow> val_fwd outcome" where
  "val_send r s =
     bindU r (\<lambda>req. Def (case req of None \<Rightarrow> s | Some (out, pkt, time) \<Rightarrow> registerOutgoingValPacket out pkt time s))"

definition reveiceInterest :: "ns3_env \<Rightarrow> face_id \<Rightarrow> interest \<Rightarrow> val_fwd \<Rightarrow> val_fwd outcome" where
  "reveiceInterest env geoface i s =
     (case ifnt_findMatchByNonce (in_nonce i) (vf_ifnt s) of
        Some e \<Rightarrow> val_send (doAfterIfntHit env (vf_f2a s) geoface e i) s
      | None \<Rightarrow> val_send (doAfterIfntMiss env (vf_f2a s) (vf_networkFaces s) geoface i) s)"

definition getCongestionMark :: "data \<Rightarrow> u64" where
  "getCongestionMark d = (case d_congestionMark d of None \<Rightarrow> 0 | Some m \<Rightarrow> m)"

text \<open>The block of \<open>reveiceData\<close> that cancels and removes the pending Interests that the Data answers.\<close>

definition cancelPendingInterests :: "nonce list \<Rightarrow> val_fwd \<Rightarrow> val_fwd" where
  "cancelPendingInterests ns s =
     (let pendingInterests = pft_findMatchByNonceList ns (vf_pft s);
          s' = fold val_cancel pendingInterests s in
      s'\<lparr> vf_pft := pft_removeEntriesByMatchList pendingInterests (vf_pft s') \<rparr>)"

definition dfnt_drop :: "dfnt_entry \<Rightarrow> val_fwd \<Rightarrow> val_fwd" where
  "dfnt_drop e s = s\<lparr> vf_dfnt := snd (dfnt_removeEntry e (vf_dfnt s)) \<rparr>"

definition reveiceData :: "ns3_env \<Rightarrow> face_id \<Rightarrow> data \<Rightarrow> nonce list option \<Rightarrow> bool \<Rightarrow> val_fwd \<Rightarrow> val_fwd outcome" where
  "reveiceData env geoface d nonceList isProducer s =
     (if getCongestionMark d = 501 then
        Def (case dfnt_findMatch (d_signature d) (vf_dfnt s) of
               None \<Rightarrow> s
             | Some e \<Rightarrow> dfnt_drop e s)
      else
        case nonceList of None \<Rightarrow> Undef NullDereference
        | Some ns \<Rightarrow>
            let ifntEntriesList = ifnt_findMatchByNonceList ns (vf_ifnt s);
                s1 = s\<lparr> vf_ifnt := ifnt_removeEntriesByNonceList ns (vf_ifnt s) \<rparr> in
            (case dfnt_findMatch (d_signature d) (vf_dfnt s1) of
               Some e \<Rightarrow>
                 if \<not> isProducer then
                   let s2 = dfnt_drop e (cancelPendingInterests ns s1) in
                   if getCongestionMark d \<noteq> 500
                   then val_send (doAfterDfntHit env geoface e ifntEntriesList d) s2
                   else Def s2
                 else
                   bindU (val_send (doAfterDfntMiss env (vf_f2a s1) (vf_networkFaces s1) geoface d ifntEntriesList isProducer) s1) (\<lambda>s2.
                     Def (dfnt_drop e s2))
             | None \<Rightarrow>
                 val_send (doAfterDfntMiss env (vf_f2a s1) (vf_networkFaces s1) geoface d ifntEntriesList isProducer) s1))"

section \<open>Running\<close>

text \<open>The scheduler calls the callback of an expired event.\<close>

definition fireTimer :: "val_fwd \<Rightarrow> val_result" where
  "fireTimer s =
     (case takeExpired (vf_sched s) of None \<Rightarrow> Def (s, [])
      | Some ((tid, ForwardingTimer p out), sc) \<Rightarrow> forwardingTimerCallback p out (s\<lparr> vf_sched := sc \<rparr>)
      | Some ((tid, ImpAckTimer p out), sc) \<Rightarrow> impAckTimerCallback p out (s\<lparr> vf_sched := sc \<rparr>))"

datatype val_event =
    NetPacket face_id val_packet
  | NfdInterest ns3_env face_id interest
  | NfdData ns3_env face_id data "nonce list option" bool
  | AddFace face
  | RemoveFace face_id
  | Tick int
  | Timer

definition val_step :: "val_event \<Rightarrow> val_fwd \<Rightarrow> val_result" where
  "val_step ev s =
     (case ev of
        NetPacket f pkt \<Rightarrow> onReceivedValPacket f pkt s
      | NfdInterest env g i \<Rightarrow> bindU (reveiceInterest env g i s) (\<lambda>s'. Def (s', []))
      | NfdData env g d ns isProducer \<Rightarrow> bindU (reveiceData env g d ns isProducer s) (\<lambda>s'. Def (s', []))
      | AddFace f \<Rightarrow> bindU (l3_addFace f s) (\<lambda>(fid, s'). Def (s', []))
      | RemoveFace fid \<Rightarrow> bindU (l3_removeFace fid s) (\<lambda>s'. Def (s', []))
      | Tick t \<Rightarrow> Def (s\<lparr> vf_sched := sc_advance t (vf_sched s) \<rparr>, [])
      | Timer \<Rightarrow> fireTimer s)"

end
