(* ===== verification/Val_Runs.thy ===== *)
theory Val_Runs
  imports Val_Forwarder
begin

text \<open>
  Runs of the VAL forwarder: the invariant that ties the PFT entries to the pending events of the
  scheduler, its preservation by every handler, and what it gives for whole runs: the number of times a
  packet is transmitted, and that cancelling an entry's timer silences it.
\<close>

section \<open>Timers and entries\<close>

fun timer_ptr :: "val_timer \<Rightarrow> ptr" where
  "timer_ptr (ForwardingTimer p out) = p"
| "timer_ptr (ImpAckTimer p out) = p"

definition entry_ok :: "pft_entry \<Rightarrow> bool" where
  "entry_ok e \<longleftrightarrow> pe_state e = WAITING_FORWARDING \<or>
     pe_state e = WAITING_IMPLICIT_ACK \<and> 0 \<le> pe_tries e \<and> pe_tries e \<le> MAX_IMPLICIT_ACK_TRIES"

definition timer_ok :: "val_timer \<Rightarrow> pft_entry \<Rightarrow> bool" where
  "timer_ok cb e = (case cb of
      ForwardingTimer p out \<Rightarrow> pe_state e = WAITING_FORWARDING
    | ImpAckTimer p out \<Rightarrow> pe_state e = WAITING_IMPLICIT_ACK \<and> 0 < pe_tries e)"

text \<open>Every pending event belongs to an entry that knows it and is in the state the event is for.\<close>

definition timers_inv :: "pft \<Rightarrow> val_timer scheduler \<Rightarrow> bool" where
  "timers_inv t sc \<longleftrightarrow> pft_inv t \<and> sc_inv sc \<and> (\<forall>p e. pft_heap t p = Some e \<longrightarrow> entry_ok e) \<and>
     (\<forall>tid d cb. sc_pending sc tid = Some (d, cb) \<longrightarrow>
        (\<exists>e. pft_heap t (timer_ptr cb) = Some e \<and> pe_timer e = Some tid \<and> timer_ok cb e))"

definition idle :: "ptr \<Rightarrow> val_timer scheduler \<Rightarrow> bool" where
  "idle p sc \<longleftrightarrow> (\<forall>tid d cb. sc_pending sc tid = Some (d, cb) \<longrightarrow> timer_ptr cb \<noteq> p)"

text \<open>How many transmissions an entry has left.\<close>

definition budget :: "ptr \<Rightarrow> pft \<Rightarrow> nat" where
  "budget p t = (case pft_heap t p of
      None \<Rightarrow> 4
    | Some e \<Rightarrow> if pe_state e = WAITING_FORWARDING then 4 else nat (pe_tries e))"

lemma state_neq [simp]: "WAITING_FORWARDING \<noteq> WAITING_IMPLICIT_ACK" "WAITING_IMPLICIT_ACK \<noteq> WAITING_FORWARDING"
  by (simp_all add: WAITING_FORWARDING_def WAITING_IMPLICIT_ACK_def)

lemma timers_invD:
  assumes "timers_inv t sc"
  shows "pft_inv t" and "sc_inv sc" and "pft_heap t p = Some e \<Longrightarrow> entry_ok e"
    and "sc_pending sc tid = Some (d, cb) \<Longrightarrow>
      \<exists>e. pft_heap t (timer_ptr cb) = Some e \<and> pe_timer e = Some tid \<and> timer_ok cb e"
  using assms by (auto simp: timers_inv_def)

lemma sc_inv_cancel [table_inv]: "sc_inv sc \<Longrightarrow> sc_inv (cancelEvent i sc)"
  by (cases i) (simp_all add: scheduler.cancel_pending scheduler.cancel_default)

lemma sc_pending_cancel:
  "sc_inv sc \<Longrightarrow> sc_pending (cancelEvent i sc) j = (if i = Some j then None else sc_pending sc j)"
  by (cases i) (auto simp: scheduler.cancel_pending scheduler.cancel_default)

lemma timers_inv_cancel [table_inv]: "timers_inv t sc \<Longrightarrow> timers_inv t (cancelEvent i sc)"
  by (auto simp: timers_inv_def sc_inv_cancel sc_pending_cancel split: if_splits)

lemma idle_cancel_other: "timers_inv t sc \<Longrightarrow> idle p sc \<Longrightarrow> idle p (cancelEvent i sc)"
  by (auto simp: idle_def sc_pending_cancel timers_invD split: if_splits)

lemma idle_cancel:
  assumes "timers_inv t sc" and "pft_heap t p = Some e"
  shows "idle p (cancelEvent (pe_timer e) sc)"
  using assms timers_invD(2) [OF assms(1)] timers_invD(4) [OF assms(1)]
  by (fastforce simp: idle_def sc_pending_cancel split: if_splits)

lemma timers_inv_remove [table_inv]: "timers_inv t sc \<Longrightarrow> timers_inv (snd (pft_removeEntry pkt t)) sc"
  by (auto simp: timers_inv_def table_simps table_inv)

lemma timers_inv_modify:
  assumes "timers_inv t sc" and "idle p sc"
    and "\<And>e. pft_heap t p = Some e \<Longrightarrow> pe_pkt (f e) = pe_pkt e \<and> (entry_ok e \<longrightarrow> entry_ok (f e))"
  shows "timers_inv (pft_modify p f t) sc"
  using assms timers_invD [OF assms(1)]
  by (auto simp: timers_inv_def idle_def pft_modify_def intro!: pft_inv_modify [unfolded pft_modify_def])

lemma timers_inv_schedule:
  assumes "timers_inv t sc" and "idle p sc" and "pft_heap t p = Some e"
    and "timer_ok cb e" and "timer_ptr cb = p" and "scheduleEvent d cb sc = (tid, sc')"
  shows "timers_inv (pft_modify p (setTimer tid) t) sc'"
proof -
  note sp = scheduler.schedule_pending [OF timers_invD(2) [OF assms(1)] assms(6)]
  have m: "timers_inv (pft_modify p (setTimer tid) t) sc"
    by (rule timers_inv_modify [OF assms(1,2)]) (simp_all add: setTimer_def entry_ok_def)
  have ok: "timer_ok cb (setTimer tid e)" using assms(4) by (simp add: timer_ok_def setTimer_def split: val_timer.splits)
  show ?thesis
    unfolding timers_inv_def
  proof (intro conjI allI impI)
    fix i u cb' assume i: "sc_pending sc' i = Some (u, cb')"
    show "\<exists>e. pft_heap (pft_modify p (setTimer tid) t) (timer_ptr cb') = Some e \<and> pe_timer e = Some i \<and> timer_ok cb' e"
    proof (cases "i = tid")
      case True
      with i sp ok assms(3,5) show ?thesis by (simp add: pft_modify_def setTimer_def)
    next
      case False
      with i sp show ?thesis using timers_invD(4) [OF m, of i u cb'] by simp
    qed
  qed (use m sp in \<open>auto simp: timers_inv_def\<close>)
qed

lemma idle_fresh: "timers_inv t sc \<Longrightarrow> pft_heap t p = None \<Longrightarrow> idle p sc"
  by (fastforce simp: timers_inv_def idle_def)

lemma timers_inv_add:
  assumes "timers_inv t sc"
  shows "timers_inv (snd (pft_addEntry (mkPftEntry pkt f) t)) sc"
proof (cases "pft_findMatch pkt t")
  case None
  let ?t = "snd (pft_addEntry (mkPftEntry pkt f) t)"
  have h: "pft_heap ?t = (pft_heap t)(pft_next t := Some (mkPftEntry pkt f))"
    using None by (simp add: pft_addEntry_def mkPftEntry_def)
  have "timer_ptr cb \<noteq> pft_next t" if "sc_pending sc tid = Some (d, cb)" for tid d cb
    using idle_fresh [OF assms pft_inv_fresh(1) [OF timers_invD(1) [OF assms]]] that by (auto simp: idle_def)
  moreover have "entry_ok (mkPftEntry pkt f)" by (simp add: mkPftEntry_def entry_ok_def)
  ultimately show ?thesis
    using timers_invD [OF assms] unfolding timers_inv_def by (auto simp: h pft_inv_add split: if_splits)
next
  case (Some p)
  with assms show ?thesis by (simp add: pft_addEntry_def mkPftEntry_def)
qed

lemma timers_inv_fire:
  assumes "timers_inv t sc" and "takeExpired sc = Some ((tid, cb), sc')"
  obtains e where "timers_inv t sc'" and "idle (timer_ptr cb) sc'" and "\<And>p. idle p sc \<Longrightarrow> idle p sc'"
    and "pft_heap t (timer_ptr cb) = Some e" and "timer_ok cb e" and "\<not> idle (timer_ptr cb) sc"
proof -
  note f = scheduler.fire_pending [OF timers_invD(2) [OF assms(1)] assms(2)]
  then obtain d where d: "sc_pending sc tid = Some (d, cb)" by blast
  from timers_invD(4) [OF assms(1) d] obtain e where
    e: "pft_heap t (timer_ptr cb) = Some e" "pe_timer e = Some tid" "timer_ok cb e" by blast
  show thesis
  proof (rule that [of e])
    show "timers_inv t sc'" using assms(1) f by (auto simp: timers_inv_def split: if_splits)
    show "idle (timer_ptr cb) sc'"
      using f e timers_invD(4) [OF assms(1)] by (fastforce simp: idle_def split: if_splits)
    show "\<And>p. idle p sc \<Longrightarrow> idle p sc'" using f by (auto simp: idle_def split: if_splits)
    show "\<not> idle (timer_ptr cb) sc" using d by (auto simp: idle_def)
  qed (use e in auto)
qed

section \<open>The invariant of the forwarder\<close>

definition vf_inv :: "val_fwd \<Rightarrow> bool" where
  "vf_inv s \<longleftrightarrow> timers_inv (vf_pft s) (vf_sched s) \<and> ft_inv (vf_faceTable s) \<and> distinct (vf_networkFaces s) \<and>
     (\<forall>k. k \<in> set (vf_networkFaces s) \<longleftrightarrow> (\<exists>f. ft_get k (vf_faceTable s) = Some f \<and> fc_isValNetFace f))"

text \<open>An allocated entry that no pending event refers to.\<close>

definition quiet :: "ptr \<Rightarrow> val_fwd \<Rightarrow> bool" where
  "quiet p s \<longleftrightarrow> p < pft_next (vf_pft s) \<and> idle p (vf_sched s)"

text \<open>
  A state change that keeps the invariant, gives no entry more transmissions than it had, and wakes
  no quiet entry.
\<close>

definition evolves :: "val_fwd \<Rightarrow> val_fwd \<Rightarrow> bool" where
  "evolves s s' \<longleftrightarrow> (vf_inv s \<longrightarrow> vf_inv s' \<and>
     (\<forall>p. budget p (vf_pft s') \<le> budget p (vf_pft s)) \<and> (\<forall>p. quiet p s \<longrightarrow> quiet p s'))"

lemma evolves_refl [simp, intro!]: "evolves s s"
  by (simp add: evolves_def)

lemma evolves_trans: "evolves s s' \<Longrightarrow> evolves s' s'' \<Longrightarrow> evolves s s''"
  by (auto simp: evolves_def intro: order_trans)

text \<open>Changes outside the PFT, the scheduler and the faces.\<close>

lemma evolves_tables [simp, intro]:
  "evolves s (s\<lparr> vf_ifnt := a \<rparr>)" "evolves s (s\<lparr> vf_dfnt := b \<rparr>)" "evolves s (s\<lparr> vf_f2a := c \<rparr>)"
  "evolves s (s\<lparr> vf_invalidIN := n \<rparr>)"
  by (simp_all add: evolves_def vf_inv_def quiet_def)

text \<open>Changes of the PFT and the scheduler.\<close>

lemma evolves_timers:
  assumes "\<And>t. timers_inv (vf_pft s) (vf_sched s) \<Longrightarrow> timers_inv t' sc' \<and> pft_next (vf_pft s) \<le> pft_next t' \<and>
      (\<forall>p. budget p t' \<le> budget p (vf_pft s)) \<and>
      (\<forall>p. p < pft_next (vf_pft s) \<longrightarrow> idle p (vf_sched s) \<longrightarrow> idle p sc')"
  shows "evolves s (s\<lparr> vf_pft := t', vf_sched := sc' \<rparr>)"
  using assms by (auto simp: evolves_def vf_inv_def quiet_def)

lemma budget_remove [table_simps]: "budget p (snd (pft_removeEntry pkt t)) = budget p t"
  by (simp add: budget_def table_simps)

lemma budget_setTimer [table_simps]: "budget p (pft_modify q (setTimer tid) t) = budget p t"
  by (auto simp: budget_def pft_modify_def setTimer_def split: option.splits)

lemma budget_add [table_simps]: 
  "pft_inv t \<Longrightarrow> budget p (snd (pft_addEntry (mkPftEntry pkt f) t)) = budget p t"
  using pft_inv_fresh(1) [of t]
  by (auto simp: budget_def pft_addEntry_def mkPftEntry_def split: option.splits)

lemma budget_change [table_simps]: "budget p (pft_modify q (snd \<circ> changeStateToWaintingImpAck) t) =
    (if p = q \<and> (\<exists>e. pft_heap t p = Some e \<and> pe_state e = WAITING_FORWARDING) then 3 else budget p t)"
  by (auto simp: budget_def pft_modify_def changeStateToWaintingImpAck_def MAX_IMPLICIT_ACK_TRIES_def
      split: option.splits)

lemma budget_change_le: "budget p (pft_modify q (snd \<circ> changeStateToWaintingImpAck) t) \<le> budget p t"
  unfolding budget_change by (auto simp: budget_def)

lemma budget_oneLessTry [table_simps]: "budget p (pft_modify q (snd \<circ> oneLessTry) t) =
    (if p = q \<and> (\<exists>e. pft_heap t p = Some e \<and> pe_state e \<noteq> WAITING_FORWARDING) then budget p t - 1 else budget p t)"
  by (auto simp: budget_def pft_modify_def oneLessTry_def split: option.splits)

lemma budget_le_4: "timers_inv t sc \<Longrightarrow> budget p t \<le> 4"
  using timers_invD(3) [of t sc p]
  by (auto simp: budget_def entry_ok_def MAX_IMPLICIT_ACK_TRIES_def split: option.splits)

lemma pft_next_modify [table_simps]: "pft_next (pft_modify p f t) = pft_next t"
  by (simp add: pft_modify_def)

lemma pft_next_add: "pft_next t \<le> pft_next (snd (pft_addEntry e t))"
  by (auto simp: pft_addEntry_def split: option.splits)

lemma evolves_val_cancel [intro]: "evolves s (val_cancel p s)"
  using evolves_timers [of s "vf_pft s" "cancelEvent (Option.bind (pft_heap (vf_pft s) p) pe_timer) (vf_sched s)"]
  by (auto simp: val_cancel_def timers_inv_cancel idle_cancel_other)

lemma evolves_pft_remove [intro]: "evolves s (pft_remove pkt s)"
  using evolves_timers [of s "snd (pft_removeEntry pkt (vf_pft s))" "vf_sched s"]
  by (auto simp: pft_remove_def table_simps table_inv)

section \<open>Scheduling\<close>

text \<open>The handler of an event of entry \<open>p\<close> that makes \<open>n\<close> transmissions; it may schedule the entry's next event.\<close>

definition fires :: "ptr \<Rightarrow> nat \<Rightarrow> val_fwd \<Rightarrow> val_fwd \<Rightarrow> bool" where
  "fires p n s s' \<longleftrightarrow> vf_inv s' \<and> (\<forall>q. budget q (vf_pft s') + (if q = p then n else 0) \<le> budget q (vf_pft s)) \<and>
     (\<forall>q. q \<noteq> p \<longrightarrow> quiet q s \<longrightarrow> quiet q s')"

lemma fires_evolves:
  assumes "fires p n s s'" and "evolves s' s''"
  shows "fires p n s s''"
proof -
  have "budget q (vf_pft s'') + (if q = p then n else 0) \<le> budget q (vf_pft s)" for q
    using assms by - (rule order_trans [OF add_right_mono [of _ "budget q (vf_pft s')"]], simp_all add: fires_def evolves_def)
  with assms show ?thesis by (simp add: fires_def evolves_def)
qed

lemma fires_trans:
  assumes "fires p n s s'" and "fires p 0 s' s''"
  shows "fires p n s s''"
proof -
  have "budget q (vf_pft s'') + (if q = p then n else 0) \<le> budget q (vf_pft s)" for q
    using assms by - (rule order_trans [OF add_right_mono [of _ "budget q (vf_pft s')"]], simp_all add: fires_def)
  with assms show ?thesis by (simp add: fires_def)
qed

lemma fires_val_schedule:
  assumes "vf_inv s" and "idle p (vf_sched s)" and "pft_heap (vf_pft s) p = Some e"
    and "timer_ok cb e" and "timer_ptr cb = p"
  shows "fires p 0 s (val_schedule d cb p s)"
proof -
  obtain tid sc where sc: "scheduleEvent d cb (vf_sched s) = (tid, sc)" by fastforce
  from assms(1) have ti: "timers_inv (vf_pft s) (vf_sched s)" by (simp add: vf_inv_def)
  have "idle q sc" if "q \<noteq> p" "idle q (vf_sched s)" for q
    using that assms(5) scheduler.schedule_pending [OF timers_invD(2) [OF ti] sc]
    by (auto simp: idle_def split: if_splits)
  then show ?thesis
    using assms(1) timers_inv_schedule [OF ti assms(2-5) sc]
    by (auto simp: fires_def vf_inv_def val_schedule_def sc quiet_def table_simps)
qed

lemma fires_modify:
  assumes "vf_inv s" and "idle p (vf_sched s)"
    and "\<And>e. pft_heap (vf_pft s) p = Some e \<Longrightarrow> pe_pkt (f e) = pe_pkt e \<and> (entry_ok e \<longrightarrow> entry_ok (f e))"
    and "\<And>q. budget q (pft_modify p f (vf_pft s)) + (if q = p then n else 0) \<le> budget q (vf_pft s)"
  shows "fires p n s (s\<lparr> vf_pft := pft_modify p f (vf_pft s) \<rparr>)"
  using assms timers_inv_modify [of "vf_pft s" "vf_sched s" p f]
  by (auto simp: fires_def vf_inv_def quiet_def table_simps)

lemma evolves_fires: "(vf_inv s \<Longrightarrow> fires p 0 s s' \<and> (quiet p s \<longrightarrow> quiet p s')) \<Longrightarrow> evolves s s'"
  by (cases "vf_inv s") (auto simp: evolves_def fires_def)

lemma evolves_registerOutgoing [intro]: "evolves s (registerOutgoingValPacket out pkt d s)"
proof (rule evolves_fires, intro conjI impI)
  assume inv: "vf_inv s"
  then have ti: "timers_inv (vf_pft s) (vf_sched s)" by (simp add: vf_inv_def)
  let ?p = "pft_next (vf_pft s)" and ?s = "s\<lparr> vf_pft := snd (pft_addEntry (mkPftEntry pkt out) (vf_pft s)) \<rparr>"
  have s: "fires ?p 0 s ?s"
    using inv ti timers_inv_add [OF ti]
    by (auto simp: fires_def vf_inv_def quiet_def budget_add timers_invD intro: less_le_trans [OF _ pft_next_add])
  show "fires ?p 0 s (registerOutgoingValPacket out pkt d s)"
  proof (cases "pft_findMatch pkt (vf_pft s)")
    case None
    have "fires ?p 0 ?s (val_schedule d (ForwardingTimer ?p out) ?p ?s)"
      using s None idle_fresh [OF ti pft_inv_fresh(1) [OF timers_invD(1) [OF ti]]]
      by (intro fires_val_schedule [where e = "mkPftEntry pkt out"])
         (auto simp: fires_def pft_addEntry_def mkPftEntry_def timer_ok_def)
    moreover have "registerOutgoingValPacket out pkt d s = val_schedule d (ForwardingTimer ?p out) ?p ?s"
      using None by (simp add: registerOutgoingValPacket_def pft_addEntry_def mkPftEntry_def)
    ultimately show ?thesis using fires_trans [OF s] by simp
  next
    case (Some p)
    with s show ?thesis by (simp add: registerOutgoingValPacket_def pft_addEntry_def mkPftEntry_def)
  qed
  assume "quiet ?p s"
  then show "quiet ?p (registerOutgoingValPacket out pkt d s)" by (simp add: quiet_def)
qed

section \<open>Handlers\<close>

lemma evolves_onFaceSignal_None [simp]: "onFaceSignal None s = s"
  by (simp add: onFaceSignal_def)

lemma evolves_val_send: "val_send r s = Def s' \<Longrightarrow> evolves s s'"
  by (auto simp: val_send_def bindU_eq_Def split: option.splits)

lemma evolves_reveiceInterest: "reveiceInterest env g i s = Def s' \<Longrightarrow> evolves s s'"
  by (auto simp: reveiceInterest_def split: option.splits intro: evolves_val_send)

lemma evolves_fold_cancel: "evolves s (fold val_cancel ps s)"
  by (induction ps arbitrary: s) (auto intro: evolves_trans)

lemma evolves_removeEntries: "evolves s (s\<lparr> vf_pft := pft_removeEntriesByMatchList ps (vf_pft s) \<rparr>)"
proof (induction ps arbitrary: s)
  case (Cons p ps)
  show ?case
  proof (cases "pft_heap (vf_pft s) p")
    case None
    with Cons [of s] show ?thesis by simp
  next
    case (Some e)
    with evolves_trans [OF evolves_pft_remove Cons, of s "pe_pkt e"] show ?thesis by (simp add: pft_remove_def)
  qed
qed simp

lemma evolves_cancelPendingInterests: "evolves s (cancelPendingInterests ns s)"
  unfolding cancelPendingInterests_def Let_def by (rule evolves_trans [OF evolves_fold_cancel evolves_removeEntries])

lemma evolves_dfnt_drop: "evolves s (dfnt_drop e s)"
  by (simp add: dfnt_drop_def)

lemma evolves_relay: "evolves s (dfnt_drop e (cancelPendingInterests ns s))"
  by (rule evolves_trans [OF evolves_cancelPendingInterests evolves_dfnt_drop])

lemma evolves_reveiceData:
  assumes "reveiceData env g d ns isProducer s = Def s'"
  shows "evolves s s'"
proof (cases "getCongestionMark d = 501 \<or> ns = None")
  case True
  with assms show ?thesis by (auto simp: reveiceData_def evolves_dfnt_drop split: option.splits if_splits)
next
  case False
  then obtain xs where ns: "ns = Some xs" by auto
  let ?s1 = "s\<lparr> vf_ifnt := ifnt_removeEntriesByNonceList xs (vf_ifnt s) \<rparr>"
  have "evolves ?s1 s'"
    using assms False ns
    by (auto simp: reveiceData_def Let_def bindU_eq_Def split: if_splits option.splits dest!: evolves_val_send
        intro: evolves_relay evolves_trans [OF evolves_relay] evolves_trans [OF _ evolves_dfnt_drop])
  then show ?thesis by (rule evolves_trans [OF evolves_tables(1)])
qed

lemma erase_first_eq_remove1: "erase_first (\<lambda>x. x = a) xs = remove1 a xs"
  by (induction xs) auto

text \<open>Faces come and go; the list of network faces follows the signals.\<close>

lemma evolves_faces:
  assumes "vf_inv s \<Longrightarrow> ft_inv t \<and> distinct nf \<and>
      (\<forall>k. k \<in> set nf \<longleftrightarrow> (\<exists>f. ft_get k t = Some f \<and> fc_isValNetFace f))"
  shows "evolves s (s\<lparr> vf_faceTable := t, vf_networkFaces := nf \<rparr>)"
  using assms by (auto simp: evolves_def vf_inv_def quiet_def)

lemma evolves_l3_addFace:
  assumes "l3_addFace f s = Def (fid, s')"
  shows "evolves s s'"
proof (cases "vf_inv s")
  case inv: True
  from assms obtain sig t where add: "ft_add f (vf_faceTable s) = Def (fid, sig, t)"
    and s': "s' = onFaceSignal sig (s\<lparr> vf_faceTable := t \<rparr>)"
    by (auto simp: l3_addFace_def bindU_eq_Def)
  from inv have "ft_inv (vf_faceTable s)" by (simp add: vf_inv_def)
  from ft_add_Def [OF this add] show ?thesis
  proof (elim disjE conjE)
    assume sig: "sig = Some (if fc_isValNetFace f then AfterValFaceAdd fid else AfterAdd fid)" and t: "ft_inv t"
      "ft_get fid (vf_faceTable s) = None" "ft_get fid t = Some (f\<lparr> fc_id := fid \<rparr>)"
      "\<forall>k. k \<noteq> fid \<longrightarrow> ft_get k t = ft_get k (vf_faceTable s)"
    define nf where "nf = (if fc_isValNetFace f then vf_networkFaces s @ [fid] else vf_networkFaces s)"
    have "s' = s\<lparr> vf_faceTable := t, vf_networkFaces := nf \<rparr>"
      by (simp add: s' sig nf_def onFaceSignal_def addToNetworkFaceList_def)
    moreover have "(\<exists>g. ft_get k t = Some g \<and> fc_isValNetFace g) \<longleftrightarrow> k = fid \<and> fc_isValNetFace f \<or>
        (\<exists>g. ft_get k (vf_faceTable s) = Some g \<and> fc_isValNetFace g)" for k
      using t by (cases "k = fid") auto
    ultimately show ?thesis
      using t inv by (simp only:) (rule evolves_faces, auto simp: nf_def vf_inv_def)
  qed (simp add: s')
qed (simp add: evolves_def)

lemma evolves_l3_removeFace:
  assumes "l3_removeFace fid s = Def s'"
  shows "evolves s s'"
proof -
  from assms obtain sig t where rm: "ft_remove fid (vf_faceTable s) = Def (sig, t)"
    and s': "s' = onFaceSignal (Some sig) (s\<lparr> vf_faceTable := t \<rparr>)"
    by (auto simp: l3_removeFace_def bindU_eq_Def)
  obtain f where f: "ft_get fid (vf_faceTable s) = Some f" "ft_get fid t = None"
    "\<And>k. k \<noteq> fid \<Longrightarrow> ft_get k t = ft_get k (vf_faceTable s)"
    "sig = (if fc_isValNetFace f then BeforeValFaceRemove fid else BeforeRemove fid)"
    by (rule ft_remove_Def [OF rm]) blast
  define nf where "nf = (if fc_isValNetFace f then remove1 fid (vf_networkFaces s) else vf_networkFaces s)"
  have s'_eq: "s' = s\<lparr> vf_faceTable := t, vf_networkFaces := nf \<rparr>"
    using f(4)
    by (simp add: s' nf_def onFaceSignal_def cleanupOnFaceRemoval_def removeFromNetworkFaceList_def erase_first_eq_remove1)
  have "(\<exists>g. ft_get k t = Some g \<and> fc_isValNetFace g) \<longleftrightarrow> k \<noteq> fid \<and>
      (\<exists>g. ft_get k (vf_faceTable s) = Some g \<and> fc_isValNetFace g)" for k
    using f(2,3) by (cases "k = fid") auto
  moreover have "ft_inv t" if "vf_inv s" using that ft_inv_remove [OF _ rm] by (simp add: vf_inv_def)
  ultimately show ?thesis
    unfolding s'_eq using f(1) by (intro evolves_faces) (auto simp: vf_inv_def nf_def)
qed

lemma evolves_geoFaceForArea:
  assumes "geoFaceForArea area s = Def (fid, s')"
  shows "evolves s s'"
proof (cases "f2a_findByGeoArea area (vf_f2a s)")
  case None
  with assms obtain g s1 where g: "l3_addFace makeGeoface s = Def (g, s1)"
    and s': "s' = s1\<lparr> vf_f2a := f2a_addEntry \<lparr> f2a_faceId = ucast (ucast g :: u32), f2a_geoArea = area \<rparr> (vf_f2a s1) \<rparr>"
    by (auto simp: geoFaceForArea_def bindU_eq_Def Let_def)
  show ?thesis unfolding s' by (rule evolves_trans [OF evolves_l3_addFace [OF g] evolves_tables(3)])
next
  case (Some e)
  with assms show ?thesis by (simp add: geoFaceForArea_def)
qed

lemma evolves_makeGeoFace:
  assumes "makeGeoFaceFromValHeader h s = Def (ids, s')"
  shows "evolves s s'"
proof -
  from assms obtain a s1 b where "geoFaceForArea (h_SA h) s = Def (a, s1)" "geoFaceForArea (h_DA h) s1 = Def (b, s')"
    by (auto simp: makeGeoFaceFromValHeader_def bindU_eq_Def)
  then show ?thesis by (rule evolves_trans [OF evolves_geoFaceForArea evolves_geoFaceForArea])
qed

text \<open>No transmission on the radio.\<close>

definition to_nfd :: "val_action list \<Rightarrow> bool" where
  "to_nfd as = list_all (\<lambda>a. case a of SendValPacket f p \<Rightarrow> False | _ \<Rightarrow> True) as"

lemma to_nfd_simps [simp]: "to_nfd []" "to_nfd (sendInterestToForwarder i f)" "to_nfd (sendDataToForwarder d f)"
  by (simp_all add: to_nfd_def sendInterestToForwarder_def sendDataToForwarder_def)

lemma evolves_processInterest:
  assumes "processInterestFromNetwork f h i s = Def (s', as)"
  shows "evolves s s' \<and> to_nfd as"
proof -
  let ?s1 = "s\<lparr> vf_ifnt := snd (ifnt_addEntry (mkIfntEntry h i f) (vf_ifnt s)) \<rparr>"
  have "evolves ?s1 s' \<and> to_nfd as"
    using assms
    by (auto simp: processInterestFromNetwork_def isEscapedPacket_def Let_def bindU_eq_Def
        split: prod.splits if_splits option.splits dest: evolves_makeGeoFace)
  then show ?thesis by (blast intro: evolves_trans [OF evolves_tables(1)])
qed

lemma evolves_processData:
  assumes "processDataFromNetwork f h d s = Def (s', as)"
  shows "evolves s s' \<and> to_nfd as"
proof -
  let ?s1 = "s\<lparr> vf_dfnt := dfnt_addEntry (mkDfntEntry h d f) (vf_dfnt s) \<rparr>"
  have "evolves ?s1 s' \<and> to_nfd as"
    using assms
    by (auto simp: processDataFromNetwork_def Let_def bindU_eq_Def split: option.splits dest: evolves_makeGeoFace)
  then show ?thesis by (blast intro: evolves_trans [OF evolves_tables(2)])
qed

text \<open>Cancelling an entry's event and moving the entry to the waiting state.\<close>

lemma idle_val_cancel:
  assumes "vf_inv s" and "pft_heap (vf_pft s) p = Some e"
  shows "idle p (vf_sched (val_cancel p s))"
  using assms idle_cancel by (auto simp: val_cancel_def vf_inv_def)

lemma val_cancel_sel [simp]:
  "vf_pft (val_cancel p s) = vf_pft s" "vf_ifnt (val_cancel p s) = vf_ifnt s" "vf_dfnt (val_cancel p s) = vf_dfnt s"
  "vf_f2a (val_cancel p s) = vf_f2a s" "vf_faceTable (val_cancel p s) = vf_faceTable s"
  "vf_networkFaces (val_cancel p s) = vf_networkFaces s"
  by (simp_all add: val_cancel_def)

lemma entry_ok_change: "entry_ok e \<Longrightarrow> entry_ok (snd (changeStateToWaintingImpAck e))"
  by (auto simp: entry_ok_def changeStateToWaintingImpAck_def MAX_IMPLICIT_ACK_TRIES_def)

lemma pe_pkt_change [simp]:
  "pe_pkt (snd (changeStateToWaintingImpAck e)) = pe_pkt e" "pe_pkt (snd (oneLessTry e)) = pe_pkt e"
  by (simp_all add: changeStateToWaintingImpAck_def oneLessTry_def)

lemma evolves_cancel_change:
  assumes "pft_heap (vf_pft s) p = Some e"
  shows "evolves s ((val_cancel p s)\<lparr> vf_pft := pft_modify p (snd \<circ> changeStateToWaintingImpAck) (vf_pft s) \<rparr>)"
proof (rule evolves_fires, intro conjI impI)
  assume inv: "vf_inv s"
  let ?s1 = "val_cancel p s" and ?f = "snd \<circ> changeStateToWaintingImpAck"
  have ev: "evolves s ?s1" by blast
  with inv have inv1: "vf_inv ?s1" and q: "quiet p s \<Longrightarrow> quiet p ?s1" and le: "budget p (vf_pft ?s1) \<le> budget p (vf_pft s)"
    by (auto simp: evolves_def)
  have "fires p 0 ?s1 (?s1\<lparr> vf_pft := pft_modify p ?f (vf_pft ?s1) \<rparr>)"
    by (rule fires_modify [OF inv1 idle_val_cancel [OF inv assms]])
       (auto simp: entry_ok_change budget_change_le)
  with ev inv show "fires p 0 s (?s1\<lparr> vf_pft := pft_modify p ?f (vf_pft s) \<rparr>)"
    by (auto simp: fires_def evolves_def)
  assume "quiet p s"
  with q show "quiet p (?s1\<lparr> vf_pft := pft_modify p ?f (vf_pft s) \<rparr>)" by (simp add: quiet_def table_simps)
qed

lemma evolves_preProcessing: "evolves s (snd (preProcessingValPacket pkt s))"
proof (cases "pft_findMatch pkt (vf_pft s)")
  case None
  then show ?thesis by (simp add: preProcessingValPacket_def)
next
  case p: (Some p)
  show ?thesis
  proof (cases "pft_heap (vf_pft s) p")
    case None
    with p show ?thesis by (simp add: preProcessingValPacket_def)
  next
    case (Some e)
    note c = evolves_cancel_change [OF Some]
    show ?thesis
      using p Some c evolves_trans [OF c evolves_pft_remove] evolves_trans [OF evolves_val_cancel evolves_pft_remove]
      by (auto simp: preProcessingValPacket_def Let_def)
  qed
qed

lemma evolves_onReceived:
  assumes "onReceivedValPacket f pkt s = Def (s', as)"
  shows "evolves s s' \<and> to_nfd as"
proof -
  have "evolves (snd (preProcessingValPacket pkt s)) s' \<and> to_nfd as"
    using assms
    by (auto simp: onReceivedValPacket_def bindU_eq_Def split: prod.splits if_splits
        dest: evolves_processInterest evolves_processData)
  then show ?thesis by (blast intro: evolves_trans [OF evolves_preProcessing])
qed

section \<open>Timer callbacks\<close>

lemma face_sendValPacket_one [simp]: "fc_isValNetFace f \<Longrightarrow> length (face_sendValPacket pkt f) = 1"
  by (simp add: face_sendValPacket_def)

lemma fires_forwardingTimer:
  assumes "vf_inv s" and "idle p (vf_sched s)" and "pft_heap (vf_pft s) p = Some e"
    and "pe_state e = WAITING_FORWARDING" and "forwardingTimerCallback p out s = Def (s', as)"
  shows "fires p (length as) s s'"
proof -
  from assms(3-5) obtain g where g: "ft_get out (vf_faceTable s) = Some g"
    by (auto simp: forwardingTimerCallback_def split: option.splits)
  show ?thesis
  proof (cases "fc_isValNetFace g")
    case True
    define s1 where "s1 = s\<lparr> vf_pft := pft_modify p (snd \<circ> changeStateToWaintingImpAck) (vf_pft s) \<rparr>"
    define s2 where "s2 = val_schedule (getDefaultImpAckTimerDuration e * 1000000) (ImpAckTimer p out) p s1"
    have s': "s' = (if vp_isSet (pe_pkt e) = DATA_SET \<and> h_hopC (vp_valH (pe_pkt e)) \<le> 2
        then pft_remove (pe_pkt e) (val_cancel p s2) else s2)" and as: "length as = 1"
      using assms(3-5) g True by (auto simp: forwardingTimerCallback_def Let_def s1_def s2_def)
    have f1: "fires p 1 s s1"
      unfolding s1_def using assms(1-4)
      by (intro fires_modify) (auto simp: entry_ok_change budget_change, auto simp: budget_def)
    have "fires p 0 s1 s2"
      unfolding s2_def
    proof (rule fires_val_schedule)
      show "vf_inv s1" using f1 by (simp add: fires_def)
      show "pft_heap (vf_pft s1) p = Some (snd (changeStateToWaintingImpAck e))"
        using assms(3) by (simp add: s1_def pft_modify_def)
      show "timer_ok (ImpAckTimer p out) (snd (changeStateToWaintingImpAck e))"
        using assms(4) by (simp add: timer_ok_def changeStateToWaintingImpAck_def MAX_IMPLICIT_ACK_TRIES_def)
    qed (use assms(2) in \<open>simp_all add: s1_def\<close>)
    then have "fires p 1 s s2" by (rule fires_trans [OF f1])
    moreover have "evolves s2 s'" unfolding s' by (auto intro: evolves_trans [OF evolves_val_cancel evolves_pft_remove])
    ultimately show ?thesis unfolding as by (rule fires_evolves)
  next
    case False
    with assms g have "s' = s" "as = []" by (simp_all add: forwardingTimerCallback_def)
    with assms(1) show ?thesis by (simp add: fires_def)
  qed
qed

lemma fires_impAckTimer:
  assumes "vf_inv s" and "idle p (vf_sched s)" and "pft_heap (vf_pft s) p = Some e"
    and "pe_state e = WAITING_IMPLICIT_ACK" and "0 < pe_tries e" and "impAckTimerCallback p out s = Def (s', as)"
  shows "fires p (length as) s s'"
proof -
  from assms(3-6) obtain g where g: "ft_get out (vf_faceTable s) = Some g"
    by (auto simp: impAckTimerCallback_def split: option.splits)
  show ?thesis
  proof (cases "fc_isValNetFace g")
    case True
    define e' where "e' = snd (oneLessTry e)"
    define s1 where "s1 = s\<lparr> vf_pft := pft_modify p (snd \<circ> oneLessTry) (vf_pft s) \<rparr>"
    have s': "s' = (if pe_tries e' > 0
        then val_schedule (getDefaultImpAckTimerDuration e' * 1000000) (ImpAckTimer p out) p s1
        else pft_remove (pe_pkt e') s1)" and as: "length as = 1"
      using assms(3-6) g True by (auto simp: impAckTimerCallback_def Let_def s1_def e'_def)
    have ok: "entry_ok e" using assms(1,3) by (auto simp: vf_inv_def timers_inv_def)
    have f1: "fires p 1 s s1"
      unfolding s1_def using assms(1-5) ok
      by (intro fires_modify) (auto simp: budget_oneLessTry entry_ok_def oneLessTry_def, auto simp: budget_def)
    have "fires p 0 s1 s'"
    proof (cases "pe_tries e' > 0")
      case True
      have "fires p 0 s1 (val_schedule (getDefaultImpAckTimerDuration e' * 1000000) (ImpAckTimer p out) p s1)"
      proof (rule fires_val_schedule)
        show "vf_inv s1" using f1 by (simp add: fires_def)
        show "pft_heap (vf_pft s1) p = Some e'" using assms(3) by (simp add: s1_def pft_modify_def e'_def)
        show "timer_ok (ImpAckTimer p out) e'"
          using assms(4) True by (simp add: timer_ok_def e'_def oneLessTry_def)
      qed (use assms(2) in \<open>simp_all add: s1_def\<close>)
      with True show ?thesis by (simp add: s')
    next
      case False
      then have "evolves s1 s'" by (auto simp: s')
      moreover have "fires p 0 s1 s1" using f1 by (simp add: fires_def)
      ultimately show ?thesis by (blast intro: fires_evolves)
    qed
    then show ?thesis unfolding as by (rule fires_trans [OF f1])
  next
    case False
    with assms g have "s' = s" "as = []" by (simp_all add: impAckTimerCallback_def)
    with assms(1) show ?thesis by (simp add: fires_def)
  qed
qed

text \<open>One expired event: only its entry transmits, and each transmission is paid from the entry's budget.\<close>

definition timer_of :: "val_fwd \<Rightarrow> ptr option" where
  "timer_of s = map_option (timer_ptr \<circ> snd \<circ> fst) (takeExpired (vf_sched s))"

lemma fireTimer_fires:
  assumes "vf_inv s" and "fireTimer s = Def (s', as)" and "timer_of s = Some p"
  shows "fires p (length as) s s'" and "\<not> quiet p s"
proof -
  from assms(3) obtain tid cb sc where sc: "takeExpired (vf_sched s) = Some ((tid, cb), sc)" and p: "timer_ptr cb = p"
    by (auto simp: timer_of_def)
  from assms(1) have ti: "timers_inv (vf_pft s) (vf_sched s)" by (simp add: vf_inv_def)
  obtain e where e: "timers_inv (vf_pft s) sc" "idle p sc" "\<And>q. idle q (vf_sched s) \<Longrightarrow> idle q sc"
    "pft_heap (vf_pft s) p = Some e" "timer_ok cb e" "\<not> idle p (vf_sched s)"
    by (rule timers_inv_fire [OF ti sc]) (use p in blast)
  from e(6) show "\<not> quiet p s" by (simp add: quiet_def)
  let ?s = "s\<lparr> vf_sched := sc \<rparr>"
  have inv: "vf_inv ?s" using assms(1) e(1) by (simp add: vf_inv_def)
  have "fires p (length as) ?s s'"
  proof (cases cb)
    case (ForwardingTimer q out)
    with assms(2) sc p e(2,4,5) show ?thesis
      by (intro fires_forwardingTimer [OF inv]) (auto simp: fireTimer_def timer_ok_def)
  next
    case (ImpAckTimer q out)
    with assms(2) sc p e(2,4,5) show ?thesis
      by (intro fires_impAckTimer [OF inv]) (auto simp: fireTimer_def timer_ok_def)
  qed
  then show "fires p (length as) s s'" using e(3) by (auto simp: fires_def quiet_def)
qed

lemma fireTimer_none: "timer_of s = None \<Longrightarrow> fireTimer s = Def (s', as) \<Longrightarrow> s' = s \<and> as = []"
  by (auto simp: timer_of_def fireTimer_def)

section \<open>Runs\<close>

text \<open>
  A run is a sequence of events with the actions of each handler; the entry that an action belongs to is
  the one whose event the scheduler executes.
\<close>

definition step_entry :: "val_event \<Rightarrow> val_fwd \<Rightarrow> ptr option" where
  "step_entry ev s = (case ev of Timer \<Rightarrow> timer_of s | _ \<Rightarrow> None)"

inductive val_run :: "val_fwd \<Rightarrow> (ptr option \<times> val_action list) list \<Rightarrow> val_fwd \<Rightarrow> bool" where
  val_run_Nil: "val_run s [] s"
| val_run_step: "val_step ev s = Def (s', as) \<Longrightarrow> val_run s' tr s'' \<Longrightarrow> val_run s ((step_entry ev s, as) # tr) s''"

inductive_cases val_run_NilE: "val_run s [] s'"
inductive_cases val_run_ConsE: "val_run s (x # tr) s'"

fun radio_packet :: "val_action \<Rightarrow> bool" where
  "radio_packet (SendValPacket f pkt) = True"
| "radio_packet a = False"

definition transmissions :: "ptr \<Rightarrow> (ptr option \<times> val_action list) list \<Rightarrow> nat" where
  "transmissions p tr = sum_list (map (\<lambda>(q, as). if q = Some p then length (filter radio_packet as) else 0) tr)"

lemma transmissions_simps [simp]:
  "transmissions p [] = 0"
  "transmissions p ((q, as) # tr) = (if q = Some p then length (filter radio_packet as) else 0) + transmissions p tr"
  by (simp_all add: transmissions_def)

lemma to_nfd_radio: "to_nfd as \<longleftrightarrow> filter radio_packet as = []"
proof -
  have "(case a of SendValPacket f p \<Rightarrow> False | _ \<Rightarrow> True) \<longleftrightarrow> \<not> radio_packet a" for a by (cases a) simp_all
  then show ?thesis by (auto simp: to_nfd_def list_all_iff filter_empty_conv)
qed

lemma evolves_tick: "evolves s (s\<lparr> vf_sched := sc_advance t (vf_sched s) \<rparr>)"
  by (simp add: evolves_def vf_inv_def timers_inv_def quiet_def idle_def sc_inv_def sc_pending_def sc_advance_def)

lemma val_step_cases:
  assumes "val_step ev s = Def (s', as)" and "vf_inv s"
  shows "step_entry ev s = None \<and> evolves s s' \<and> to_nfd as \<or>
    (\<exists>p. step_entry ev s = Some p \<and> fires p (length as) s s' \<and> \<not> quiet p s)"
proof (cases ev)
  case Timer
  show ?thesis
  proof (cases "timer_of s")
    case None
    with assms(1) Timer show ?thesis by (auto simp: val_step_def step_entry_def dest!: fireTimer_none [OF None])
  next
    case (Some p)
    with assms Timer have "fireTimer s = Def (s', as)" by (simp add: val_step_def)
    from fireTimer_fires [OF assms(2) this Some] Some Timer show ?thesis by (simp add: step_entry_def)
  qed
qed (use assms in \<open>auto simp: val_step_def step_entry_def bindU_eq_Def evolves_tick dest: evolves_onReceived
    evolves_reveiceInterest evolves_reveiceData evolves_l3_addFace evolves_l3_removeFace\<close>)

lemma val_step_inv: "val_step ev s = Def (s', as) \<Longrightarrow> vf_inv s \<Longrightarrow> vf_inv s'"
  using val_step_cases [of ev s s' as] by (auto simp: evolves_def fires_def)

lemma val_step_budget:
  assumes "val_step ev s = Def (s', as)" and "vf_inv s"
  shows "budget p (vf_pft s') + (if step_entry ev s = Some p then length (filter radio_packet as) else 0) \<le> budget p (vf_pft s)"
  using val_step_cases [OF assms]
proof (elim disjE exE conjE)
  fix q assume q: "step_entry ev s = Some q" "fires q (length as) s s'"
  have "(if step_entry ev s = Some p then length (filter radio_packet as) else 0) \<le> (if p = q then length as else 0)"
    using q(1) by auto
  moreover have "budget p (vf_pft s') + (if p = q then length as else 0) \<le> budget p (vf_pft s)"
    using q(2) by (simp add: fires_def)
  ultimately show ?thesis by linarith
qed (use assms(2) in \<open>simp add: evolves_def\<close>)

lemma val_step_quiet:
  assumes "val_step ev s = Def (s', as)" and "vf_inv s" and "quiet p s"
  shows "quiet p s' \<and> step_entry ev s \<noteq> Some p"
  using val_step_cases [OF assms(1,2)]
proof (elim disjE exE conjE)
  fix q assume "step_entry ev s = Some q" "fires q (length as) s s'" "\<not> quiet q s"
  then show ?thesis using assms(3) by (cases "p = q") (simp_all add: fires_def)
qed (use assms(2,3) in \<open>simp add: evolves_def\<close>)

lemma val_run_inv: "val_run s tr s' \<Longrightarrow> vf_inv s \<Longrightarrow> vf_inv s'"
  by (induction rule: val_run.induct) (auto dest: val_step_inv)

lemma val_run_budget: "val_run s tr s' \<Longrightarrow> vf_inv s \<Longrightarrow> transmissions p tr + budget p (vf_pft s') \<le> budget p (vf_pft s)"
proof (induction rule: val_run.induct)
  case (val_run_step ev s s' as tr s'')
  from val_run_step.IH [OF val_step_inv [OF val_run_step.hyps(1) val_run_step.prems]]
    val_step_budget [OF val_run_step.hyps(1) val_run_step.prems, of p]
  show ?case by simp
qed simp

lemma val_run_quiet: "val_run s tr s' \<Longrightarrow> vf_inv s \<Longrightarrow> quiet p s \<Longrightarrow> transmissions p tr = 0 \<and> quiet p s'"
proof (induction rule: val_run.induct)
  case (val_run_step ev s s' as tr s'')
  note q = val_step_quiet [OF val_run_step.hyps(1) val_run_step.prems]
  from q val_run_step.IH [OF val_step_inv [OF val_run_step.hyps(1) val_run_step.prems(1)]]
  show ?case by simp
qed simp

lemma val_run_attributed: "val_run s tr s' \<Longrightarrow> vf_inv s \<Longrightarrow> (None, as) \<in> set tr \<Longrightarrow> filter radio_packet as = []"
proof (induction rule: val_run.induct)
  case (val_run_step ev s s' bs tr s'')
  from val_run_step.IH [OF val_step_inv [OF val_run_step.hyps(1) val_run_step.prems(1)]] val_run_step.prems(2)
    val_step_cases [OF val_run_step.hyps(1) val_run_step.prems(1)]
  show ?case by (auto simp: to_nfd_radio)
qed simp

end
