(* ===== verification/Val_Forwarding.thy ===== *)
theory Val_Forwarding
  imports Val_Runs
begin

text \<open>
  What the VAL forwarder guarantees: its state invariant from the constructor on, the bound on
  transmissions, the two cancellation mechanisms (a better placed vehicle forwarded first; the implicit
  acknowledgement), the geo-faces made for a header, and what happens to a received Interest.
\<close>

section \<open>Reachable states\<close>

lemma vf_inv_init:
  "vf_inv \<lparr> vf_faceTable = mkFaceTable, vf_ifnt = i, vf_dfnt = d, vf_pft = mkPFT, vf_f2a = f,
     vf_networkFaces = [], vf_invalidIN = n, vf_sched = mkScheduler \<rparr>"
  by (simp add: vf_inv_def timers_inv_def sc_inv_def sc_pending_def mkScheduler_def ft_get_def)
     (simp add: mkFaceTable_def)

lemma vf_inv_mkValForwarder:
  assumes "mkValForwarder mkFaceTable = Def (fid, s)"
  shows "vf_inv s"
proof -
  from assms obtain s1 f where s1: "l3_addFace makeGeoface \<lparr> vf_faceTable = mkFaceTable, vf_ifnt = mkIfnt, vf_dfnt = mkDfnt,
      vf_pft = mkPFT, vf_f2a = mkF2A, vf_networkFaces = [], vf_invalidIN = 0, vf_sched = mkScheduler \<rparr> = Def (fid, s1)"
    and s: "s = s1\<lparr> vf_f2a := f \<rparr>"
    unfolding mkValForwarder_def bindU_eq_Def by auto
  have "vf_inv s1" using evolves_l3_addFace [OF s1] vf_inv_init by (simp add: evolves_def)
  with evolves_tables(3) [of s1 f] show ?thesis unfolding s evolves_def by blast
qed

text \<open>A forwarder with one radio face (256) and the flood geo-face (257).\<close>

definition example_fwd :: val_fwd where
  "example_fwd = \<lparr>
     vf_faceTable = \<lparr> ft_lastFaceId = 257,
       ft_faces = [(256, (setValNetFace (mkFace ''netdev://'' ScopeNonLocal LinkAdHoc))\<lparr> fc_id := 256 \<rparr>),
                   (257, makeGeoface\<lparr> fc_id := 257 \<rparr>)] \<rparr>,
     vf_ifnt = mkIfnt, vf_dfnt = mkDfnt, vf_pft = mkPFT,
     vf_f2a = \<lparr> f2a_list = [\<lparr> f2a_faceId = 257, f2a_geoArea = ''0'' \<rparr>], f2a_size = 1 \<rparr>,
     vf_networkFaces = [256], vf_invalidIN = 0, vf_sched = mkScheduler \<rparr>"

lemma example_fwd_inv: "vf_inv example_fwd"
  by (auto simp: example_fwd_def vf_inv_def timers_inv_def sc_inv_def sc_pending_def mkScheduler_def ft_inv_def
      ft_get_def setValNetFace_def mkFace_def FACEID_RESERVED_MAX_def)



text \<open>C2: a packet that the strategy hands over is put on the radio at most four times (once by its
  forwarding timer and three times while it waits for an implicit acknowledgement), whatever happens
  in between; and nothing is put on the radio except by the timer of a pending entry.\<close>

theorem transmissions_bounded:
  assumes "vf_inv s" and "val_run s tr s'"
  shows "transmissions p tr \<le> 4 \<and> (\<forall>as. (None, as) \<in> set tr \<longrightarrow> filter radio_packet as = [])"
  using val_run_budget [OF assms(2,1), of p] budget_le_4 [of "vf_pft s" "vf_sched s" p] assms
    val_run_attributed [OF assms(2,1)]
  by (auto simp: vf_inv_def)

text \<open>One pending Interest whose forwarding timer expires.\<close>

definition example_pending :: val_fwd where
  "example_pending = example_fwd\<lparr> vf_pft := pft_modify 0 (setTimer 0) example_pft,
     vf_sched := \<lparr> sc_now = 100, sc_queue = [\<lparr> ev_id = 0, ev_expireTime = 100, ev_callback = ForwardingTimer 0 256 \<rparr>], sc_next = 1 \<rparr> \<rparr>"

lemma example_pending_eq:
  "example_pending = (registerOutgoingValPacket 256 (example_interest_packet 5) 100 example_fwd)
     \<lparr> vf_sched := sc_advance 100 (vf_sched (registerOutgoingValPacket 256 (example_interest_packet 5) 100 example_fwd)) \<rparr>"
  by (simp add: example_pending_def example_fwd_def registerOutgoingValPacket_def val_schedule_def scheduleEvent_def
      mkScheduler_def sc_advance_def example_pft_def pft_addEntry_def pft_findMatch_def mkPFT_def pft_modify_def
      setTimer_def mkPftEntry_def)

lemma example_pending_inv: "vf_inv example_pending"
proof -
  have "evolves example_fwd example_pending"
    unfolding example_pending_eq by (rule evolves_trans [OF evolves_registerOutgoing evolves_tick])
  with example_fwd_inv show ?thesis by (simp add: evolves_def)
qed

lemma example_pending_fires:
  "\<exists>s'. val_run example_pending [(Some 0, [SendValPacket 256 (example_interest_packet 5)])] s'"
proof -
  obtain s' where "val_step Timer example_pending = Def (s', [SendValPacket 256 (example_interest_packet 5)])"
    by (simp add: val_step_def fireTimer_def takeExpired_def example_pending_def forwardingTimerCallback_def
        example_pft_def pft_addEntry_def pft_findMatch_def mkPFT_def pft_modify_def setTimer_def mkPftEntry_def
        example_fwd_def ft_get_def setValNetFace_def face_sendValPacket_def Let_def)
  moreover have "step_entry Timer example_pending = Some 0"
    by (simp add: step_entry_def timer_of_def takeExpired_def example_pending_def)
  ultimately show ?thesis using val_run_step [OF _ val_run_Nil] by metis
qed

theorem transmissions_bounded_witness:
  "\<exists>tr s'. val_run example_pending tr s' \<and> transmissions 0 tr = 1 \<and> transmissions 0 tr \<le> 4"
proof -
  obtain s' where run: "val_run example_pending [(Some 0, [SendValPacket 256 (example_interest_packet 5)])] s'"
    using example_pending_fires by blast
  from transmissions_bounded [OF example_pending_inv run, of 0] run show ?thesis
    by (intro exI conjI) auto
qed

section \<open>Cancellation\<close>

text \<open>A heard packet that tells the owner of a pending entry that its transmission is not needed any more.\<close>

definition supersedes :: "val_packet \<Rightarrow> pft_entry \<Rightarrow> bool" where
  "supersedes pkt e \<longleftrightarrow>
     (let mine = uint (h_hopC (vp_valH (pe_pkt e))); theirs = uint (h_hopC (vp_valH pkt)) in
      pe_state e = WAITING_FORWARDING \<and> mine = theirs \<or>
      pe_state e = WAITING_IMPLICIT_ACK \<and> (mine - 1 = theirs \<or> vp_isSet (pe_pkt e) = DATA_SET \<and> mine = theirs))"

lemma quiet_val_cancel:
  assumes "vf_inv s" and "pft_heap (vf_pft s) p = Some e"
  shows "quiet p (val_cancel p s)"
  using idle_val_cancel [OF assms] assms pft_invD(3) [of "vf_pft s" p e]
  by (auto simp: quiet_def vf_inv_def timers_inv_def)

lemma preProcessing_silences:
  assumes "vf_inv s" and "pft_findMatch pkt (vf_pft s) = Some p" and "pft_heap (vf_pft s) p = Some e"
    and "supersedes pkt e" and "preProcessingValPacket pkt s = (fresh, s')"
  shows "\<not> fresh \<and> quiet p s'"
proof -
  let ?c = "val_cancel p s" and ?m = "\<lambda>s. s\<lparr> vf_pft := pft_modify p (snd \<circ> changeStateToWaintingImpAck) (vf_pft s) \<rparr>"
  note q = quiet_val_cancel [OF assms(1,3)]
  have m: "quiet p (?m ?c)" using q by (simp add: quiet_def table_simps)
  have rm: "quiet p (pft_remove pkt s1)" if "quiet p s1" for s1
    using that by (simp add: quiet_def pft_remove_def table_simps)
  show ?thesis
    using assms(2-5) q m rm [OF q] rm [OF m]
    by (auto simp: preProcessingValPacket_def supersedes_def Let_def split: if_splits)
qed

text \<open>C1: when the forwarder hears a packet with the hop counter of its own pending transmission while its
  forwarding timer runs (a better placed vehicle was faster), or the implicit acknowledgement while it
  waits for one, it drops the packet, and the pending entry never transmits again, whatever events
  follow.\<close>

theorem superseded_never_transmits:
  assumes "vf_inv s" and "pft_findMatch pkt (vf_pft s) = Some p" and "pft_heap (vf_pft s) p = Some e"
    and "supersedes pkt e" and "onReceivedValPacket f pkt s = Def (s', as)" and "val_run s' tr s''"
  shows "as = [] \<and> transmissions p tr = 0"
proof -
  obtain fresh s1 where s1: "preProcessingValPacket pkt s = (fresh, s1)" by fastforce
  from preProcessing_silences [OF assms(1-4) s1] have "\<not> fresh" "quiet p s1" by auto
  with assms(5) s1 have s': "s' = s1" "as = []" by (auto simp: onReceivedValPacket_def)
  have "vf_inv s'" using evolves_onReceived [OF assms(5)] assms(1) by (simp add: evolves_def)
  with val_run_quiet [OF assms(6), of p] \<open>quiet p s1\<close> s' show ?thesis by simp
qed

theorem superseded_never_transmits_witness:
  "\<exists>s' s''. onReceivedValPacket 256 (example_interest_packet 5) example_pending = Def (s', []) \<and>
     val_run s' [(step_entry Timer s', [])] s'' \<and> transmissions 0 [(step_entry Timer s', [])] = 0"
proof -
  let ?pkt = "example_interest_packet 5"
  obtain e where e: "pft_heap (vf_pft example_pending) 0 = Some e" "pe_state e = WAITING_FORWARDING" "pe_pkt e = ?pkt"
    by (simp add: example_pending_def example_pft_def pft_addEntry_def pft_findMatch_def mkPFT_def pft_modify_def
        setTimer_def mkPftEntry_def)
  have m: "pft_findMatch ?pkt (vf_pft example_pending) = Some 0"
    by (simp add: example_pending_def example_pft_def pft_addEntry_def pft_findMatch_def mkPFT_def pft_modify_def
        setTimer_def mkPftEntry_def ptr_match_def pkt_match_def example_packet_defs)
  have sup: "supersedes ?pkt e" using e(2,3) by (simp add: supersedes_def)
  obtain s1 where s1: "preProcessingValPacket ?pkt example_pending = (False, s1)"
    using m e by (simp add: preProcessingValPacket_def)
  have r: "onReceivedValPacket 256 ?pkt example_pending = Def (s1, [])" by (simp add: onReceivedValPacket_def s1)
  have "vf_sched s1 = \<lparr> sc_now = 100, sc_queue = [], sc_next = 1 \<rparr>"
    using s1 m e
    by (auto simp: preProcessingValPacket_def Let_def val_cancel_def cancelEvent_def example_pending_def
        example_pft_def pft_addEntry_def pft_findMatch_def mkPFT_def pft_modify_def setTimer_def mkPftEntry_def
        pft_remove_def split: if_splits)
  then have run: "val_run s1 [(step_entry Timer s1, [])] s1"
    by (intro val_run_step [OF _ val_run_Nil]) (simp add: val_step_def fireTimer_def takeExpired_def)
  from superseded_never_transmits [OF example_pending_inv m e(1) sup r run] r run show ?thesis by blast
qed

text \<open>Data that answers pending Interests.\<close>

lemma quiet_fold_cancel:
  assumes "vf_inv s" and "p \<in> set ps" and "pft_heap (vf_pft s) p = Some e"
  shows "quiet p (fold val_cancel ps s)"
  using assms
proof (induction ps arbitrary: s)
  case (Cons q qs)
  have inv: "vf_inv (val_cancel q s)" using evolves_val_cancel [of s q] Cons.prems(1) by (simp add: evolves_def)
  show ?case
  proof (cases "p = q")
    case True
    with quiet_val_cancel [OF Cons.prems(1,3)] evolves_fold_cancel [of "val_cancel q s" qs] inv
    show ?thesis by (simp add: evolves_def)
  next
    case False
    with Cons inv show ?thesis by simp
  qed
qed simp

lemma fold_cancel_sel [simp]: "vf_pft (fold val_cancel ps s) = vf_pft s"
  by (induction ps arbitrary: s) simp_all

lemma pft_removeEntries_keeps:
  "pft_heap (pft_removeEntriesByMatchList ps t) = pft_heap t"
  "pft_next (pft_removeEntriesByMatchList ps t) = pft_next t"
  "set (pft_list (pft_removeEntriesByMatchList ps t)) \<subseteq> set (pft_list t)"
proof (induction ps arbitrary: t)
  case (Cons p ps)
  { case 1 show ?case by (simp add: Cons table_simps split: option.splits) }
  { case 2 show ?case by (simp add: Cons table_simps split: option.splits) }
  { case 3 show ?case by (auto simp: table_simps split: option.splits dest!: subsetD [OF Cons(3)]) }
qed simp_all

lemma pft_removeEntries_gone:
  assumes "p \<in> set ps" and "pft_heap t p = Some e" and "pkt_match (pe_pkt e) (pe_pkt e)"
  shows "p \<notin> set (pft_list (pft_removeEntriesByMatchList ps t))"
  using assms
proof (induction ps arbitrary: t)
  case (Cons q qs)
  show ?case
  proof (cases "p = q")
    case True
    with Cons.prems have "p \<notin> set (pft_list (snd (pft_removeEntry (pe_pkt e) t)))"
      by (simp add: table_simps ptr_match_def)
    with True Cons.prems(2) pft_removeEntries_keeps(3) [of qs "snd (pft_removeEntry (pe_pkt e) t)"] show ?thesis by auto
  next
    case False
    with Cons show ?thesis by (auto simp: table_simps split: option.splits)
  qed
qed simp

lemma pft_pending_eq:
  assumes "pft_inv t" and "distinct ns"
  shows "pft_findMatchByNonceList ns t = pft_pending_nonces ns t"
  using pft_nonce_loop_eq [OF assms(2), of "[]" t "pft_list t"] pending_nonces_bound [OF assms]
  by (simp add: pft_findMatchByNonceList_def pft_pending_nonces_def)

lemma registerOutgoing_list:
  "set (pft_list (vf_pft (registerOutgoingValPacket out pkt d s))) \<subseteq> insert (pft_next (vf_pft s)) (set (pft_list (vf_pft s)))"
  by (cases "pft_findMatch (pe_pkt (mkPftEntry pkt out)) (vf_pft s)")
     (auto simp: registerOutgoingValPacket_def pft_addEntry_def val_schedule_def scheduleEvent_def pft_modify_def)

lemma val_send_list:
  "val_send r s = Def s' \<Longrightarrow> p < pft_next (vf_pft s) \<Longrightarrow> p \<notin> set (pft_list (vf_pft s)) \<Longrightarrow> p \<notin> set (pft_list (vf_pft s'))"
  using registerOutgoing_list [of _ _ _ s] by (fastforce simp: val_send_def bindU_eq_Def split: option.splits)

lemma cancelPendingInterests_silences:
  assumes "vf_inv s" and "distinct ns" and "p \<in> set (pft_list (vf_pft s))" and "ptr_nonce (vf_pft s) p = Some n" and "n \<in> set ns"
  shows "quiet p (cancelPendingInterests ns s) \<and> p \<notin> set (pft_list (vf_pft (cancelPendingInterests ns s)))"
proof -
  have inv: "pft_inv (vf_pft s)" using assms(1) by (simp add: vf_inv_def timers_inv_def)
  obtain e where e: "pft_heap (vf_pft s) p = Some e" "pkt_match (pe_pkt e) (pe_pkt e)"
    using assms(4) by (auto simp: ptr_nonce_def pkt_match_def split: option.splits if_splits)
  have p: "p \<in> set (pft_findMatchByNonceList ns (vf_pft s))"
    using assms(3-5) by (auto simp: pft_pending_eq [OF inv assms(2)] pft_pending_nonces_def)
  show ?thesis
    using quiet_fold_cancel [OF assms(1) p e(1)] pft_removeEntries_gone [OF p e]
    by (simp add: cancelPendingInterests_def Let_def quiet_def pft_removeEntries_keeps)
qed

text \<open>C4: Data from the network settles the Interests it answers. When NFD passes a Data packet that came
  from the network down with the nonces of the satisfied Interests, every pending transmission of an
  Interest with one of these nonces is removed from the table and never transmits again.\<close>

theorem data_settles_interests:
  assumes "vf_inv s" and "reveiceData env g d (Some ns) False s = Def s'" and "getCongestionMark d \<noteq> 501"
    and "dfnt_findMatch (d_signature d) (vf_dfnt s) = Some de" and "distinct ns" and "n \<in> set ns"
    and "p \<in> set (pft_list (vf_pft s))" and "ptr_nonce (vf_pft s) p = Some n" and "val_run s' tr s''"
  shows "p \<notin> set (pft_list (vf_pft s')) \<and> transmissions p tr = 0"
proof -
  let ?s1 = "s\<lparr> vf_ifnt := ifnt_removeEntriesByNonceList ns (vf_ifnt s) \<rparr>"
  let ?s2 = "dfnt_drop de (cancelPendingInterests ns ?s1)"
  have inv1: "vf_inv ?s1" using assms(1) evolves_tables(1) unfolding evolves_def by blast
  have c: "quiet p (cancelPendingInterests ns ?s1)" "p \<notin> set (pft_list (vf_pft (cancelPendingInterests ns ?s1)))"
    using cancelPendingInterests_silences [OF inv1 assms(5), of p n] assms(6-8) by auto
  have q2: "quiet p ?s2" "p \<notin> set (pft_list (vf_pft ?s2))" using c by (simp_all add: dfnt_drop_def quiet_def)
  have inv2: "vf_inv ?s2" using evolves_relay [of ?s1 de ns] inv1 unfolding evolves_def by blast
  have "s' = ?s2 \<or> (\<exists>r. val_send r ?s2 = Def s')"
    using assms(2-4) by (auto simp: reveiceData_def Let_def split: if_splits)
  then have "vf_inv s' \<and> quiet p s' \<and> p \<notin> set (pft_list (vf_pft s'))"
  proof (elim disjE exE)
    fix r assume r: "val_send r ?s2 = Def s'"
    from evolves_val_send [OF r] inv2 q2 val_send_list [OF r _ q2(2)] show ?thesis
      unfolding evolves_def by (auto simp: quiet_def)
  qed (use inv2 q2 in simp)
  with val_run_quiet [OF assms(9)] show ?thesis by simp
qed

theorem data_settles_interests_witness:
  "\<exists>s s' s''. vf_inv s \<and> pft_list (vf_pft s) = [0] \<and>
     reveiceData (example_env 0) 257 ((example_data 7)\<lparr> d_congestionMark := Some 500 \<rparr>) (Some [5]) False s = Def s' \<and>
     pft_list (vf_pft s') = [] \<and> val_run s' [(None, [])] s''"
proof -
  let ?d = "(example_data 7)\<lparr> d_congestionMark := Some 500 \<rparr>"
  let ?e = "mkDfntEntry (example_header 9) ?d 256"
  let ?s = "example_pending\<lparr> vf_dfnt := dfnt_addEntry ?e mkDfnt \<rparr>"
  have inv: "vf_inv ?s" using example_pending_inv evolves_tables(2) unfolding evolves_def by blast
  have f: "dfnt_findMatch (d_signature ?d) (vf_dfnt ?s) = Some ?e"
    by (simp add: dfnt_findMatch_def dfnt_addEntry_def mkDfnt_def mkDfntEntry_def)
  have l: "pft_list (vf_pft ?s) = [0]" and n: "ptr_nonce (vf_pft ?s) 0 = Some 5"
    by (simp_all add: example_pending_def example_pft_def pft_addEntry_def pft_findMatch_def mkPFT_def pft_modify_def
        setTimer_def mkPftEntry_def ptr_nonce_def example_packet_defs)
  obtain s' where r: "reveiceData (example_env 0) 257 ?d (Some [5]) False ?s = Def s'"
    using f by (simp add: reveiceData_def getCongestionMark_def)
  have keep: "set (pft_list (vf_pft s')) \<subseteq> {0}"
    using r f l pft_removeEntries_keeps(3) [of "pft_findMatchByNonceList [5] (vf_pft example_pending)" "vf_pft example_pending"]
    by (auto simp: reveiceData_def getCongestionMark_def dfnt_drop_def cancelPendingInterests_def Let_def)
  have run: "val_run s' [(None, [])] (s'\<lparr> vf_sched := sc_advance 1 (vf_sched s') \<rparr>)"
    using val_run_step [OF _ val_run_Nil, of "Tick 1" s'] by (simp add: val_step_def step_entry_def)
  have "0 \<notin> set (pft_list (vf_pft s'))"
    using data_settles_interests [OF inv r _ f _ _ _ n run] l by (simp add: getCongestionMark_def)
  with keep have "pft_list (vf_pft s') = []" by (cases "pft_list (vf_pft s')") auto
  with inv l r run show ?thesis by blast
qed

section \<open>Geo-faces\<close>

text \<open>
  Areas and faces of F2A correspond one to one, every face of F2A is a geo-face of the face table, and
  its id survives the \<open>uint32_t\<close> of \<open>makeGeoFaceFromValHeader\<close>.
\<close>

definition geo_inv :: "val_fwd \<Rightarrow> bool" where
  "geo_inv s \<longleftrightarrow> ft_inv (vf_faceTable s) \<and>
     distinct (map f2a_geoArea (f2a_list (vf_f2a s))) \<and> distinct (map f2a_faceId (f2a_list (vf_f2a s))) \<and>
     (\<forall>e\<in>set (f2a_list (vf_f2a s)). f2a_faceId e < 2 ^ 32 \<and>
        (\<exists>g. ft_get (f2a_faceId e) (vf_faceTable s) = Some g \<and> fc_isGeoFace g))"

text \<open>How far the ids handed out are from the \<open>uint32_t\<close> limit.\<close>

definition ids_left :: "nat \<Rightarrow> val_fwd \<Rightarrow> bool" where
  "ids_left k s \<longleftrightarrow> unat (ft_lastFaceId (vf_faceTable s)) + k < 2 ^ 32"

text \<open>The area resolves to the geo-face with this id.\<close>

definition area_face :: "string \<Rightarrow> face_id \<Rightarrow> val_fwd \<Rightarrow> bool" where
  "area_face area fid s \<longleftrightarrow> f2a_findByGeoArea area (vf_f2a s) = Some \<lparr> f2a_faceId = fid, f2a_geoArea = area \<rparr> \<and>
     (\<exists>g. ft_get fid (vf_faceTable s) = Some g \<and> fc_isGeoFace g)"

lemma ucast_down_up: "(x :: u64) < 2 ^ 32 \<Longrightarrow> ucast (ucast x :: u32) = x"
  by transfer (simp add: take_bit_eq_mod)

lemma geoFaceForArea_known:
  assumes "geo_inv s" and "f2a_findByGeoArea area (vf_f2a s) = Some e"
  shows "geoFaceForArea area s = Def (ucast (f2a_faceId e), s) \<and> area_face area (f2a_faceId e) s \<and>
    ucast (ucast (f2a_faceId e) :: u32) = f2a_faceId e"
proof -
  have e: "e \<in> set (f2a_list (vf_f2a s))" "f2a_geoArea e = area"
    using assms(2) by (auto simp: f2a_findByGeoArea_def dest: find_SomeD)
  then show ?thesis
    using assms ucast_down_up [of "f2a_faceId e"] by (auto simp: geoFaceForArea_def area_face_def geo_inv_def)
qed

lemma geoFaceForArea_new:
  assumes "geo_inv s" and "ids_left 1 s" and "f2a_findByGeoArea area (vf_f2a s) = None"
  obtains fid s' where "geoFaceForArea area s = Def (fid, s')" and "geo_inv s'" and "area_face area (ucast fid) s'"
    and "\<And>k. ids_left (Suc k) s \<Longrightarrow> ids_left k s'" and "\<And>a f. area_face a f s \<Longrightarrow> area_face a f s'"
    and "vf_ifnt s' = vf_ifnt s" and "vf_dfnt s' = vf_dfnt s" and "vf_pft s' = vf_pft s"
proof -
  let ?n = "ft_lastFaceId (vf_faceTable s) + 1"
  have ft: "ft_inv (vf_faceTable s)" using assms(1) by (simp add: geo_inv_def)
  have small: "unat (ft_lastFaceId (vf_faceTable s)) + 1 < 2 ^ 32" using assms(2) by (simp add: ids_left_def)
  have last: "ft_lastFaceId (vf_faceTable s) \<noteq> - 1" using small by (auto simp: unsigned_minus_1_eq_mask mask_eq_exp_minus_1)
  have un: "unat ?n = Suc (unat (ft_lastFaceId (vf_faceTable s)))" by (rule unat_Suc_u64 [OF last])
  have lt: "?n < 2 ^ 32" using small un by (simp add: word_less_nat_alt)
  obtain t where t: "ft_add makeGeoface (vf_faceTable s) = Def (?n, Some (AfterAdd ?n), t)" "ft_inv t"
    "ft_lastFaceId t = ?n" "ft_get ?n (vf_faceTable s) = None" "ft_get ?n t = Some (makeGeoface\<lparr> fc_id := ?n \<rparr>)"
    "\<And>k. k \<noteq> ?n \<Longrightarrow> ft_get k t = ft_get k (vf_faceTable s)"
    by (rule ft_add_fresh [OF ft _ last, of makeGeoface]) auto
  let ?e = "\<lparr> f2a_faceId = ?n, f2a_geoArea = area \<rparr>"
  let ?s = "s\<lparr> vf_faceTable := t, vf_f2a := f2a_addEntry ?e (vf_f2a s) \<rparr>"
  have new: "?e \<notin> set (f2a_list (vf_f2a s))" "area \<notin> f2a_geoArea ` set (f2a_list (vf_f2a s))"
    using assms(3) by (auto simp: f2a_findByGeoArea_def find_None_iff image_iff)
  have fid: "?n \<notin> f2a_faceId ` set (f2a_list (vf_f2a s))"
    using assms(1) t(4) by (force simp: geo_inv_def)
  have keep: "ft_get (f2a_faceId e) t = ft_get (f2a_faceId e) (vf_faceTable s)" if "e \<in> set (f2a_list (vf_f2a s))" for e
    using t(6) [of "f2a_faceId e"] fid that by (metis imageI)
  show thesis
  proof (rule that [of "ucast ?n" ?s])
    show "geoFaceForArea area s = Def (ucast ?n, ?s)"
      using assms(3) t(1) ucast_down_up [OF lt]
      by (simp add: geoFaceForArea_def l3_addFace_def onFaceSignal_def Let_def)
    show "geo_inv ?s"
      using assms(1) new fid t lt keep by (auto simp: geo_inv_def table_simps)
    show "area_face area (ucast (ucast ?n :: u32)) ?s"
      using assms(3) new t(5) ucast_down_up [OF lt]
      by (auto simp: area_face_def f2a_findByGeoArea_def table_simps find_append)
    show "ids_left (Suc k) s \<Longrightarrow> ids_left k ?s" for k by (simp add: ids_left_def t(3) un)
    fix a f assume af: "area_face a f s"
    then have "f \<noteq> ?n" using t(4) by (auto simp: area_face_def)
    then show "area_face a f ?s" using af t(6) new by (auto simp: area_face_def f2a_findByGeoArea_def table_simps find_append)
  qed simp_all
qed

lemma geoFaceForArea_ok:
  assumes "geo_inv s" and "ids_left 1 s"
  obtains fid s' where "geoFaceForArea area s = Def (fid, s')" and "geo_inv s'" and "area_face area (ucast fid) s'"
    and "\<And>k. ids_left (Suc k) s \<Longrightarrow> ids_left k s'" and "\<And>a f. area_face a f s \<Longrightarrow> area_face a f s'"
    and "vf_ifnt s' = vf_ifnt s" and "vf_dfnt s' = vf_dfnt s" and "vf_pft s' = vf_pft s"
proof (cases "f2a_findByGeoArea area (vf_f2a s)")
  case None
  show thesis by (rule geoFaceForArea_new [OF assms None]) (rule that)
next
  case (Some e)
  from geoFaceForArea_known [OF assms(1) Some] assms(1) show thesis
    by (intro that [of "ucast (f2a_faceId e)" s]) (auto simp: ids_left_def)
qed

lemma area_face_inj:
  assumes "geo_inv s" and "area_face a f s" and "area_face b f s"
  shows "a = b"
proof -
  have m: "\<lparr> f2a_faceId = f, f2a_geoArea = a \<rparr> \<in> set (f2a_list (vf_f2a s))" "\<lparr> f2a_faceId = f, f2a_geoArea = b \<rparr> \<in> set (f2a_list (vf_f2a s))"
    using assms(2,3) by (auto simp: area_face_def f2a_findByGeoArea_def dest: find_SomeD)
  have "inj_on f2a_faceId (set (f2a_list (vf_f2a s)))" using assms(1) by (simp add: geo_inv_def distinct_map)
  from inj_onD [OF this _ m] show ?thesis by simp
qed

lemma makeGeoFace_ok:
  assumes "geo_inv s" and "ids_left 2 s"
  obtains sa da s' where "makeGeoFaceFromValHeader h s = Def ((sa, da), s')" and "geo_inv s'"
    and "area_face (h_SA h) (ucast sa) s'" and "area_face (h_DA h) (ucast da) s'"
    and "\<And>a f. area_face a f s \<Longrightarrow> area_face a f s'" and "ids_left 0 s'"
    and "vf_ifnt s' = vf_ifnt s" and "vf_dfnt s' = vf_dfnt s" and "vf_pft s' = vf_pft s"
proof -
  have left: "ids_left 1 s" using assms(2) by (simp add: ids_left_def)
  obtain sa s1 where s1: "geoFaceForArea (h_SA h) s = Def (sa, s1)" "geo_inv s1" "area_face (h_SA h) (ucast sa) s1"
    "ids_left 1 s1" "\<And>a f. area_face a f s \<Longrightarrow> area_face a f s1"
    "vf_ifnt s1 = vf_ifnt s" "vf_dfnt s1 = vf_dfnt s" "vf_pft s1 = vf_pft s"
    by (rule geoFaceForArea_ok [OF assms(1) left, of "h_SA h"]) (use assms(2) in \<open>force simp: numeral_2_eq_2\<close>)
  obtain da s2 where s2: "geoFaceForArea (h_DA h) s1 = Def (da, s2)" "geo_inv s2" "area_face (h_DA h) (ucast da) s2"
    "ids_left 0 s2" "\<And>a f. area_face a f s1 \<Longrightarrow> area_face a f s2"
    "vf_ifnt s2 = vf_ifnt s1" "vf_dfnt s2 = vf_dfnt s1" "vf_pft s2 = vf_pft s1"
    by (rule geoFaceForArea_ok [OF s1(2,4), of "h_DA h"]) (use s1(4) in force)
  show thesis
    by (rule that [of sa da s2]) (use s1 s2 in \<open>auto simp: makeGeoFaceFromValHeader_def\<close>)
qed

text \<open>C6: as long as face ids stay below the \<open>uint32_t\<close> limit, \<open>makeGeoFaceFromValHeader\<close> always succeeds
  and returns the ids of geo-faces of the face table that stand for the source and the destination
  area; the two ids are equal exactly when the areas are, and every area that had a face keeps it.\<close>

theorem makeGeoFace_correct:
  assumes "geo_inv s" and "ids_left 2 s"
  shows "\<exists>sa da s'. makeGeoFaceFromValHeader h s = Def ((sa, da), s') \<and> geo_inv s' \<and>
    area_face (h_SA h) (ucast sa) s' \<and> area_face (h_DA h) (ucast da) s' \<and> (sa = da \<longleftrightarrow> h_SA h = h_DA h) \<and>
    (\<forall>a f. area_face a f s \<longrightarrow> area_face a f s')"
proof -
  obtain sa da s' where s': "makeGeoFaceFromValHeader h s = Def ((sa, da), s')" "geo_inv s'"
    "area_face (h_SA h) (ucast sa) s'" "area_face (h_DA h) (ucast da) s'" "\<And>a f. area_face a f s \<Longrightarrow> area_face a f s'"
    by (rule makeGeoFace_ok [OF assms, of h]) blast
  have "sa = da \<longleftrightarrow> h_SA h = h_DA h"
  proof
    assume "sa = da"
    with s'(4) have "area_face (h_DA h) (ucast sa) s'" by simp
    from area_face_inj [OF s'(2,3) this] show "h_SA h = h_DA h" .
  next
    assume "h_SA h = h_DA h"
    with s'(3,4) have "(ucast sa :: face_id) = ucast da" by (auto simp: area_face_def)
    then show "sa = da" by transfer simp
  qed
  with s' show ?thesis by blast
qed

lemma example_fwd_geo: "geo_inv example_fwd" "ids_left 2 example_fwd"
  by (auto simp: geo_inv_def ids_left_def example_fwd_def ft_inv_def ft_get_def setValNetFace_def mkFace_def
      FACEID_RESERVED_MAX_def)

theorem makeGeoFace_correct_witness:
  "\<exists>sa da s'. makeGeoFaceFromValHeader (example_header 9) example_fwd = Def ((sa, da), s') \<and> sa \<noteq> da \<and>
     area_face ''A1'' (ucast sa) s' \<and> area_face ''0'' (ucast da) s'"
  using makeGeoFace_correct [OF example_fwd_geo, of "example_header 9"]
  by (auto simp: example_header_def mkValHeader_def)

section \<open>Received Interests\<close>

lemma ifnt_add_new: "ifnt_findMatch e t = None \<Longrightarrow> fst (ifnt_addEntry e t)"
  by (simp add: ifnt_addEntry_def)

lemma ifnt_findMatch_added: "ifnt_findMatch e (snd (ifnt_addEntry e t)) \<noteq> None"
  by (auto simp: ifnt_addEntry_def ifnt_findMatch_def find_None_iff)

lemma geo_inv_ifnt [simp]: "geo_inv (s\<lparr> vf_ifnt := t \<rparr>) = geo_inv s" "ids_left k (s\<lparr> vf_ifnt := t \<rparr>) = ids_left k s"
  by (simp_all add: geo_inv_def ids_left_def)

text \<open>The Interest as NFD gets it: a known destination area fixes the next hop.\<close>

definition tagged :: "val_header \<Rightarrow> face_id \<Rightarrow> interest \<Rightarrow> interest" where
  "tagged h da i = (if h_DA h \<noteq> ''0'' then i\<lparr> in_nextHopFaceId := Some da \<rparr> else i)"



end
