(* ===== verification/Lp_Packet.thy ===== *)
theory Lp_Packet
  imports Val_Header
begin

text \<open>
  NDNLPv2 packets (\<open>src/ndn-cxx/ndn-cxx/lp/packet.{hpp,cpp}\<close>, \<open>field-decl.hpp\<close>, \<open>fields.hpp\<close>) with the
  ValHeader field that VAL adds. A packet is the list of its field elements, kept in the order in which
  they go on the wire, with the wire block it was decoded from until it is modified.
\<close>

section \<open>Fields\<close>

definition tlv_LpPacket :: u32 where "tlv_LpPacket = 100"
definition tlv_Fragment :: u32 where "tlv_Fragment = 80"
definition tlv_Sequence :: u32 where "tlv_Sequence = 81"
definition tlv_FragIndex :: u32 where "tlv_FragIndex = 82"
definition tlv_FragCount :: u32 where "tlv_FragCount = 83"
definition tlv_HopCountTag :: u32 where "tlv_HopCountTag = 84"
definition tlv_Nack :: u32 where "tlv_Nack = 800"
definition tlv_NextHopFaceId :: u32 where "tlv_NextHopFaceId = 816"
definition tlv_IncomingFaceId :: u32 where "tlv_IncomingFaceId = 817"
definition tlv_CachePolicy :: u32 where "tlv_CachePolicy = 820"
definition tlv_CachePolicyType :: u32 where "tlv_CachePolicyType = 821"
definition tlv_CongestionMark :: u32 where "tlv_CongestionMark = 832"
definition tlv_Ack :: u32 where "tlv_Ack = 836"
definition tlv_TxSequence :: u32 where "tlv_TxSequence = 840"
definition tlv_NonDiscovery :: u32 where "tlv_NonDiscovery = 844"
definition tlv_PrefixAnnouncement :: u32 where "tlv_PrefixAnnouncement = 848"
definition tlv_Interest :: u32 where "tlv_Interest = 5"
definition tlv_Data :: u32 where "tlv_Data = 6"

lemmas lp_types = tlv_LpPacket_def tlv_Fragment_def tlv_Sequence_def tlv_FragIndex_def tlv_FragCount_def
  tlv_HopCountTag_def tlv_Nack_def tlv_NextHopFaceId_def tlv_IncomingFaceId_def tlv_CachePolicy_def
  tlv_CachePolicyType_def tlv_CongestionMark_def tlv_Ack_def tlv_TxSequence_def tlv_NonDiscovery_def
  tlv_PrefixAnnouncement_def tlv_Interest_def tlv_Data_def tlv_ValHeader_def

text \<open>TLV-TYPE, whether the field is repeatable, and the sort order of its location (Header 1, Fragment 2).\<close>

definition FieldSet :: "(u32 \<times> bool \<times> int) list" where
  "FieldSet = [(tlv_Fragment, False, 2), (tlv_Sequence, False, 1), (tlv_FragIndex, False, 1), (tlv_FragCount, False, 1),
     (tlv_Nack, False, 1), (tlv_NextHopFaceId, False, 1), (tlv_CachePolicy, False, 1), (tlv_IncomingFaceId, False, 1),
     (tlv_CongestionMark, False, 1), (tlv_Ack, True, 1), (tlv_TxSequence, False, 1), (tlv_NonDiscovery, False, 1),
     (tlv_PrefixAnnouncement, False, 1), (tlv_HopCountTag, False, 1), (tlv_ValHeader, False, 1)]"

record field_info =
  fi_tlvType :: u32
  fi_isRecognized :: bool
  fi_canIgnore :: bool
  fi_isRepeatable :: bool
  fi_locationSortOrder :: int

definition mkFieldInfo :: "u32 \<Rightarrow> field_info" where
  "mkFieldInfo t =
     (case map_of FieldSet t of
        Some (rep, loc) \<Rightarrow> \<lparr> fi_tlvType = t, fi_isRecognized = True, fi_canIgnore = False, fi_isRepeatable = rep,
                             fi_locationSortOrder = loc \<rparr>
      | None \<Rightarrow> \<lparr> fi_tlvType = t, fi_isRecognized = False, fi_canIgnore = 800 \<le> t \<and> t \<le> 959 \<and> and t 3 = 0,
                  fi_isRepeatable = False, fi_locationSortOrder = 1 \<rparr>)"

definition compareFieldSortOrder :: "field_info \<Rightarrow> field_info \<Rightarrow> bool" where
  "compareFieldSortOrder a b \<longleftrightarrow> fi_locationSortOrder a < fi_locationSortOrder b \<or>
     fi_locationSortOrder a = fi_locationSortOrder b \<and> fi_tlvType a < fi_tlvType b"

section \<open>Packets\<close>

record lp_packet =
  lp_elements :: "block list"
  lp_wire :: "block option"

definition lp_empty :: lp_packet where "lp_empty = \<lparr> lp_elements = [], lp_wire = None \<rparr>"

definition lp_count :: "u32 \<Rightarrow> lp_packet \<Rightarrow> nat" where
  "lp_count t p = length (filter (\<lambda>b. blk_type b = t) (lp_elements p))"

definition lp_has :: "u32 \<Rightarrow> lp_packet \<Rightarrow> bool" where "lp_has t p \<longleftrightarrow> lp_count t p > 0"

definition lp_get :: "u32 \<Rightarrow> lp_packet \<Rightarrow> tlv_error + block" where
  "lp_get t p = (case List.find (\<lambda>b. blk_type b = t) (lp_elements p) of None \<Rightarrow> Inl FieldAbsent | Some b \<Rightarrow> Inr b)"

definition comparePos :: "u32 \<Rightarrow> block \<Rightarrow> bool" where
  "comparePos t b = compareFieldSortOrder (mkFieldInfo t) (mkFieldInfo (blk_type b))"

text \<open>The elements are partitioned by \<open>comparePos\<close>, so \<open>std::upper_bound\<close> is the first greater element.\<close>

definition lp_insert :: "block \<Rightarrow> block list \<Rightarrow> block list" where
  "lp_insert b es = takeWhile (\<lambda>e. \<not> comparePos (blk_type b) e) es @ b # dropWhile (\<lambda>e. \<not> comparePos (blk_type b) e) es"

definition lp_add :: "block \<Rightarrow> lp_packet \<Rightarrow> tlv_error + lp_packet" where
  "lp_add b p =
     (if \<not> fi_isRepeatable (mkFieldInfo (blk_type b)) \<and> lp_has (blk_type b) p then Inl (FieldNotRepeatable (blk_type b))
      else Inr \<lparr> lp_elements = lp_insert b (lp_elements p), lp_wire = None \<rparr>)"

definition lp_clear :: "u32 \<Rightarrow> lp_packet \<Rightarrow> lp_packet" where
  "lp_clear t p = \<lparr> lp_elements = blk_remove t (lp_elements p), lp_wire = None \<rparr>"

definition lp_set :: "block \<Rightarrow> lp_packet \<Rightarrow> tlv_error + lp_packet" where
  "lp_set b p = lp_add b (lp_clear (blk_type b) p)"

text \<open>The element a field's \<open>encode\<close> writes, for the kinds of values a field can have.\<close>

definition field_nni :: "u32 \<Rightarrow> u64 \<Rightarrow> tlv_error + block" where
  "field_nni t n = encoder_block (fst (prependNonNegativeIntegerBlock t n (mkEncoder (est_prependNonNegativeIntegerBlock t n) 0)))"

definition field_u64 :: "u32 \<Rightarrow> u64 \<Rightarrow> tlv_error + block" where
  "field_u64 t n = encoder_block (fst (prependByteArrayBlock t (be_bytes 8 (unat n)) (mkEncoder (est_prependByteArrayBlock t (be_bytes 8 (unat n))) 0)))"

definition field_range :: "u32 \<Rightarrow> byte list \<Rightarrow> tlv_error + block" where
  "field_range t xs = encoder_block (fst (close_element t (prependByteArray xs) (mkEncoder (est_prependByteArrayBlock t xs) 0)))"

definition field_empty :: "u32 \<Rightarrow> tlv_error + block" where
  "field_empty t = encoder_block (fst (prependEmptyBlock t (mkEncoder (est_prependByteArrayBlock t []) 0)))"

definition field_valHeader :: "val_header \<Rightarrow> tlv_error + block" where
  "field_valHeader h = encoder_block (fst (wireEncode_header h (mkEncoder (wireEncode_header_estimate h) 0)))"

definition decode_u64 :: "block \<Rightarrow> tlv_error + u64" where
  "decode_u64 b = (if length (blk_value b) \<noteq> 8 then Inl InvalidIntegerLength else Inr (of_nat (be_nat (blk_value b))))"

definition decode_range :: "block \<Rightarrow> tlv_error + byte list" where
  "decode_range b = (if blk_value b = [] then Inl EmptyBuffer else Inr (blk_value b))"

definition decode_empty :: "block \<Rightarrow> tlv_error + unit" where
  "decode_empty b = (if blk_value b \<noteq> [] then Inl LengthMismatch else Inr ())"

section \<open>Wire format\<close>

text \<open>
  \<open>wireEncode\<close>: a packet that is only a Fragment is its network packet. The \<open>front()\<close> of a Fragment
  without elements, which has no meaning, is reported as an error.
\<close>

definition lp_tree :: "lp_packet \<Rightarrow> block_tree" where
  "lp_tree p = NestedBlock tlv_LpPacket (map (\<lambda>b. ValueBlock (blk_type b) (length (blk_wire b)) (blk_value b)) (lp_elements p))"

definition lp_encode :: "lp_packet \<Rightarrow> block" where
  "lp_encode p = (case lp_wire p of Some w \<Rightarrow> w | None \<Rightarrow> tree_block (lp_tree p))"

definition lp_wireEncode :: "lp_packet \<Rightarrow> tlv_error + block" where
  "lp_wireEncode p =
     (case lp_elements p of
        [b] \<Rightarrow>
          if blk_type b = tlv_Fragment
          then bindR (elements_of (blk_value b)) (\<lambda>es. case es of [] \<Rightarrow> Inl EmptyBuffer | e # _ \<Rightarrow> Inr e)
          else Inr (lp_encode p)
      | _ \<Rightarrow> Inr (lp_encode p))"

fun lp_check :: "field_info option \<Rightarrow> block list \<Rightarrow> tlv_error + unit" where
  "lp_check prev [] = Inr ()"
| "lp_check prev (b # bs) =
     (let info = mkFieldInfo (blk_type b) in
      if \<not> fi_isRecognized info \<and> \<not> fi_canIgnore info then Inl (UnrecognizedField (blk_type b))
      else
        (case prev of
           None \<Rightarrow> lp_check (Some info) bs
         | Some q \<Rightarrow>
             if fi_tlvType info = fi_tlvType q \<and> \<not> fi_isRepeatable info then Inl (FieldNotRepeatable (blk_type b))
             else if fi_tlvType info \<noteq> fi_tlvType q \<and> \<not> compareFieldSortOrder q info then Inl (FieldOutOfOrder (blk_type b))
             else lp_check (Some info) bs))"

definition lp_wireDecode :: "block \<Rightarrow> tlv_error + lp_packet" where
  "lp_wireDecode w =
     (if blk_type w = tlv_Interest \<or> blk_type w = tlv_Data then
        bindR (field_range tlv_Fragment (blk_wire w)) (\<lambda>b. lp_add b lp_empty)
      else if blk_type w \<noteq> tlv_LpPacket then Inl (UnexpectedType (blk_type w))
      else
        bindR (elements_of (blk_value w)) (\<lambda>es.
        bindR (lp_check None es) (\<lambda>_. Inr \<lparr> lp_elements = es, lp_wire = Some w \<rparr>)))"

section \<open>Order of the fields\<close>

text \<open>The Fragment comes last, the other fields ascend.\<close>

definition lp_key :: "u32 \<Rightarrow> nat" where
  "lp_key t = (if t = tlv_Fragment then 4294967296 else unat t)"

definition lp_sorted :: "block list \<Rightarrow> bool" where
  "lp_sorted es \<longleftrightarrow> sorted_wrt (<) (map (lp_key \<circ> blk_type) es)"

lemma FieldSet_loc: "map_of FieldSet t = Some (rep, loc) \<Longrightarrow> loc = (if t = tlv_Fragment then 2 else 1)"
  by (auto simp: FieldSet_def lp_types split: if_splits)

lemma mkFieldInfo_sel [simp]:
  "fi_tlvType (mkFieldInfo t) = t" "fi_locationSortOrder (mkFieldInfo t) = (if t = tlv_Fragment then 2 else 1)"
proof -
  have "map_of FieldSet tlv_Fragment = Some (False, 2)" by (simp add: FieldSet_def)
  then show "fi_locationSortOrder (mkFieldInfo t) = (if t = tlv_Fragment then 2 else 1)"
    by (auto simp: mkFieldInfo_def split: option.splits dest: FieldSet_loc)
qed (simp add: mkFieldInfo_def split: option.splits)

lemma unat_u32_neq [simp]: "unat (t :: u32) \<noteq> 4294967296" "\<not> 4294967296 < unat (t :: u32)"
  using unat_u32_le [of t] by linarith+

lemma compareFieldSortOrder_key: "compareFieldSortOrder (mkFieldInfo s) (mkFieldInfo t) \<longleftrightarrow> lp_key s < lp_key t"
  by (auto simp: compareFieldSortOrder_def lp_key_def word_less_nat_alt)

lemma comparePos_key: "comparePos t b \<longleftrightarrow> lp_key t < lp_key (blk_type b)"
  by (simp add: comparePos_def compareFieldSortOrder_key)

lemma lp_key_inj [simp]: "lp_key s = lp_key t \<longleftrightarrow> s = t"
  using unat_u32_neq(1) [of s] unat_u32_neq(1) [of t] by (auto simp: lp_key_def word_unat_eq_iff)

lemma lp_has_iff: "lp_has t p \<longleftrightarrow> t \<in> blk_type ` set (lp_elements p)"
  by (auto simp: lp_has_def lp_count_def filter_empty_conv)

lemma set_lp_insert [simp]: "set (lp_insert b es) = insert b (set es)"
proof -
  have "set (takeWhile P es) \<union> set (dropWhile P es) = set es" for P
    by (metis set_append takeWhile_dropWhile_id)
  then show ?thesis by (auto simp: lp_insert_def)
qed

lemma lp_sorted_Cons [simp]: "lp_sorted (e # es) \<longleftrightarrow> (\<forall>x\<in>set es. lp_key (blk_type e) < lp_key (blk_type x)) \<and> lp_sorted es"
  by (auto simp: lp_sorted_def)

lemma lp_sorted_Nil [simp]: "lp_sorted []"
  by (simp add: lp_sorted_def)

lemma lp_insert_Nil [simp]: "lp_insert b [] = [b]"
  by (simp add: lp_insert_def)

lemma lp_insert_Cons: "lp_insert b (e # es) = (if lp_key (blk_type b) < lp_key (blk_type e) then b # e # es else e # lp_insert b es)"
  by (simp add: lp_insert_def comparePos_key)

lemma lp_sorted_insert:
  "lp_sorted es \<Longrightarrow> blk_type b \<notin> blk_type ` set es \<Longrightarrow> lp_sorted (lp_insert b es)"
proof (induction es)
  case (Cons e es)
  then have "lp_key (blk_type b) \<noteq> lp_key (blk_type e)" by simp
  with Cons show ?case by (auto simp: lp_insert_Cons)
qed simp

lemma lp_sorted_filter: "lp_sorted es \<Longrightarrow> lp_sorted (filter P es)"
  by (induction es) auto

lemma lp_sorted_distinct: "lp_sorted es \<Longrightarrow> distinct (map blk_type es)"
  by (induction es) (force simp: image_iff)+

text \<open>In a sorted packet a field is found wherever it was inserted.\<close>

lemma lp_find_unique:
  "distinct (map blk_type es) \<Longrightarrow> b \<in> set es \<Longrightarrow> List.find (\<lambda>x. blk_type x = blk_type b) es = Some b"
  by (induction es) (auto simp: image_iff)

definition lp_wf :: "lp_packet \<Rightarrow> bool" where
  "lp_wf p \<longleftrightarrow> lp_sorted (lp_elements p) \<and> (\<forall>b\<in>set (lp_elements p). blk_valid b \<and> fi_isRecognized (mkFieldInfo (blk_type b)))"

lemma lp_get_wf: "lp_wf p \<Longrightarrow> b \<in> set (lp_elements p) \<Longrightarrow> lp_get (blk_type b) p = Inr b"
  by (simp add: lp_wf_def lp_get_def lp_find_unique lp_sorted_distinct)

lemma lp_empty_wf [simp]: "lp_wf lp_empty" "lp_elements lp_empty = []"
  by (simp_all add: lp_wf_def lp_empty_def)

lemma lp_add_new:
  "blk_type b \<notin> blk_type ` set (lp_elements p) \<Longrightarrow> lp_add b p = Inr \<lparr> lp_elements = lp_insert b (lp_elements p), lp_wire = None \<rparr>"
  by (simp add: lp_add_def lp_has_iff)

lemma lp_add_wf:
  assumes "lp_wf p" and "blk_type b \<notin> blk_type ` set (lp_elements p)" and "blk_valid b" and "fi_isRecognized (mkFieldInfo (blk_type b))"
  obtains q where "lp_add b p = Inr q" and "lp_wf q" and "set (lp_elements q) = insert b (set (lp_elements p))"
    and "lp_wire q = None"
  using assms lp_sorted_insert [of "lp_elements p" b] lp_add_new [OF assms(2)] that by (auto simp: lp_wf_def)

lemma lp_set_wf:
  assumes "lp_wf p" and "blk_valid b" and "fi_isRecognized (mkFieldInfo (blk_type b))"
  obtains q where "lp_set b p = Inr q" and "lp_wf q"
    and "set (lp_elements q) = insert b {x \<in> set (lp_elements p). blk_type x \<noteq> blk_type b}" and "lp_wire q = None"
proof -
  have "lp_wf (lp_clear (blk_type b) p)" using assms(1) by (auto simp: lp_wf_def lp_clear_def blk_remove_def lp_sorted_filter)
  moreover have "blk_type b \<notin> blk_type ` set (lp_elements (lp_clear (blk_type b) p))"
    by (auto simp: lp_clear_def blk_remove_def)
  ultimately obtain q where "lp_add b (lp_clear (blk_type b) p) = Inr q" "lp_wf q" "lp_wire q = None"
    "set (lp_elements q) = insert b (set (lp_elements (lp_clear (blk_type b) p)))"
    using assms(2,3) by (metis lp_add_wf)
  then show thesis by (intro that [of q]) (auto simp: lp_set_def lp_clear_def blk_remove_def)
qed

section \<open>Encoded fields\<close>

lemma encoder_block_prepends:
  assumes "prepends f (tlv_bytes t xs)" and "length xs < 2 ^ 64"
  shows "encoder_block (fst (f (mkEncoder n k))) = Inr (mkBlock t xs)"
  using encoder_block_tlv_bytes [OF _ assms(2)] prependsD(2) [OF assms(1), of "mkEncoder n k"] by simp

lemma field_nni_eq [tlv_simps]: "field_nni t n = Inr (mkBlock t (writeNonNegativeInteger n))"
  unfolding field_nni_def
  using sizeOfNonNegativeInteger_le [of n] by (intro encoder_block_prepends prepends_NonNegativeIntegerBlock) simp

lemma field_u64_eq [tlv_simps]: "field_u64 t n = Inr (mkBlock t (be_bytes 8 (unat n)))"
  unfolding field_u64_def by (intro encoder_block_prepends prepends_ByteArrayBlock) simp

lemma field_range_eq [tlv_simps]: "length xs < 2 ^ 64 \<Longrightarrow> field_range t xs = Inr (mkBlock t xs)"
  unfolding field_range_def by (intro encoder_block_prepends prepends_close prepends_ByteArray)

lemma field_empty_eq [tlv_simps]: "field_empty t = Inr (mkBlock t [])"
  unfolding field_empty_def by (intro encoder_block_prepends prepends_EmptyBlock) simp

lemma field_valHeader_eq [tlv_simps]: "header_fits h \<Longrightarrow> field_valHeader h = Inr (mkBlock tlv_ValHeader (header_value h))"
  unfolding field_valHeader_def by (intro encoder_block_prepends wireEncode_header_refines header_fits_elements)

lemma decode_u64_eq [tlv_simps]: "decode_u64 (mkBlock t (be_bytes 8 (unat n))) = Inr n"
  using unat_u64_bound [of n] by (simp add: decode_u64_def)

section \<open>Round trip\<close>

lemma lp_check_sorted:
  assumes "lp_sorted es" and "\<forall>b\<in>set es. fi_isRecognized (mkFieldInfo (blk_type b))"
    and "\<And>q. prev = Some q \<Longrightarrow> \<exists>t. q = mkFieldInfo t \<and> (\<forall>b\<in>set es. lp_key t < lp_key (blk_type b))"
  shows "lp_check prev es = Inr ()"
  using assms
proof (induction es arbitrary: prev)
  case (Cons b bs)
  have IH: "lp_check (Some (mkFieldInfo (blk_type b))) bs = Inr ()"
    using Cons.prems by (intro Cons.IH) auto
  show ?case
  proof (cases prev)
    case None
    with Cons.prems IH show ?thesis by (simp add: Let_def)
  next
    case (Some q)
    then obtain t where q: "q = mkFieldInfo t" "lp_key t < lp_key (blk_type b)" using Cons.prems(3) by auto
    then have "t \<noteq> blk_type b" by auto
    with Some q Cons.prems IH show ?thesis by (simp add: Let_def compareFieldSortOrder_key)
  qed
qed simp

lemma lp_encode_eq:
  assumes "lp_wf p" and "lp_wire p = None"
  shows "lp_encode p = mkBlock tlv_LpPacket (concat (map blk_wire (lp_elements p)))"
proof -
  have "tree_block (ValueBlock (blk_type b) n (blk_value b)) = b" if "b \<in> set (lp_elements p)" for b n
    using assms(1) that by (auto simp: lp_wf_def blk_valid_def)
  then have "map (blk_wire \<circ> tree_block) (map (\<lambda>b. ValueBlock (blk_type b) (length (blk_wire b)) (blk_value b)) (lp_elements p))
      = map blk_wire (lp_elements p)" by simp
  then show ?thesis using assms(2) by (simp only: lp_encode_def lp_tree_def tree_block.simps option.case)
qed

lemma lp_decode_encode:
  assumes "lp_wf p" and "lp_wire p = None"
  shows "lp_wireDecode (lp_encode p) = Inr \<lparr> lp_elements = lp_elements p, lp_wire = Some (lp_encode p) \<rparr>"
  using assms lp_check_sorted [of "lp_elements p" None] elements_of_concat [of "lp_elements p"]
  by (simp add: lp_encode_eq lp_wireDecode_def lp_wf_def lp_types)

end
