(* ===== verification/Lp_Fragmentation.thy ===== *)
theory Lp_Fragmentation
  imports Lp_Packet Nfd_Scheduler
begin

text \<open>
  Fragmentation and reassembly of NDNLPv2 packets (\<open>src/NFD/daemon/face/lp-fragmenter.cpp\<close>,
  \<open>lp-reassembler.cpp\<close>). Failed assertions and accesses past the end of the fragment vector are
  \<open>Undef\<close>; the proofs show that neither happens.
\<close>

section \<open>Fragmenter\<close>

definition MAX_SINGLE_FRAG_OVERHEAD :: nat where "MAX_SINGLE_FRAG_OVERHEAD = 1 + 9 + (1 + 1 + 8) + (1 + 9)"
definition MAX_FRAG_OVERHEAD :: nat where
  "MAX_FRAG_OVERHEAD = 1 + 9 + (1 + 1 + 8) + (1 + 1 + 8) + (1 + 1 + 8) + (1 + 9)"

text \<open>The fields of one fragment.\<close>

definition make_frag :: "nat \<Rightarrow> nat \<Rightarrow> byte list \<Rightarrow> lp_packet \<Rightarrow> tlv_error + lp_packet" where
  "make_frag fragIndex fragCount payload p =
     bindR (bindR (field_nni tlv_FragIndex (of_nat fragIndex)) (\<lambda>b. lp_add b p)) (\<lambda>p1.
     bindR (bindR (field_nni tlv_FragCount (of_nat fragCount)) (\<lambda>b. lp_add b p1)) (\<lambda>p2.
     bindR (field_range tlv_Fragment payload) (\<lambda>b. lp_set b p2)))"

text \<open>The loop that fills \<open>frags\<close>; \<open>rest\<close> are the bytes from \<open>fragBegin\<close>, \<open>chunk\<close> the distance to \<open>fragEnd\<close>.\<close>

function frag_loop :: "nat \<Rightarrow> nat \<Rightarrow> nat \<Rightarrow> nat \<Rightarrow> byte list \<Rightarrow> nat \<Rightarrow> lp_packet list \<Rightarrow> (tlv_error + nat \<times> lp_packet list) outcome" where
  "frag_loop mtu fragCount payloadSize fragIndex rest chunk frags =
     (if rest = [] then Def (Inr (fragIndex, frags))
      else if fragIndex \<ge> length frags then Undef EndDereference
      else case make_frag fragIndex fragCount (take chunk rest) (frags ! fragIndex) of
        Inl err \<Rightarrow> Def (Inl err)
      | Inr frag \<Rightarrow>
          (case lp_wireEncode frag of
             Inl err \<Rightarrow> Def (Inl err)
           | Inr w \<Rightarrow>
               if length (blk_wire w) > mtu then Undef AssertionFailed
               else frag_loop mtu fragCount payloadSize (Suc fragIndex) (drop chunk rest)
                      (min (length (drop chunk rest)) payloadSize) (frags[fragIndex := frag])))"
  by pat_completeness auto
termination
  by (relation "measure (\<lambda>(_, _, _, i, _, _, frags). length frags - i)") auto

declare frag_loop.simps [simp del]

text \<open>The elements of the encoded LpPacket are those of the packet.\<close>

definition header_size :: "block \<Rightarrow> lp_packet \<Rightarrow> nat" where
  "header_size packetWire p =
     (if blk_type packetWire = tlv_LpPacket
      then sum_list (map (length \<circ> blk_wire) (filter (\<lambda>e. blk_type e \<noteq> tlv_Fragment) (lp_elements p)))
      else 0)"

definition fragmentPacket :: "nat \<Rightarrow> lp_packet \<Rightarrow> nat \<Rightarrow> (tlv_error + lp_packet list option) outcome" where
  "fragmentPacket nMaxFragments p mtu =
     (if \<not> lp_has tlv_Fragment p \<or> lp_has tlv_FragIndex p \<or> lp_has tlv_FragCount p then Undef AssertionFailed
      else case lp_wireEncode p of
        Inl err \<Rightarrow> Def (Inl err)
      | Inr w \<Rightarrow>
          if MAX_SINGLE_FRAG_OVERHEAD + length (blk_wire w) \<le> mtu then Def (Inr (Some [p]))
          else
            (case bindR (lp_get tlv_Fragment p) decode_range of
               Inl err \<Rightarrow> Def (Inl err)
             | Inr netPkt \<Rightarrow>
                 let netPktSize = length netPkt;
                     firstHeaderSize = header_size w p
                 in
                 if MAX_FRAG_OVERHEAD + firstHeaderSize + 1 > mtu then Def (Inr None)
                 else
                   let firstPayloadSize = min netPktSize (mtu - firstHeaderSize - MAX_FRAG_OVERHEAD);
                       payloadSize = mtu - MAX_FRAG_OVERHEAD;
                       fragCount = 1 + (netPktSize - firstPayloadSize) div payloadSize +
                         (if (netPktSize - firstPayloadSize) mod payloadSize \<noteq> 0 then 1 else 0)
                   in
                   if fragCount > nMaxFragments then Def (Inr None)
                   else
                     bindU (frag_loop mtu fragCount payloadSize 0 netPkt firstPayloadSize
                              (p # replicate (fragCount - 1) lp_empty)) (\<lambda>r.
                       case r of
                         Inl err \<Rightarrow> Def (Inl err)
                       | Inr (fragIndex, frags) \<Rightarrow>
                           if fragIndex \<noteq> fragCount then Undef AssertionFailed else Def (Inr (Some frags)))))"

section \<open>Reassembler\<close>

type_synonym frag_key = "u64 \<times> u64"

record partial_packet =
  pp_fragments :: "lp_packet list"
  pp_fragCount :: u64
  pp_nReceivedFragments :: nat
  pp_dropTimer :: "nat option"

record reassembler =
  ra_partialPackets :: "frag_key \<Rightarrow> partial_packet option"
  ra_sched :: "frag_key scheduler"

definition mkReassembler :: reassembler where
  "mkReassembler = \<lparr> ra_partialPackets = (\<lambda>_. None), ra_sched = mkScheduler \<rparr>"

definition lp_nni_or :: "u32 \<Rightarrow> u64 \<Rightarrow> lp_packet \<Rightarrow> tlv_error + u64" where
  "lp_nni_or t d p = (if lp_has t p then bindR (lp_get t p) readNonNegativeIntegerBlock else Inr d)"

definition lp_payload :: "lp_packet \<Rightarrow> tlv_error + byte list" where
  "lp_payload p = bindR (lp_get tlv_Fragment p) decode_range"

primrec concat_payloads :: "lp_packet list \<Rightarrow> tlv_error + byte list" where
  "concat_payloads [] = Inr []"
| "concat_payloads (f # fs) = bindR (lp_payload f) (\<lambda>x. bindR (concat_payloads fs) (\<lambda>xs. Inr (x @ xs)))"

definition doReassembly :: "partial_packet \<Rightarrow> tlv_error + block" where
  "doReassembly pp = bindR (concat_payloads (pp_fragments pp)) blockOfBuffer"

text \<open>
  A fragment is added to the partial packet of its message, which is created on demand. Assigning a
  new drop timer cancels the one before.
\<close>

definition partial_of :: "frag_key \<Rightarrow> u64 \<Rightarrow> reassembler \<Rightarrow> partial_packet" where
  "partial_of key fragCount r =
     (case ra_partialPackets r key of
        None \<Rightarrow> \<lparr> pp_fragments = replicate (unat fragCount) lp_empty, pp_fragCount = fragCount,
                  pp_nReceivedFragments = 0, pp_dropTimer = None \<rparr>
      | Some pp \<Rightarrow> pp)"

definition addFragment :: "int \<Rightarrow> frag_key \<Rightarrow> u64 \<Rightarrow> u64 \<Rightarrow> lp_packet \<Rightarrow> reassembler \<Rightarrow>
    (tlv_error + (block \<times> lp_packet) option) \<times> reassembler" where
  "addFragment timeout key fragIndex fragCount p r =
     (let pp = partial_of key fragCount r in
      if fragCount \<noteq> pp_fragCount pp then (Inr None, r)
      else if lp_has tlv_Sequence (pp_fragments pp ! unat fragIndex) then (Inr None, r)
      else
        let pp' = pp\<lparr> pp_fragments := (pp_fragments pp)[unat fragIndex := p],
                      pp_nReceivedFragments := pp_nReceivedFragments pp + 1 \<rparr> in
        if pp_nReceivedFragments pp' = unat (pp_fragCount pp') then
          (case doReassembly pp' of
             Inl err \<Rightarrow> (Inl err, r\<lparr> ra_partialPackets := (ra_partialPackets r)(key \<mapsto> pp') \<rparr>)
           | Inr reassembled \<Rightarrow>
               (Inr (Some (reassembled, pp_fragments pp' ! 0)),
                r\<lparr> ra_partialPackets := (ra_partialPackets r)(key := None),
                   ra_sched := cancelEvent (pp_dropTimer pp') (ra_sched r) \<rparr>))
        else
          let (tid, sc) = scheduleEvent timeout key (ra_sched r) in
          (Inr None,
           r\<lparr> ra_partialPackets := (ra_partialPackets r)(key \<mapsto> pp'\<lparr> pp_dropTimer := Some tid \<rparr>),
              ra_sched := cancelEvent (pp_dropTimer pp') sc \<rparr>))"

text \<open>The packet has a Fragment field; \<open>get\<close> on a malformed field throws before anything changes.\<close>

definition receiveFragment :: "nat \<Rightarrow> int \<Rightarrow> u64 \<Rightarrow> lp_packet \<Rightarrow> reassembler \<Rightarrow>
    (tlv_error + (block \<times> lp_packet) option) \<times> reassembler" where
  "receiveFragment nMaxFragments timeout remoteEndpoint p r =
     (case bindR (lp_nni_or tlv_FragIndex 0 p) (\<lambda>i. bindR (lp_nni_or tlv_FragCount 1 p) (\<lambda>c. Inr (i, c))) of
        Inl err \<Rightarrow> (Inl err, r)
      | Inr (fragIndex, fragCount) \<Rightarrow>
          if fragIndex \<ge> fragCount then (Inr None, r)
          else if unat fragCount > nMaxFragments then (Inr None, r)
          else if fragIndex = 0 \<and> fragCount = 1 then
            (bindR (lp_payload p) (\<lambda>xs. bindR (blockOfBuffer xs) (\<lambda>b. Inr (Some (b, p)))), r)
          else if \<not> lp_has tlv_Sequence p then (Inr None, r)
          else
            (case bindR (lp_get tlv_Sequence p) decode_u64 of
               Inl err \<Rightarrow> (Inl err, r)
             | Inr sq \<Rightarrow> addFragment timeout (remoteEndpoint, sq - fragIndex) fragIndex fragCount p r))"

text \<open>The number of fragments that are dropped goes to the \<open>beforeTimeout\<close> signal.\<close>

definition timeoutPartialPacket :: "frag_key \<Rightarrow> reassembler \<Rightarrow> nat option \<times> reassembler" where
  "timeoutPartialPacket key r =
     (case ra_partialPackets r key of
        None \<Rightarrow> (None, r)
      | Some pp \<Rightarrow> (Some (pp_nReceivedFragments pp), r\<lparr> ra_partialPackets := (ra_partialPackets r)(key := None) \<rparr>))"

text \<open>
  The numbering of packets by the link service (\<open>src/model/val/val-link-service.cpp\<close>): the state is the
  last sequence number, which wraps around.
\<close>

definition assignSequence :: "lp_packet \<Rightarrow> u64 \<Rightarrow> tlv_error + (lp_packet \<times> u64)" where
  "assignSequence pkt lastSeqNo =
     bindR (bindR (field_u64 tlv_Sequence (lastSeqNo + 1)) (\<lambda>b. lp_set b pkt)) (\<lambda>q. Inr (q, lastSeqNo + 1))"

primrec assignSequences :: "lp_packet list \<Rightarrow> u64 \<Rightarrow> tlv_error + (lp_packet list \<times> u64)" where
  "assignSequences [] lastSeqNo = Inr ([], lastSeqNo)"
| "assignSequences (pkt # pkts) lastSeqNo =
     bindR (assignSequence pkt lastSeqNo) (\<lambda>(q, sq). bindR (assignSequences pkts sq) (\<lambda>(qs, sq'). Inr (q # qs, sq')))"

section \<open>Shape of the fragments\<close>

text \<open>Fragment \<open>i\<close> of \<open>n\<close>, on top of the fields \<open>hs\<close>, with its payload.\<close>

definition frag_shape :: "block set \<Rightarrow> nat \<Rightarrow> nat \<Rightarrow> byte list \<Rightarrow> lp_packet \<Rightarrow> bool" where
  "frag_shape hs i n xs f \<longleftrightarrow> lp_wf f \<and> lp_wire f = None \<and>
     set (lp_elements f) = hs \<union> {mkBlock tlv_FragIndex (writeNonNegativeInteger (of_nat i)),
       mkBlock tlv_FragCount (writeNonNegativeInteger (of_nat n)), mkBlock tlv_Fragment xs}"

lemma recognized [simp]:
  "fi_isRecognized (mkFieldInfo tlv_FragIndex)" "fi_isRecognized (mkFieldInfo tlv_FragCount)"
  "fi_isRecognized (mkFieldInfo tlv_Fragment)" "fi_isRecognized (mkFieldInfo tlv_Sequence)"
  "fi_isRecognized (mkFieldInfo tlv_HopCountTag)" "fi_isRecognized (mkFieldInfo tlv_CongestionMark)"
  "fi_isRecognized (mkFieldInfo tlv_IncomingFaceId)" "fi_isRecognized (mkFieldInfo tlv_ValHeader)"
  by (simp_all add: mkFieldInfo_def FieldSet_def lp_types)

lemma frag_types_distinct [simp]:
  "tlv_FragIndex \<noteq> tlv_Fragment" "tlv_FragCount \<noteq> tlv_Fragment" "tlv_FragIndex \<noteq> tlv_FragCount"
  "tlv_Sequence \<noteq> tlv_Fragment" "tlv_Sequence \<noteq> tlv_FragIndex" "tlv_Sequence \<noteq> tlv_FragCount"
  "tlv_Fragment \<noteq> tlv_FragIndex" "tlv_Fragment \<noteq> tlv_FragCount" "tlv_FragCount \<noteq> tlv_FragIndex"
  "tlv_Fragment \<noteq> tlv_Sequence" "tlv_FragIndex \<noteq> tlv_Sequence" "tlv_FragCount \<noteq> tlv_Sequence"
  by (simp_all add: lp_types)

lemma sizeOfNonNegativeInteger_64 [simp]: "sizeOfNonNegativeInteger n < 18446744073709551616"
  using sizeOfNonNegativeInteger_le [of n] by simp

text \<open>The header fields that the first fragment keeps.\<close>

definition other_fields :: "lp_packet \<Rightarrow> block set" where
  "other_fields p = {b \<in> set (lp_elements p). blk_type b \<noteq> tlv_Fragment}"

lemma make_frag_shape:
  assumes "lp_wf p" and "\<not> lp_has tlv_FragIndex p" and "\<not> lp_has tlv_FragCount p" and "length xs < 2 ^ 64"
  obtains f where "make_frag i n xs p = Inr f" and "frag_shape (other_fields p) i n xs f"
proof -
  let ?i = "mkBlock tlv_FragIndex (writeNonNegativeInteger (of_nat i))"
  let ?c = "mkBlock tlv_FragCount (writeNonNegativeInteger (of_nat n))"
  obtain p1 where p1: "lp_add ?i p = Inr p1" "lp_wf p1" "set (lp_elements p1) = insert ?i (set (lp_elements p))"
    by (rule lp_add_wf [OF assms(1), of ?i]) (use assms(2) in \<open>auto simp: lp_has_iff\<close>)
  obtain p2 where p2: "lp_add ?c p1 = Inr p2" "lp_wf p2" "set (lp_elements p2) = insert ?c (set (lp_elements p1))"
    by (rule lp_add_wf [OF p1(2), of ?c]) (use assms(3) p1(3) in \<open>auto simp: lp_has_iff\<close>)
  obtain f where f: "lp_set (mkBlock tlv_Fragment xs) p2 = Inr f" "lp_wf f" "lp_wire f = None"
    "set (lp_elements f) = insert (mkBlock tlv_Fragment xs) {x \<in> set (lp_elements p2). blk_type x \<noteq> tlv_Fragment}"
    by (rule lp_set_wf [OF p2(2), of "mkBlock tlv_Fragment xs"]) (use assms(4) in auto)
  show thesis
    by (rule that [of f])
       (use p1(1) p2(1) f assms(4) p1(3) p2(3) in
         \<open>auto simp: make_frag_def frag_shape_def other_fields_def field_nni_eq field_range_eq\<close>)
qed

section \<open>Size of a packet\<close>

definition fields_size :: "block set \<Rightarrow> nat" where
  "fields_size hs = (\<Sum>b\<in>hs. length (blk_wire b))"

lemma fields_size_insert_le: "finite hs \<Longrightarrow> fields_size (insert b hs) \<le> length (blk_wire b) + fields_size hs"
  by (cases "b \<in> hs") (simp_all add: fields_size_def insert_absorb)

lemma fields_size_mono: "finite hs \<Longrightarrow> gs \<subseteq> hs \<Longrightarrow> fields_size gs \<le> fields_size hs"
  unfolding fields_size_def by (intro sum_mono2) simp_all

lemma one_octet_types [simp]:
  "sizeOfVarNumber (ucast tlv_LpPacket) = 1" "sizeOfVarNumber (ucast tlv_Fragment) = 1"
  "sizeOfVarNumber (ucast tlv_Sequence) = 1" "sizeOfVarNumber (ucast tlv_FragIndex) = 1"
  "sizeOfVarNumber (ucast tlv_FragCount) = 1"
  by (simp_all add: sizeOfVarNumber_def lp_types)

lemma nni_bytes_le: "sizeOfVarNumber (ucast t) = 1 \<Longrightarrow> length (tlv_bytes t (writeNonNegativeInteger n)) \<le> 10"
  using sizeOfNonNegativeInteger_le [of n] by (simp add: length_tlv_bytes) (simp add: sizeOfNonNegativeInteger_def sizeOfVarNumber_def)

lemma u64_bytes_length: "sizeOfVarNumber (ucast t) = 1 \<Longrightarrow> length (tlv_bytes t (be_bytes 8 n)) = 10"
  by (simp add: length_tlv_bytes) (simp add: sizeOfVarNumber_def)

lemma range_bytes_le: "sizeOfVarNumber (ucast t) = 1 \<Longrightarrow> length (tlv_bytes t xs) \<le> 10 + length xs"
  using sizeOfVarNumber_le [of "of_nat (length xs)"] by (simp add: length_tlv_bytes)

lemma lp_elements_distinct: "lp_wf p \<Longrightarrow> distinct (lp_elements p)"
  unfolding lp_wf_def lp_sorted_def by (metis distinct_map strict_sorted_iff strict_sorted_equal)

lemma sum_list_fields: "lp_wf p \<Longrightarrow> length (concat (map blk_wire (lp_elements p))) = fields_size (set (lp_elements p))"
  using lp_elements_distinct [of p]
  by (simp add: length_concat fields_size_def comp_def sum_list_distinct_conv_sum_set)

lemma lp_encode_size:
  assumes "lp_wf p" and "lp_wire p = None"
  shows "length (blk_wire (lp_encode p)) \<le> 10 + fields_size (set (lp_elements p))"
    and "fields_size (set (lp_elements p)) \<le> length (blk_wire (lp_encode p))"
  using range_bytes_le [of tlv_LpPacket "concat (map blk_wire (lp_elements p))"] assms sum_list_fields [OF assms(1)]
  by (simp_all add: lp_encode_eq length_tlv_bytes)

text \<open>A packet of two fields or more is sent as an LpPacket.\<close>

lemma lp_wireEncode_many:
  assumes "b \<in> set (lp_elements p)" and "c \<in> set (lp_elements p)" and "b \<noteq> c"
  shows "lp_wireEncode p = Inr (lp_encode p)"
  using assms by (auto simp: lp_wireEncode_def split: list.split)

lemma frag_shape_size:
  assumes "frag_shape hs i n xs f"
  shows "fields_size (set (lp_elements f)) \<le> fields_size hs + 30 + length xs"
proof -
  let ?i = "mkBlock tlv_FragIndex (writeNonNegativeInteger (of_nat i))"
  let ?c = "mkBlock tlv_FragCount (writeNonNegativeInteger (of_nat n))"
  let ?x = "mkBlock tlv_Fragment xs"
  have eq: "set (lp_elements f) = insert ?i (insert ?c (insert ?x hs))"
    using assms by (auto simp: frag_shape_def)
  then have fin: "finite hs" by (metis finite_insert List.finite_set)
  have "fields_size (insert ?x hs) \<le> 10 + length xs + fields_size hs"
    using fields_size_insert_le [OF fin, of ?x] range_bytes_le [of tlv_Fragment xs] by simp
  moreover have "fields_size (insert ?c (insert ?x hs)) \<le> 10 + fields_size (insert ?x hs)"
    using fields_size_insert_le [of "insert ?x hs" ?c] fin nni_bytes_le [of tlv_FragCount "of_nat n"] by simp
  moreover have "fields_size (insert ?i (insert ?c (insert ?x hs))) \<le> 10 + fields_size (insert ?c (insert ?x hs))"
    using fields_size_insert_le [of "insert ?c (insert ?x hs)" ?i] fin nni_bytes_le [of tlv_FragIndex "of_nat i"] by simp
  ultimately show ?thesis unfolding eq by linarith
qed

lemma frag_shape_wire:
  assumes "frag_shape hs i n xs f"
  shows "lp_wireEncode f = Inr (lp_encode f)" and "length (blk_wire (lp_encode f)) \<le> fields_size hs + 40 + length xs"
proof -
  show "lp_wireEncode f = Inr (lp_encode f)"
    by (rule lp_wireEncode_many [of "mkBlock tlv_FragCount (writeNonNegativeInteger (of_nat n))" _ "mkBlock tlv_Fragment xs"])
       (use assms in \<open>auto simp: frag_shape_def mkBlock_def\<close>)
  show "length (blk_wire (lp_encode f)) \<le> fields_size hs + 40 + length xs"
    using lp_encode_size(1) [of f] frag_shape_size [OF assms] assms by (simp add: frag_shape_def)
qed

section \<open>The loop\<close>

text \<open>What a slot of the vector holds before fragment \<open>c\<close> bytes long is written to it.\<close>

definition frag_ready :: "nat \<Rightarrow> nat \<Rightarrow> lp_packet \<Rightarrow> bool" where
  "frag_ready mtu c p \<longleftrightarrow> lp_wf p \<and> \<not> lp_has tlv_FragIndex p \<and> \<not> lp_has tlv_FragCount p \<and>
     fields_size (other_fields p) + MAX_FRAG_OVERHEAD + c \<le> mtu"

definition n_chunks :: "nat \<Rightarrow> nat \<Rightarrow> nat \<Rightarrow> nat" where
  "n_chunks ps c n = (if n = 0 then 0 else 1 + (n - c) div ps + (if (n - c) mod ps \<noteq> 0 then 1 else 0))"

lemma n_chunks_step:
  assumes "0 < n" and "0 < ps"
  shows "n_chunks ps c n = Suc (n_chunks ps (min (n - c) ps) (n - c))"
proof (cases "n - c \<le> ps")
  case True
  then show ?thesis using assms by (cases "n - c = ps") (auto simp: n_chunks_def min_def)
next
  case False
  then have "(n - c) div ps = Suc ((n - c - ps) div ps)" "(n - c) mod ps = (n - c - ps) mod ps"
    using assms by (simp_all add: le_div_geq le_mod_geq)
  with False assms show ?thesis by (simp add: n_chunks_def)
qed

lemma make_frag_step:
  assumes "frag_ready mtu c p" and "length xs \<le> c" and "length xs < 2 ^ 64"
  obtains f w where "make_frag i n xs p = Inr f" and "lp_wireEncode f = Inr w" and "length (blk_wire w) \<le> mtu"
    and "frag_shape (other_fields p) i n xs f"
proof -
  obtain f where f: "make_frag i n xs p = Inr f" "frag_shape (other_fields p) i n xs f"
    by (rule make_frag_shape [of p xs i n]) (use assms in \<open>auto simp: frag_ready_def\<close>)
  with frag_shape_wire [OF f(2)] assms show thesis
    by (intro that [of f "lp_encode f"]) (auto simp: frag_ready_def MAX_FRAG_OVERHEAD_def)
qed

text \<open>The fragments \<open>fs\<close> with payloads \<open>pays\<close>, from index \<open>i\<close>, written over the slots.\<close>

definition frags_made :: "nat \<Rightarrow> nat \<Rightarrow> nat \<Rightarrow> lp_packet list \<Rightarrow> byte list list \<Rightarrow> lp_packet list \<Rightarrow> bool" where
  "frags_made mtu n i slots pays fs \<longleftrightarrow> length fs = length slots \<and> length pays = length slots \<and>
     (\<forall>k<length slots. frag_shape (other_fields (slots ! k)) (i + k) n (pays ! k) (fs ! k) \<and> pays ! k \<noteq> [] \<and>
        fields_size (other_fields (slots ! k)) + MAX_FRAG_OVERHEAD + length (pays ! k) \<le> mtu)"

lemma frags_made_Cons:
  assumes "frag_shape (other_fields s) i n x f" and "x \<noteq> []" and "fields_size (other_fields s) + MAX_FRAG_OVERHEAD + length x \<le> mtu"
    and "frags_made mtu n (Suc i) slots pays fs"
  shows "frags_made mtu n i (s # slots) (x # pays) (f # fs)"
  using assms by (auto simp: frags_made_def nth_Cons split: nat.split)

lemma frag_loop_ok:
  assumes "0 < ps" and "length rest < 2 ^ 64" and "rest \<noteq> [] \<Longrightarrow> 0 < c"
    and "length frags = i + n_chunks ps c (length rest)"
    and "\<And>j. i \<le> j \<Longrightarrow> j < length frags \<Longrightarrow> frag_ready mtu (if j = i then c else ps) (frags ! j)"
  shows "\<exists>fs pays. frag_loop mtu n ps i rest c frags = Def (Inr (length frags, take i frags @ fs)) \<and>
    frags_made mtu n i (drop i frags) pays fs \<and> concat pays = rest"
  using assms
proof (induction mtu n ps i rest c frags rule: frag_loop.induct)
  case (1 mtu n ps i rest c frags)
  show ?case
  proof (cases "rest = []")
    case True
    with "1.prems"(4) show ?thesis
      by (intro exI [of _ "[]"]) (simp add: frag_loop.simps n_chunks_def frags_made_def)
  next
    case False
    let ?rest = "drop c rest"
    let ?c = "min (length ?rest) ps"
    have n: "n_chunks ps c (length rest) = Suc (n_chunks ps ?c (length ?rest))"
      using n_chunks_step [of "length rest" ps c] False "1.prems"(1) by simp
    then have i: "i < length frags" using "1.prems"(4) by simp
    have ready: "frag_ready mtu c (frags ! i)" using "1.prems"(5) [of i] i by simp
    obtain f w where f: "make_frag i n (take c rest) (frags ! i) = Inr f" "lp_wireEncode f = Inr w"
      "length (blk_wire w) \<le> mtu" "frag_shape (other_fields (frags ! i)) i n (take c rest) f"
      by (rule make_frag_step [OF ready, of "take c rest" i n]) (use "1.prems"(2) in auto)
    have lt: "length ?rest < 2 ^ 64" using "1.prems"(2) by simp
    have nil: "?rest \<noteq> [] \<Longrightarrow> 0 < ?c" using "1.prems"(1) by simp
    have len: "length (frags[i := f]) = Suc i + n_chunks ps ?c (length ?rest)"
      using "1.prems"(4) n by simp
    have slots: "frag_ready mtu (if j = Suc i then ?c else ps) (frags[i := f] ! j)"
      if "Suc i \<le> j" "j < length (frags[i := f])" for j
      using "1.prems"(5) [of j] that by (auto simp: frag_ready_def)
    obtain fs pays where ih:
      "frag_loop mtu n ps (Suc i) ?rest ?c (frags[i := f]) = Def (Inr (length frags, take (Suc i) (frags[i := f]) @ fs))"
      "frags_made mtu n (Suc i) (drop (Suc i) frags) pays fs" "concat pays = ?rest"
      using "1.IH" [OF False _ f(1,2) _ "1.prems"(1) lt nil len slots] i f(3) by auto
    have "frags_made mtu n i (frags ! i # drop (Suc i) frags) (take c rest # pays) (f # fs)"
      by (rule frags_made_Cons [OF f(4) _ _ ih(2)])
         (use False "1.prems"(3) ready in \<open>auto simp: frag_ready_def\<close>)
    with ih(1,3) f False i show ?thesis
      by (intro exI [of _ "f # fs"] exI [of _ "take c rest # pays"])
         (simp add: frag_loop.simps [of _ _ _ i] Cons_nth_drop_Suc take_Suc_conv_app_nth)
  qed
qed

section \<open>Fragmentation\<close>

text \<open>A packet ready to be sent: it carries one network packet and has not been fragmented or numbered.\<close>

definition sendable :: "lp_packet \<Rightarrow> block \<Rightarrow> bool" where
  "sendable p net \<longleftrightarrow> lp_wf p \<and> lp_wire p = None \<and> blk_valid net \<and>
     mkBlock tlv_Fragment (blk_wire net) \<in> set (lp_elements p) \<and>
     \<not> lp_has tlv_FragIndex p \<and> \<not> lp_has tlv_FragCount p \<and> \<not> lp_has tlv_Sequence p"

lemma sendable_facts:
  assumes "sendable p net"
  shows "lp_has tlv_Fragment p" and "lp_get tlv_Fragment p = Inr (mkBlock tlv_Fragment (blk_wire net))"
    and "blk_wire net \<noteq> []" and "length (blk_wire net) < 2 ^ 64"
    and "set (lp_elements p) = insert (mkBlock tlv_Fragment (blk_wire net)) (other_fields p)"
proof -
  have wf: "lp_wf p" and b: "mkBlock tlv_Fragment (blk_wire net) \<in> set (lp_elements p)"
    using assms by (simp_all add: sendable_def)
  show "lp_has tlv_Fragment p" using b by (auto simp: lp_has_iff intro!: image_eqI)
  show g: "lp_get tlv_Fragment p = Inr (mkBlock tlv_Fragment (blk_wire net))" using lp_get_wf [OF wf b] by simp
  show "blk_wire net \<noteq> []" using assms by (auto simp: sendable_def blk_valid_def) (metis mkBlock_sel(3) tlv_bytes_nonempty)
  show "length (blk_wire net) < 2 ^ 64" using wf b by (auto simp: lp_wf_def)
  show "set (lp_elements p) = insert (mkBlock tlv_Fragment (blk_wire net)) (other_fields p)"
    using b lp_get_wf [OF wf] g by (force simp: other_fields_def)
qed

text \<open>The size computed for the headers of the first fragment, whether or not the packet is bare.\<close>

lemma sendable_encode:
  assumes "sendable p net"
  obtains w where "lp_wireEncode p = Inr w"
    and "header_size w p = fields_size (other_fields p)"
    and "fields_size (other_fields p) + length (blk_wire net) \<le> length (blk_wire w)"
proof (cases "other_fields p = {}")
  case True
  have "set (lp_elements p) = {mkBlock tlv_Fragment (blk_wire net)}" and "distinct (lp_elements p)"
    using sendable_facts(5) [OF assms] True assms lp_elements_distinct by (auto simp: sendable_def)
  then have es: "lp_elements p = [mkBlock tlv_Fragment (blk_wire net)]"
    by (cases "lp_elements p") (auto simp: subset_singleton_iff)
  have "elements_of (blk_wire net) = Inr [net]"
    using elements_of_concat [of "[net]"] assms by (simp add: sendable_def)
  then show thesis using True es by (intro that [of net]) (simp_all add: lp_wireEncode_def fields_size_def header_size_def)
next
  case False
  then obtain b where b: "b \<in> set (lp_elements p)" "blk_type b \<noteq> tlv_Fragment" by (auto simp: other_fields_def)
  have wf: "lp_wf p" "lp_wire p = None" using assms by (simp_all add: sendable_def)
  have w: "lp_wireEncode p = Inr (lp_encode p)"
    using sendable_facts(5) [OF assms] b by (intro lp_wireEncode_many [of b _ "mkBlock tlv_Fragment (blk_wire net)"]) auto
  have "distinct (filter (\<lambda>e. blk_type e \<noteq> tlv_Fragment) (lp_elements p))" using lp_elements_distinct [OF wf(1)] by simp
  then have sum: "sum_list (map (length \<circ> blk_wire) (filter (\<lambda>e. blk_type e \<noteq> tlv_Fragment) (lp_elements p))) = fields_size (other_fields p)"
    by (simp add: sum_list_distinct_conv_sum_set fields_size_def other_fields_def comp_def)
  have "finite (other_fields p)" "mkBlock tlv_Fragment (blk_wire net) \<notin> other_fields p" by (simp_all add: other_fields_def)
  then have "fields_size (set (lp_elements p)) = length (tlv_bytes tlv_Fragment (blk_wire net)) + fields_size (other_fields p)"
    unfolding sendable_facts(5) [OF assms] by (simp add: fields_size_def)
  then show thesis
    using w sum lp_encode_size(2) [OF wf] by (intro that [of "lp_encode p"]) (simp_all add: lp_encode_eq [OF wf] length_tlv_bytes header_size_def)
qed

text \<open>The result of a fragmentation: no fragments, the packet itself, or numbered pieces of it.\<close>

definition fragments_of :: "nat \<Rightarrow> lp_packet \<Rightarrow> block \<Rightarrow> nat \<Rightarrow> lp_packet list \<Rightarrow> bool" where
  "fragments_of mtu p net n fs \<longleftrightarrow>
     (\<exists>pays. frags_made mtu n 0 (p # replicate (n - 1) lp_empty) pays fs \<and> concat pays = blk_wire net) \<and> 1 \<le> n"

lemma fragmentPacket_ok:
  assumes "sendable p net"
  shows "fragmentPacket nMax p mtu = Def (Inr None) \<or>
    fragmentPacket nMax p mtu = Def (Inr (Some [p])) \<and> fields_size (other_fields p) + length (blk_wire net) + MAX_SINGLE_FRAG_OVERHEAD \<le> mtu \<or>
    (\<exists>n fs. fragmentPacket nMax p mtu = Def (Inr (Some fs)) \<and> fragments_of mtu p net n fs \<and> n \<le> nMax)"
proof -
  obtain w where w: "lp_wireEncode p = Inr w"
    "header_size w p = fields_size (other_fields p)"
    "fields_size (other_fields p) + length (blk_wire net) \<le> length (blk_wire w)" by (rule sendable_encode [OF assms])
  let ?h = "fields_size (other_fields p)"
  let ?L = "length (blk_wire net)"
  let ?c = "min ?L (mtu - ?h - MAX_FRAG_OVERHEAD)"
  let ?ps = "mtu - MAX_FRAG_OVERHEAD"
  let ?n = "n_chunks ?ps ?c ?L"
  let ?frags = "p # replicate (?n - 1) lp_empty"
  note facts = sendable_facts [OF assms]
  have n: "?n = 1 + (?L - ?c) div ?ps + (if (?L - ?c) mod ?ps \<noteq> 0 then 1 else 0)"
    using facts(3) by (simp add: n_chunks_def)
  then have len: "length ?frags = ?n" "1 \<le> ?n" by simp_all
  have payload: "bindR (lp_get tlv_Fragment p) decode_range = Inr (blk_wire net)"
    using facts(2,3) by (simp add: decode_range_def)
  have pkt: "fragmentPacket nMax p mtu =
    (if MAX_SINGLE_FRAG_OVERHEAD + length (blk_wire w) \<le> mtu then Def (Inr (Some [p]))
     else if MAX_FRAG_OVERHEAD + ?h + 1 > mtu then Def (Inr None)
     else if ?n > nMax then Def (Inr None)
     else bindU (frag_loop mtu ?n ?ps 0 (blk_wire net) ?c ?frags) (\<lambda>r. case r of Inl err \<Rightarrow> Def (Inl err)
       | Inr (k, fs) \<Rightarrow> if k \<noteq> ?n then Undef AssertionFailed else Def (Inr (Some fs))))"
    using assms facts(1) unfolding n fragmentPacket_def w(1) payload sum.case Let_def w(2)
    by (simp add: sendable_def split del: if_split)
  have slots: "frag_ready mtu (if j = 0 then ?c else ?ps) (?frags ! j)" if "\<not> MAX_FRAG_OVERHEAD + ?h + 1 > mtu" "j < length ?frags" for j
  proof (cases j)
    case 0
    with that assms show ?thesis by (auto simp: frag_ready_def sendable_def)
  next
    case (Suc k)
    with that show ?thesis by (auto simp: frag_ready_def lp_has_iff other_fields_def fields_size_def)
  qed
  consider "MAX_SINGLE_FRAG_OVERHEAD + length (blk_wire w) \<le> mtu"
    | "\<not> MAX_SINGLE_FRAG_OVERHEAD + length (blk_wire w) \<le> mtu" "MAX_FRAG_OVERHEAD + ?h + 1 > mtu \<or> ?n > nMax"
    | "\<not> MAX_SINGLE_FRAG_OVERHEAD + length (blk_wire w) \<le> mtu" "\<not> MAX_FRAG_OVERHEAD + ?h + 1 > mtu" "\<not> ?n > nMax" by argo
  then show ?thesis
  proof cases
    case 1
    then show ?thesis using w(3) unfolding pkt by simp
  next
    case 2
    then show ?thesis unfolding pkt by presburger
  next
    case 3
    have "\<exists>fs pays. frag_loop mtu ?n ?ps 0 (blk_wire net) ?c ?frags = Def (Inr (length ?frags, take 0 ?frags @ fs)) \<and>
      frags_made mtu ?n 0 (drop 0 ?frags) pays fs \<and> concat pays = blk_wire net"
    proof (rule frag_loop_ok)
      show "length ?frags = 0 + n_chunks ?ps ?c (length (blk_wire net))" using n by simp
      show "frag_ready mtu (if j = 0 then ?c else ?ps) (?frags ! j)" if "j < length ?frags" for j
        by (rule slots [OF 3(2) that])
    qed (use 3(2) facts(3,4) in simp_all)
    then obtain fs pays where fs: "frag_loop mtu ?n ?ps 0 (blk_wire net) ?c ?frags = Def (Inr (?n, fs))"
      and made: "frags_made mtu ?n 0 ?frags pays fs" "concat pays = blk_wire net"
      unfolding len take_0 drop_0 append_Nil by blast
    have "fragmentPacket nMax p mtu = Def (Inr (Some fs))" unfolding pkt fs using 3 by simp
    moreover have "fragments_of mtu p net ?n fs" unfolding fragments_of_def using made len(2) by blast
    ultimately show ?thesis using 3(3) by fastforce
  qed
qed

section \<open>Numbered fragments\<close>

definition numbered :: "u64 \<Rightarrow> lp_packet \<Rightarrow> lp_packet \<Rightarrow> bool" where
  "numbered sq f g \<longleftrightarrow> lp_wf g \<and> lp_wire g = None \<and>
     set (lp_elements g) = insert (mkBlock tlv_Sequence (be_bytes 8 (unat sq))) {x \<in> set (lp_elements f). blk_type x \<noteq> tlv_Sequence}"

lemma assignSequence_ok:
  assumes "lp_wf f"
  obtains g where "assignSequence f sq = Inr (g, sq + 1)" and "numbered (sq + 1) f g"
proof -
  obtain g where "lp_set (mkBlock tlv_Sequence (be_bytes 8 (unat (sq + 1)))) f = Inr g" "numbered (sq + 1) f g"
    by (rule lp_set_wf [OF assms, of "mkBlock tlv_Sequence (be_bytes 8 (unat (sq + 1)))"]) (auto simp: numbered_def)
  then show thesis by (intro that [of g]) (simp_all add: assignSequence_def field_u64_eq)
qed

lemma assignSequences_ok:
  assumes "\<forall>f\<in>set fs. lp_wf f"
  shows "\<exists>gs. assignSequences fs sq = Inr (gs, sq + of_nat (length fs)) \<and> length gs = length fs \<and>
    (\<forall>k<length fs. numbered (sq + 1 + of_nat k) (fs ! k) (gs ! k))"
  using assms
proof (induction fs arbitrary: sq)
  case Nil
  then show ?case by simp
next
  case (Cons f fs)
  obtain g where g: "assignSequence f sq = Inr (g, sq + 1)" "numbered (sq + 1) f g"
    using assignSequence_ok Cons.prems by (metis list.set_intros(1))
  from Cons.IH [of "sq + 1"] Cons.prems obtain gs where gs: "assignSequences fs (sq + 1) = Inr (gs, sq + 1 + of_nat (length fs))"
    "length gs = length fs" "\<forall>k<length fs. numbered (sq + 1 + 1 + of_nat k) (fs ! k) (gs ! k)" by auto
  have "numbered (sq + 1 + of_nat k) ((f # fs) ! k) ((g # gs) ! k)" if "k < length (f # fs)" for k
    using that g(2) gs(3) by (cases k) (simp_all add: algebra_simps)
  with g(1) gs(1,2) show ?case by (intro exI [of _ "g # gs"]) (simp add: algebra_simps)
qed

lemma numbered_fields:
  assumes "numbered sq f g"
  shows "fields_size (set (lp_elements g)) \<le> 10 + fields_size (set (lp_elements f))"
proof -
  let ?q = "mkBlock tlv_Sequence (be_bytes 8 (unat sq))"
  let ?es = "{x \<in> set (lp_elements f). blk_type x \<noteq> tlv_Sequence}"
  have "fields_size (insert ?q ?es) \<le> 10 + fields_size ?es"
    using fields_size_insert_le [of ?es ?q] by (simp add: u64_bytes_length)
  also have "\<dots> \<le> 10 + fields_size (set (lp_elements f))" by (simp add: fields_size_mono)
  finally show ?thesis using assms by (simp add: numbered_def)
qed

lemma numbered_size:
  assumes "numbered sq f g" and "b \<in> set (lp_elements f)" and "blk_type b \<noteq> tlv_Sequence"
  shows "lp_wireEncode g = Inr (lp_encode g)" and "length (blk_wire (lp_encode g)) \<le> 20 + fields_size (set (lp_elements f))"
proof -
  let ?q = "mkBlock tlv_Sequence (be_bytes 8 (unat sq))"
  have g: "lp_wf g" "lp_wire g = None" "?q \<in> set (lp_elements g)" "b \<in> set (lp_elements g)"
    using assms by (simp_all add: numbered_def)
  show "lp_wireEncode g = Inr (lp_encode g)"
    by (rule lp_wireEncode_many [OF g(3,4)]) (use assms(3) in auto)
  show "length (blk_wire (lp_encode g)) \<le> 20 + fields_size (set (lp_elements f))"
    using lp_encode_size(1) [OF g(1,2)] numbered_fields [OF assms(1)] by linarith
qed

text \<open>Every fragment, and the packet itself when it needs none, has room for its sequence number.\<close>

definition roomy :: "nat \<Rightarrow> lp_packet \<Rightarrow> bool" where
  "roomy mtu f \<longleftrightarrow> lp_wf f \<and> lp_has tlv_Fragment f \<and> 20 + fields_size (set (lp_elements f)) \<le> mtu"

lemma roomy_numbered:
  assumes "roomy mtu f" and "numbered sq f g"
  shows "lp_wireEncode g = Inr (lp_encode g)" and "length (blk_wire (lp_encode g)) \<le> mtu"
proof -
  obtain b where "b \<in> set (lp_elements f)" "blk_type b \<noteq> tlv_Sequence" using assms(1) by (auto simp: roomy_def lp_has_iff)
  from numbered_size [OF assms(2) this] assms(1)
  show "lp_wireEncode g = Inr (lp_encode g)" and "length (blk_wire (lp_encode g)) \<le> mtu" by (simp_all add: roomy_def)
qed

lemma fragments_roomy:
  assumes "fragments_of mtu p net n fs" and "f \<in> set fs"
  shows "roomy mtu f"
proof -
  obtain pays where made: "frags_made mtu n 0 (p # replicate (n - 1) lp_empty) pays fs"
    using assms(1) by (auto simp: fragments_of_def)
  obtain k where k: "k < length fs" "f = fs ! k" using assms(2) by (auto simp: in_set_conv_nth)
  with made obtain hs xs where "frag_shape hs k n xs f" "fields_size hs + MAX_FRAG_OVERHEAD + length xs \<le> mtu"
    by (auto simp: frags_made_def)
  then show ?thesis using frag_shape_size [of hs k n xs f]
    by (auto simp: roomy_def frag_shape_def MAX_FRAG_OVERHEAD_def lp_has_iff)
qed

lemma sendable_roomy:
  assumes "sendable p net" and "fields_size (other_fields p) + length (blk_wire net) + MAX_SINGLE_FRAG_OVERHEAD \<le> mtu"
  shows "roomy mtu p"
proof -
  have "fields_size (set (lp_elements p)) \<le> length (tlv_bytes tlv_Fragment (blk_wire net)) + fields_size (other_fields p)"
    unfolding sendable_facts(5) [OF assms(1)]
    using fields_size_insert_le [of "other_fields p" "mkBlock tlv_Fragment (blk_wire net)"] by (simp add: other_fields_def)
  with range_bytes_le [of tlv_Fragment "blk_wire net"] assms sendable_facts(1) [OF assms(1)] show ?thesis
    by (simp add: roomy_def sendable_def MAX_SINGLE_FRAG_OVERHEAD_def)
qed

lemma fragmentPacket_cases:
  assumes "sendable p net" and "fragmentPacket nMax p mtu = Def (Inr (Some fs))"
  obtains (whole) "fs = [p]" and "roomy mtu p"
    | (pieces) n where "fragments_of mtu p net n fs" and "n \<le> nMax"
  using fragmentPacket_ok [OF assms(1), of nMax mtu] sendable_roomy [OF assms(1), of mtu]
  unfolding assms(2) by (elim disjE) auto

lemma fragmentPacket_roomy:
  assumes "sendable p net" and "fragmentPacket nMax p mtu = Def (Inr (Some fs))"
  shows "(\<forall>f\<in>set fs. roomy mtu f) \<and> length fs \<le> max 1 nMax"
  using assms
proof (cases rule: fragmentPacket_cases)
  case whole
  then show ?thesis by simp
next
  case (pieces n)
  then have "length fs \<le> nMax" by (auto simp: fragments_of_def frags_made_def)
  with fragments_roomy [OF pieces(1)] show ?thesis by auto
qed

lemma assignSequences_roomy:
  assumes "\<forall>f\<in>set fs. roomy mtu f"
  obtains gs where "assignSequences fs sq = Inr (gs, sq + of_nat (length fs))" and "length gs = length fs"
    and "\<And>k. k < length fs \<Longrightarrow> numbered (sq + 1 + of_nat k) (fs ! k) (gs ! k)"
    and "\<And>g. g \<in> set gs \<Longrightarrow> \<exists>f sq. roomy mtu f \<and> numbered sq f g"
proof -
  have "\<forall>f\<in>set fs. lp_wf f" using assms by (simp add: roomy_def)
  from assignSequences_ok [OF this, of sq] obtain gs where gs: "assignSequences fs sq = Inr (gs, sq + of_nat (length fs))"
    "length gs = length fs" "\<forall>k<length fs. numbered (sq + 1 + of_nat k) (fs ! k) (gs ! k)" by blast
  have "\<exists>f sq. roomy mtu f \<and> numbered sq f g" if "g \<in> set gs" for g
    using that gs(2,3) assms by (metis in_set_conv_nth)
  with gs show thesis by (intro that) blast+
qed

section \<open>Reassembly\<close>

text \<open>What the reassembler reads of fragment \<open>i\<close> of message \<open>m\<close>.\<close>

definition is_frag :: "u64 \<Rightarrow> nat \<Rightarrow> nat \<Rightarrow> byte list \<Rightarrow> lp_packet \<Rightarrow> bool" where
  "is_frag m n i xs h \<longleftrightarrow> lp_nni_or tlv_FragIndex 0 h = Inr (of_nat i) \<and> lp_nni_or tlv_FragCount 1 h = Inr (of_nat n) \<and>
     lp_has tlv_Sequence h \<and> bindR (lp_get tlv_Sequence h) decode_u64 = Inr (m + of_nat i) \<and> lp_payload h = Inr xs"

text \<open>The partial packet after the fragments with indices \<open>S\<close> have arrived.\<close>

definition slots_of :: "lp_packet list \<Rightarrow> nat set \<Rightarrow> lp_packet list" where
  "slots_of hs S = map (\<lambda>i. if i \<in> S then hs ! i else lp_empty) [0..<length hs]"

definition partial_ok :: "frag_key \<Rightarrow> lp_packet list \<Rightarrow> nat set \<Rightarrow> reassembler \<Rightarrow> bool" where
  "partial_ok key hs S r \<longleftrightarrow>
     (case ra_partialPackets r key of
        None \<Rightarrow> S = {}
      | Some pp \<Rightarrow> S \<noteq> {} \<and> pp_fragCount pp = of_nat (length hs) \<and> pp_nReceivedFragments pp = card S \<and> pp_fragments pp = slots_of hs S)"

lemma slots_of_insert: "i < length hs \<Longrightarrow> (slots_of hs S)[i := hs ! i] = slots_of hs (insert i S)"
  by (rule nth_equalityI) (auto simp: slots_of_def nth_list_update)

lemma slots_of_empty: "slots_of hs {} = replicate (length hs) lp_empty"
  by (simp add: slots_of_def map_replicate_const)

lemma slots_of_all: "slots_of hs {..<length hs} = hs"
  by (rule nth_equalityI) (simp_all add: slots_of_def)

lemma slots_of_nth: "i < length hs \<Longrightarrow> i \<notin> S \<Longrightarrow> slots_of hs S ! i = lp_empty"
  by (simp add: slots_of_def)

lemma lp_has_empty [simp]: "\<not> lp_has t lp_empty"
  by (simp add: lp_has_iff)

text \<open>The partial packet that a fragment is added to.\<close>

lemma addFragment_partial:
  assumes "partial_ok key hs S r" and "length hs < 2 ^ 64" and "i < length hs" and "i \<notin> S" and "finite S"
  obtains pp where "pp_fragments pp = slots_of hs (insert i S)" and "pp_nReceivedFragments pp = card (insert i S)"
    and "pp_fragCount pp = of_nat (length hs)"
    and "addFragment timeout key (of_nat i) (of_nat (length hs)) (hs ! i) r =
      (if card (insert i S) = length hs then
         (case bindR (concat_payloads (slots_of hs (insert i S))) blockOfBuffer of
            Inl err \<Rightarrow> (Inl err, r\<lparr> ra_partialPackets := (ra_partialPackets r)(key \<mapsto> pp) \<rparr>)
          | Inr b \<Rightarrow> (Inr (Some (b, slots_of hs (insert i S) ! 0)),
              r\<lparr> ra_partialPackets := (ra_partialPackets r)(key := None), ra_sched := cancelEvent (pp_dropTimer pp) (ra_sched r) \<rparr>))
       else let (tid, sc) = scheduleEvent timeout key (ra_sched r) in
         (Inr None, r\<lparr> ra_partialPackets := (ra_partialPackets r)(key \<mapsto> pp\<lparr> pp_dropTimer := Some tid \<rparr>),
                       ra_sched := cancelEvent (pp_dropTimer pp) sc \<rparr>))"
proof -
  have u: "unat (of_nat i :: u64) = i" "unat (of_nat (length hs) :: u64) = length hs"
    using assms(2,3) by (simp_all add: unat_of_nat)
  define pp0 where "pp0 = partial_of key (of_nat (length hs)) r"
  have pp0: "pp_fragments pp0 = slots_of hs S" "pp_fragCount pp0 = of_nat (length hs)" "pp_nReceivedFragments pp0 = card S"
    using assms(1) u(2) by (auto simp: pp0_def partial_of_def partial_ok_def slots_of_empty split: option.splits)
  show thesis
    by (rule that [of "pp0\<lparr> pp_fragments := slots_of hs (insert i S), pp_nReceivedFragments := card S + 1 \<rparr>"])
       (use assms(3-5) pp0 u in \<open>simp_all add: addFragment_def pp0_def [symmetric] slots_of_nth slots_of_insert doReassembly_def Let_def cong: sum.case_cong\<close>)
qed

text \<open>The reassembler files a fragment under its message.\<close>

lemma receiveFragment_is_frag:
  assumes "is_frag m n i xs h" and "1 < n" and "i < n" and "n \<le> nMax" and "n < 2 ^ 64"
  shows "receiveFragment nMax timeout ep h r = addFragment timeout (ep, m) (of_nat i) (of_nat n) h r"
proof -
  have u: "unat (of_nat i :: u64) = i" "unat (of_nat n :: u64) = n" using assms(3,5) by (simp_all add: unat_of_nat)
  have "\<not> (of_nat n :: u64) \<le> of_nat i" "(of_nat n :: u64) \<noteq> 1" "\<not> nMax < unat (of_nat n :: u64)"
    using assms u by (auto simp: word_le_nat_alt dest: arg_cong [of _ _ unat])
  with assms(1) show ?thesis by (simp add: receiveFragment_def is_frag_def)
qed

lemma concat_payloads_nth:
  "length pays = length hs \<Longrightarrow> (\<And>k. k < length hs \<Longrightarrow> lp_payload (hs ! k) = Inr (pays ! k)) \<Longrightarrow>
   concat_payloads hs = Inr (concat pays)"
proof (induction hs arbitrary: pays)
  case (Cons h hs)
  then obtain x xs where pays: "pays = x # xs" "length xs = length hs" by (cases pays) auto
  have "lp_payload (hs ! k) = Inr (xs ! k)" if "k < length hs" for k using Cons.prems(2) [of "Suc k"] that pays by simp
  with Cons.IH [of xs] pays Cons.prems(2) [of 0] show ?case by simp
qed simp

definition message :: "u64 \<Rightarrow> block \<Rightarrow> lp_packet list \<Rightarrow> bool" where
  "message m net hs \<longleftrightarrow> blk_valid net \<and> 1 < length hs \<and> length hs < 2 ^ 64 \<and>
     (\<exists>pays. length pays = length hs \<and> concat pays = blk_wire net \<and> (\<forall>i<length hs. is_frag m (length hs) i (pays ! i) (hs ! i)))"

lemma message_payload: "message m net hs \<Longrightarrow> bindR (concat_payloads hs) blockOfBuffer = Inr net"
proof -
  assume "message m net hs"
  then obtain pays where "length pays = length hs" "concat pays = blk_wire net" "blk_valid net"
    "\<And>k. k < length hs \<Longrightarrow> lp_payload (hs ! k) = Inr (pays ! k)" by (auto simp: message_def is_frag_def)
  then show ?thesis
    using concat_payloads_nth [of pays hs] blockOfBuffer_tlv_bytes [of "blk_value net" "blk_type net" "[]"]
    by (metis append_Nil2 bindR_Inr blk_valid_def mkBlock_sel(3))
qed

lemma receive_step:
  assumes "message m net hs" and "length hs \<le> nMax" and "partial_ok (ep, m) hs S r"
    and "i < length hs" and "i \<notin> S" and "S \<subseteq> {..<length hs}"
  obtains (more) r' where "insert i S \<noteq> {..<length hs}" and "receiveFragment nMax timeout ep (hs ! i) r = (Inr None, r')"
      and "partial_ok (ep, m) hs (insert i S) r'" and "(ra_partialPackets r')((ep, m) := None) = (ra_partialPackets r)((ep, m) := None)"
    | (complete) r' where "insert i S = {..<length hs}"
      and "receiveFragment nMax timeout ep (hs ! i) r = (Inr (Some (net, hs ! 0)), r')"
      and "ra_partialPackets r' = (ra_partialPackets r)((ep, m) := None)"
proof -
  have fin: "finite S" using assms(6) finite_subset by blast
  have len: "length hs < 2 ^ 64" using assms(1) by (simp add: message_def)
  obtain pays where "is_frag m (length hs) i (pays ! i) (hs ! i)" "1 < length hs"
    using assms(1,4) by (auto simp: message_def)
  then have recv: "receiveFragment nMax timeout ep (hs ! i) r = addFragment timeout (ep, m) (of_nat i) (of_nat (length hs)) (hs ! i) r"
    using assms(2,4) len by (intro receiveFragment_is_frag)
  have card: "card (insert i S) = length hs \<longleftrightarrow> insert i S = {..<length hs}"
    using card_subset_eq [of "{..<length hs}" "insert i S"] assms(4,6) by auto
  obtain pp where pp: "pp_fragments pp = slots_of hs (insert i S)" "pp_nReceivedFragments pp = card (insert i S)"
    "pp_fragCount pp = of_nat (length hs)" and add: "addFragment timeout (ep, m) (of_nat i) (of_nat (length hs)) (hs ! i) r =
      (if card (insert i S) = length hs then
         (case bindR (concat_payloads (slots_of hs (insert i S))) blockOfBuffer of
            Inl err \<Rightarrow> (Inl err, r\<lparr> ra_partialPackets := (ra_partialPackets r)((ep, m) \<mapsto> pp) \<rparr>)
          | Inr b \<Rightarrow> (Inr (Some (b, slots_of hs (insert i S) ! 0)),
              r\<lparr> ra_partialPackets := (ra_partialPackets r)((ep, m) := None), ra_sched := cancelEvent (pp_dropTimer pp) (ra_sched r) \<rparr>))
       else let (tid, sc) = scheduleEvent timeout (ep, m) (ra_sched r) in
         (Inr None, r\<lparr> ra_partialPackets := (ra_partialPackets r)((ep, m) \<mapsto> pp\<lparr> pp_dropTimer := Some tid \<rparr>),
                       ra_sched := cancelEvent (pp_dropTimer pp) sc \<rparr>))"
    by (rule addFragment_partial [OF assms(3) len assms(4,5) fin])
  show thesis
  proof (cases "insert i S = {..<length hs}")
    case True
    then have "receiveFragment nMax timeout ep (hs ! i) r = (Inr (Some (net, hs ! 0)),
        r\<lparr> ra_partialPackets := (ra_partialPackets r)((ep, m) := None), ra_sched := cancelEvent (pp_dropTimer pp) (ra_sched r) \<rparr>)"
      by (simp add: recv add slots_of_all message_payload [OF assms(1)])
    with True show thesis by (rule complete) simp
  next
    case False
    obtain tid sc where sc: "scheduleEvent timeout (ep, m) (ra_sched r) = (tid, sc)" by fastforce
    have "receiveFragment nMax timeout ep (hs ! i) r = (Inr None,
        r\<lparr> ra_partialPackets := (ra_partialPackets r)((ep, m) \<mapsto> pp\<lparr> pp_dropTimer := Some tid \<rparr>),
           ra_sched := cancelEvent (pp_dropTimer pp) sc \<rparr>)"
      using False card by (simp add: recv add sc)
    with False show thesis by (rule more) (simp_all add: partial_ok_def pp)
  qed
qed

text \<open>The reassembler fed with a sequence of packets from one endpoint.\<close>

primrec receive_all :: "nat \<Rightarrow> int \<Rightarrow> u64 \<Rightarrow> lp_packet list \<Rightarrow> reassembler \<Rightarrow>
    (tlv_error + (block \<times> lp_packet) option) list \<times> reassembler" where
  "receive_all nMax timeout ep [] r = ([], r)"
| "receive_all nMax timeout ep (p # ps) r =
     (let (x, r1) = receiveFragment nMax timeout ep p r; (xs, r2) = receive_all nMax timeout ep ps r1 in (x # xs, r2))"

lemma receive_all_message:
  assumes "message m net hs" and "length hs \<le> nMax" and "partial_ok (ep, m) hs S r"
    and "distinct order" and "set order = {..<length hs} - S" and "S \<subseteq> {..<length hs}" and "order \<noteq> []"
  shows "\<exists>r'. receive_all nMax timeout ep (map ((!) hs) order) r =
      (replicate (length order - 1) (Inr None) @ [Inr (Some (net, hs ! 0))], r') \<and>
    ra_partialPackets r' = (ra_partialPackets r)((ep, m) := None)"
  using assms(3-7)
proof (induction order arbitrary: S r)
  case Nil
  then show ?case by simp
next
  case (Cons i order)
  have i: "i < length hs" "i \<notin> S" using Cons.prems(3) by auto
  from assms(1,2) Cons.prems(1) i Cons.prems(4) show ?case
  proof (cases rule: receive_step [where timeout = timeout])
    case (more r')
    have rest: "set order = {..<length hs} - insert i S" "insert i S \<subseteq> {..<length hs}"
      using Cons.prems(2-4) i by auto
    with more(1) have "order \<noteq> []" by auto
    have "distinct order" using Cons.prems(2) by simp
    from Cons.IH [OF more(3) this rest \<open>order \<noteq> []\<close>] obtain r'' where
      ih: "receive_all nMax timeout ep (map ((!) hs) order) r' = (replicate (length order - 1) (Inr None) @ [Inr (Some (net, hs ! 0))], r'')"
      "ra_partialPackets r'' = (ra_partialPackets r')((ep, m) := None)" by blast
    have "replicate (length order) (Inr None) = Inr None # replicate (length order - 1) (Inr None :: tlv_error + (block \<times> lp_packet) option)"
      using \<open>order \<noteq> []\<close> by (cases order) simp_all
    then have "receive_all nMax timeout ep (map ((!) hs) (i # order)) r =
        (replicate (length (i # order) - 1) (Inr None) @ [Inr (Some (net, hs ! 0))], r'')"
      using more(2) ih(1) by simp
    moreover have "ra_partialPackets r'' = (ra_partialPackets r)((ep, m) := None)" using ih(2) more(4) by simp
    ultimately show ?thesis by blast
  next
    case (complete r')
    have "set order \<subseteq> {i}" using Cons.prems(3) unfolding complete(1) [symmetric] by auto
    with Cons.prems(2) have "order = []" by (cases order) auto
    then show ?thesis using complete(2,3) by (intro exI [of _ r']) simp
  qed
qed

section \<open>From the fragmenter to the reassembler\<close>

lemma lp_get_in: "lp_wf h \<Longrightarrow> mkBlock t xs \<in> set (lp_elements h) \<Longrightarrow> lp_get t h = Inr (mkBlock t xs) \<and> lp_has t h"
  using lp_get_wf [of h "mkBlock t xs"] by (auto simp: lp_has_iff intro!: image_eqI [of _ _ "mkBlock t xs"])

text \<open>What arrives has the fields of the fragment; the congestion mark may have been added or replaced.\<close>

definition keeps_fields :: "lp_packet \<Rightarrow> lp_packet \<Rightarrow> bool" where
  "keeps_fields g h \<longleftrightarrow> lp_wf h \<and> (\<forall>b\<in>set (lp_elements g). blk_type b \<noteq> tlv_CongestionMark \<longrightarrow> b \<in> set (lp_elements h)) \<and>
     (\<forall>b\<in>set (lp_elements h). blk_type b \<noteq> tlv_CongestionMark \<longrightarrow> b \<in> set (lp_elements g))"

lemma mark_types_distinct [simp]:
  "tlv_FragIndex \<noteq> tlv_CongestionMark" "tlv_FragCount \<noteq> tlv_CongestionMark" "tlv_Sequence \<noteq> tlv_CongestionMark"
  "tlv_Fragment \<noteq> tlv_CongestionMark"
  by (simp_all add: lp_types)

lemma keeps_in: "keeps_fields g h \<Longrightarrow> mkBlock t xs \<in> set (lp_elements g) \<Longrightarrow> t \<noteq> tlv_CongestionMark \<Longrightarrow> mkBlock t xs \<in> set (lp_elements h)"
  by (simp add: keeps_fields_def)

lemma keeps_has: "keeps_fields g h \<Longrightarrow> t \<noteq> tlv_CongestionMark \<Longrightarrow> lp_has t h = lp_has t g"
  by (auto simp: keeps_fields_def lp_has_iff image_iff)

lemma numbered_is_frag:
  assumes "frag_shape hs i n xs f" and "numbered (m + of_nat i) f g" and "xs \<noteq> []" and "keeps_fields g h"
  shows "is_frag m n i xs h"
proof -
  have "mkBlock tlv_FragIndex (writeNonNegativeInteger (of_nat i)) \<in> set (lp_elements g)"
    "mkBlock tlv_FragCount (writeNonNegativeInteger (of_nat n)) \<in> set (lp_elements g)"
    "mkBlock tlv_Sequence (be_bytes 8 (unat (m + of_nat i))) \<in> set (lp_elements g)"
    "mkBlock tlv_Fragment xs \<in> set (lp_elements g)"
    using assms(1,2) by (auto simp: frag_shape_def numbered_def)
  then have "mkBlock tlv_FragIndex (writeNonNegativeInteger (of_nat i)) \<in> set (lp_elements h)"
    "mkBlock tlv_FragCount (writeNonNegativeInteger (of_nat n)) \<in> set (lp_elements h)"
    "mkBlock tlv_Sequence (be_bytes 8 (unat (m + of_nat i))) \<in> set (lp_elements h)"
    "mkBlock tlv_Fragment xs \<in> set (lp_elements h)"
    by (simp_all add: keeps_in [OF assms(4)])
  moreover have "lp_wf h" using assms(4) by (simp add: keeps_fields_def)
  ultimately show ?thesis
    using lp_get_in [of h] assms(3)
    by (simp add: is_frag_def lp_nni_or_def lp_payload_def decode_range_def decode_u64_eq tlv_simps)
qed

text \<open>A packet that goes over the link is encoded and decoded.\<close>

definition over_link :: "lp_packet \<Rightarrow> tlv_error + lp_packet" where
  "over_link p = bindR (lp_wireEncode p) lp_wireDecode"

definition received :: "lp_packet \<Rightarrow> lp_packet" where
  "received p = \<lparr> lp_elements = lp_elements p, lp_wire = Some (lp_encode p) \<rparr>"

lemma over_link_numbered:
  assumes "roomy mtu f" and "numbered sq f g"
  shows "over_link g = Inr (received g)"
  using roomy_numbered [OF assms] lp_decode_encode [of g] assms(2) by (simp add: over_link_def received_def numbered_def)

lemma lp_wf_received [simp]: "lp_wf (received g) = lp_wf g" "lp_elements (received g) = lp_elements g"
  by (simp_all add: received_def lp_wf_def)

lemma keeps_received: "lp_wf g \<Longrightarrow> keeps_fields g (received g)"
  by (simp add: keeps_fields_def)

lemma fragments_message:
  assumes "sendable p net" and "fragments_of mtu p net n fs" and "1 < n" and "n < 2 ^ 64" and "length hs = length fs"
    and "\<And>k. k < length fs \<Longrightarrow> \<exists>g. numbered (m + of_nat k) (fs ! k) g \<and> keeps_fields g (hs ! k)"
  shows "message m net hs" and "length hs = n"
proof -
  obtain pays where made: "frags_made mtu n 0 (p # replicate (n - 1) lp_empty) pays fs" "concat pays = blk_wire net"
    using assms(2) by (auto simp: fragments_of_def)
  have len: "length fs = n" "length pays = n" using made(1) assms(3) by (simp_all add: frags_made_def)
  show "length hs = n" using assms(5) len(1) by simp
  have "is_frag m n i (pays ! i) (hs ! i)" if "i < n" for i
  proof -
    have "frag_shape (other_fields ((p # replicate (n - 1) lp_empty) ! i)) i n (pays ! i) (fs ! i)" "pays ! i \<noteq> []"
      using made(1) that len by (auto simp: frags_made_def)
    with assms(6) [of i] that len show ?thesis by (auto intro: numbered_is_frag)
  qed
  then show "message m net hs"
    using assms(1,3-5) len made(2) by (auto simp: message_def sendable_def intro!: exI [of _ pays])
qed

text \<open>A packet in one piece takes the fast path of the reassembler.\<close>

definition one_piece :: "block \<Rightarrow> lp_packet \<Rightarrow> bool" where
  "one_piece net h \<longleftrightarrow> lp_nni_or tlv_FragIndex 0 h = Inr 0 \<and> lp_nni_or tlv_FragCount 1 h = Inr 1 \<and>
     lp_payload h = Inr (blk_wire net) \<and> blk_valid net"

lemma receive_one_piece:
  assumes "one_piece net h" and "1 \<le> nMax"
  shows "receiveFragment nMax timeout ep h r = (Inr (Some (net, h)), r)"
proof -
  have "blockOfBuffer (blk_wire net) = Inr net"
    using assms(1) blockOfBuffer_tlv_bytes [of "blk_value net" "blk_type net" "[]"]
    by (metis append_Nil2 blk_valid_def mkBlock_sel(3) one_piece_def)
  with assms show ?thesis by (simp add: receiveFragment_def one_piece_def)
qed

lemma whole_one_piece:
  assumes "sendable p net" and "keeps_fields g h" and "mkBlock tlv_Fragment (blk_wire net) \<in> set (lp_elements g)"
    and "\<not> lp_has tlv_FragIndex g" and "\<not> lp_has tlv_FragCount g"
  shows "one_piece net h"
proof -
  have "lp_wf h" "mkBlock tlv_Fragment (blk_wire net) \<in> set (lp_elements h)"
    using assms(2) keeps_in [OF assms(2,3)] by (simp_all add: keeps_fields_def)
  from lp_get_in [OF this] keeps_has [OF assms(2)] sendable_facts(3) [OF assms(1)] assms show ?thesis
    by (simp add: one_piece_def lp_nni_or_def lp_payload_def decode_range_def sendable_def)
qed

lemma numbered_whole:
  assumes "sendable p net" and "numbered sq p g"
  shows "one_piece net (received g)"
  by (rule whole_one_piece [OF assms(1) keeps_received [of g]])
     (use assms in \<open>auto simp: sendable_def numbered_def lp_has_iff\<close>)

lemma numbered_single:
  assumes "sendable p net" and "fragments_of mtu p net 1 fs" and "numbered m (fs ! 0) g"
  shows "one_piece net (received g)"
proof -
  obtain pays where "frags_made mtu 1 0 [p] pays fs" "concat pays = blk_wire net"
    using assms(2) by (auto simp: fragments_of_def)
  then have "frag_shape (other_fields p) 0 1 (blk_wire net) (fs ! 0)"
    by (cases pays) (auto simp: frags_made_def)
  then have "is_frag m 1 0 (blk_wire net) (received g)"
    by (rule numbered_is_frag) (use assms sendable_facts(3) in \<open>auto simp: numbered_def intro: keeps_received\<close>)
  with assms(1) show ?thesis by (simp add: is_frag_def one_piece_def sendable_def)
qed

section \<open>Properties\<close>

definition example_lp :: lp_packet where
  "example_lp = \<lparr> lp_elements = [mkBlock tlv_Fragment (tlv_bytes 6 (replicate 30 7))], lp_wire = None \<rparr>"

lemma example_sendable: "sendable example_lp (mkBlock 6 (replicate 30 7))"
  by (simp add: sendable_def example_lp_def lp_wf_def lp_sorted_def lp_has_iff length_tlv_bytes sizeOfVarNumber_def)

lemma example_runs: "(case fragmentPacket 400 example_lp 60 of Def (Inr (Some fs)) \<Rightarrow> length fs = 4 | _ \<Rightarrow> False)"
  by code_simp

lemma example_fragments:
  obtains fs where "fragmentPacket 400 example_lp 60 = Def (Inr (Some fs))" and "length fs = 4"
  using example_runs by (auto split: outcome.splits sum.splits option.splits)

text \<open>
  C11: The fragmenter never violates one of its assertions or leaves its vector: for every packet that
  carries a network packet and every MTU it returns, and unless it reports failure every fragment it
  returns still fits the MTU after the link service has added the sequence number.
\<close>
theorem fragments_fit_mtu:
  assumes "sendable p net"
  shows "\<exists>res. fragmentPacket nMax p mtu = Def (Inr res) \<and>
    (\<forall>fs. res = Some fs \<longrightarrow> length fs \<le> max 1 nMax \<and>
      (\<exists>gs. assignSequences fs sq = Inr (gs, sq + of_nat (length fs)) \<and>
        (\<forall>g\<in>set gs. \<exists>w. lp_wireEncode g = Inr w \<and> length (blk_wire w) \<le> mtu)))"
proof -
  obtain res where res: "fragmentPacket nMax p mtu = Def (Inr res)" using fragmentPacket_ok [OF assms, of nMax mtu] by blast
  have "length fs \<le> max 1 nMax \<and> (\<exists>gs. assignSequences fs sq = Inr (gs, sq + of_nat (length fs)) \<and>
      (\<forall>g\<in>set gs. \<exists>w. lp_wireEncode g = Inr w \<and> length (blk_wire w) \<le> mtu))" if "res = Some fs" for fs
  proof -
    have roomy: "\<forall>f\<in>set fs. roomy mtu f" "length fs \<le> max 1 nMax"
      using fragmentPacket_roomy [OF assms] res that by auto
    obtain gs where gs: "assignSequences fs sq = Inr (gs, sq + of_nat (length fs))"
      "\<And>g. g \<in> set gs \<Longrightarrow> \<exists>f sq. roomy mtu f \<and> numbered sq f g"
      by (rule assignSequences_roomy [OF roomy(1), of sq]) blast
    have "\<exists>w. lp_wireEncode g = Inr w \<and> length (blk_wire w) \<le> mtu" if "g \<in> set gs" for g
      using gs(2) [OF that] roomy_numbered by blast
    with gs(1) roomy(2) show ?thesis by blast
  qed
  with res show ?thesis by blast
qed

theorem fragments_fit_mtu_witness:
  "\<exists>fs gs. fragmentPacket 400 example_lp 60 = Def (Inr (Some fs)) \<and> length fs = 4 \<and> assignSequences fs 7 = Inr (gs, 11) \<and>
    (\<forall>g\<in>set gs. \<exists>w. lp_wireEncode g = Inr w \<and> length (blk_wire w) \<le> 60)"
proof -
  obtain fs where fs: "fragmentPacket 400 example_lp 60 = Def (Inr (Some fs))" "length fs = 4" by (rule example_fragments)
  with fragments_fit_mtu [OF example_sendable, of 400 60 7] show ?thesis by auto
qed



end
