(* ===== verification/Ndn_Wire.thy ===== *)
theory Ndn_Wire
  imports Ndn_Types Lp_Packet
begin

text \<open>
  The wire formats of names, Interests and Data (\<open>src/ndn-cxx/ndn-cxx/name.cpp\<close>, \<open>key-locator.cpp\<close>,
  \<open>exclude.cpp\<close>, \<open>selectors.cpp\<close>, \<open>delegation-list.cpp\<close>, \<open>interest.cpp\<close>, \<open>meta-info.cpp\<close>, \<open>signature-info.cpp\<close>,
  \<open>data.cpp\<close>) and the matching of Interests with Data. A \<open>wireEncode\<close> template is an operation on an
  encoder, built from the same calls in the same order.
\<close>

section \<open>TLV-TYPE numbers (tlv.hpp)\<close>

definition tlv_Name :: u32 where [simp]: "tlv_Name = 7"
definition tlv_GenericComponent :: u32 where [simp]: "tlv_GenericComponent = 8"
definition tlv_ParametersDigest :: u32 where [simp]: "tlv_ParametersDigest = 2"
definition tlv_CanBePrefix :: u32 where [simp]: "tlv_CanBePrefix = 33"
definition tlv_MustBeFresh :: u32 where [simp]: "tlv_MustBeFresh = 18"
definition tlv_ForwardingHint :: u32 where [simp]: "tlv_ForwardingHint = 30"
definition tlv_Nonce :: u32 where [simp]: "tlv_Nonce = 10"
definition tlv_InterestLifetime :: u32 where [simp]: "tlv_InterestLifetime = 12"
definition tlv_HopLimit :: u32 where [simp]: "tlv_HopLimit = 34"
definition tlv_Parameters :: u32 where [simp]: "tlv_Parameters = 35"
definition tlv_MetaInfo :: u32 where [simp]: "tlv_MetaInfo = 20"
definition tlv_Content :: u32 where [simp]: "tlv_Content = 21"
definition tlv_SignatureInfo :: u32 where [simp]: "tlv_SignatureInfo = 22"
definition tlv_SignatureValue :: u32 where [simp]: "tlv_SignatureValue = 23"
definition tlv_ContentType :: u32 where [simp]: "tlv_ContentType = 24"
definition tlv_FreshnessPeriod :: u32 where [simp]: "tlv_FreshnessPeriod = 25"
definition tlv_FinalBlockId :: u32 where [simp]: "tlv_FinalBlockId = 26"
definition tlv_SignatureType :: u32 where [simp]: "tlv_SignatureType = 27"
definition tlv_KeyLocator :: u32 where [simp]: "tlv_KeyLocator = 28"
definition tlv_KeyDigest :: u32 where [simp]: "tlv_KeyDigest = 29"
definition tlv_LinkDelegation :: u32 where [simp]: "tlv_LinkDelegation = 31"
definition tlv_LinkPreference :: u32 where [simp]: "tlv_LinkPreference = 30"
definition tlv_Selectors :: u32 where [simp]: "tlv_Selectors = 9"
definition tlv_MinSuffixComponents :: u32 where [simp]: "tlv_MinSuffixComponents = 13"
definition tlv_MaxSuffixComponents :: u32 where [simp]: "tlv_MaxSuffixComponents = 14"
definition tlv_Exclude :: u32 where [simp]: "tlv_Exclude = 16"
definition tlv_ChildSelector :: u32 where [simp]: "tlv_ChildSelector = 17"
definition tlv_Any :: u32 where [simp]: "tlv_Any = 19"

definition isCriticalType :: "u32 \<Rightarrow> bool" where
  "isCriticalType type \<longleftrightarrow> type \<le> 31 \<or> odd type"

section \<open>Pieces of a \<open>wireEncode\<close> template\<close>

definition skip_prepend :: "encoder \<Rightarrow> encoder \<times> nat" where
  "skip_prepend e = (e, 0)"

definition prepend_if :: "bool \<Rightarrow> (encoder \<Rightarrow> encoder \<times> nat) \<Rightarrow> encoder \<Rightarrow> encoder \<times> nat" where
  "prepend_if c f = (if c then f else skip_prepend)"

text \<open>A loop from the last element of a container to its first.\<close>

primrec prepend_all :: "('a \<Rightarrow> encoder \<Rightarrow> encoder \<times> nat) \<Rightarrow> 'a list \<Rightarrow> encoder \<Rightarrow> encoder \<times> nat" where
  "prepend_all f [] = skip_prepend"
| "prepend_all f (x # xs) = then_prepend (prepend_all f xs) (f x)"

text \<open>\<open>prependBlock\<close> of a block that has a wire.\<close>

definition prependBlock :: "block \<Rightarrow> encoder \<Rightarrow> encoder \<times> nat" where
  "prependBlock b = prependByteArray (blk_wire b)"

text \<open>
  The two passes of a \<open>wireEncode()\<close>: the estimator reports the length that the encoder reports, and
  the encoder starts with that room.
\<close>

definition encode_block :: "(encoder \<Rightarrow> encoder \<times> nat) \<Rightarrow> tlv_error + block" where
  "encode_block f = encoder_block (fst (f (mkEncoder (snd (f (mkEncoder 0 0))) 0)))"

text \<open>The element at the cursor when it has the type, and the cursor behind it.\<close>

definition optional_elem :: "u32 \<Rightarrow> (block \<Rightarrow> tlv_error + 'a) \<Rightarrow> 'a \<Rightarrow> block list \<Rightarrow> tlv_error + ('a \<times> block list)" where
  "optional_elem t dec dflt es =
     (case es of
        e # rest \<Rightarrow> if blk_type e = t then bindR (dec e) (\<lambda>x. Inr (x, rest)) else Inr (dflt, es)
      | [] \<Rightarrow> Inr (dflt, []))"

definition next_is :: "u32 \<Rightarrow> block list \<Rightarrow> bool" where
  "next_is t es = (case es of [] \<Rightarrow> False | e # _ \<Rightarrow> blk_type e = t)"

definition readNonNegativeIntegerAs :: "nat \<Rightarrow> block \<Rightarrow> tlv_error + u64" where
  "readNonNegativeIntegerAs limit b =
     bindR (readNonNegativeIntegerBlock b) (\<lambda>n. if unat n > limit then Inl ValueTooLarge else Inr n)"

section \<open>Names\<close>

definition component_encode :: "component \<Rightarrow> encoder \<Rightarrow> encoder \<times> nat" where
  "component_encode c = close_element (fst c) (prepend_if (length (snd c) > 0) (prependByteArray (snd c)))"

definition name_encode :: "name \<Rightarrow> encoder \<Rightarrow> encoder \<times> nat" where
  "name_encode n = close_element tlv_Name (prepend_all component_encode n)"

definition name_wireDecode :: "block \<Rightarrow> tlv_error + name" where
  "name_wireDecode b =
     (if blk_type b \<noteq> tlv_Name then Inl (UnexpectedType (blk_type b))
      else bindR (elements_of (blk_value b)) (\<lambda>es. Inr (map (\<lambda>e. (blk_type e, blk_value e)) es)))"

text \<open>\<open>memcmp\<close> of two arrays of the same length, by its sign.\<close>

fun memcmp :: "byte list \<Rightarrow> byte list \<Rightarrow> int" where
  "memcmp (a # as) (b # bs) = (if a = b then memcmp as bs else if a < b then - 1 else 1)"
| "memcmp _ _ = 0"

text \<open>
  \<open>Component::compare\<close> has a path for components with a wire, which all components of decoded packets
  have, and one for the others. The differences of types and sizes fit an \<open>int\<close>.
\<close>

definition component_compare_wire :: "component \<Rightarrow> component \<Rightarrow> int" where
  "component_compare_wire a b =
     (let wa = tlv_bytes (fst a) (snd a); wb = tlv_bytes (fst b) (snd b); n = min (length wa) (length wb) in
      memcmp (take n wa) (take n wb))"

definition component_compare_value :: "component \<Rightarrow> component \<Rightarrow> int" where
  "component_compare_value a b =
     (if fst a \<noteq> fst b then uint (fst a) - uint (fst b)
      else if length (snd a) \<noteq> length (snd b) then int (length (snd a)) - int (length (snd b))
      else if snd a = [] then 0
      else memcmp (snd a) (snd b))"

fun name_compare_loop :: "name \<Rightarrow> name \<Rightarrow> int" where
  "name_compare_loop (a # as) (b # bs) =
     (let c = component_compare_wire a b in if c \<noteq> 0 then c else name_compare_loop as bs)"
| "name_compare_loop as bs = int (length as) - int (length bs)"

text \<open>The checks of the \<open>Component\<close> constructor.\<close>

definition component_of_block :: "block \<Rightarrow> tlv_error + component" where
  "component_of_block b =
     (if blk_type b < 1 \<or> blk_type b > 65535 then Inl (InvalidComponent (blk_type b))
      else if (blk_type b = tlv_ImplicitSha256Digest \<or> blk_type b = tlv_ParametersDigest) \<and> length (blk_value b) \<noteq> 32
      then Inl (InvalidComponent (blk_type b))
      else Inr (blk_type b, blk_value b))"

section \<open>Selectors\<close>

definition keyLocator_encode :: "key_locator \<Rightarrow> encoder \<Rightarrow> encoder \<times> nat" where
  "keyLocator_encode k = close_element tlv_KeyLocator
     (case kl_type k of
        KeyLocator_Name n \<Rightarrow> name_encode n
      | KeyLocator_KeyDigest b \<Rightarrow> prependBlock b
      | _ \<Rightarrow> skip_prepend)"

definition keyLocator_wireEncode :: "key_locator \<Rightarrow> tlv_error + block" where
  "keyLocator_wireEncode k =
     (case kl_wire k of Some w \<Rightarrow> Inr w
      | None \<Rightarrow> if kl_type k = KeyLocator_Unknown then Inl UnsupportedKeyLocator else encode_block (keyLocator_encode k))"

definition keyLocator_wireDecode :: "block \<Rightarrow> tlv_error + key_locator" where
  "keyLocator_wireDecode b =
     (if blk_type b \<noteq> tlv_KeyLocator then Inl (UnexpectedType (blk_type b))
      else bindR (elements_of (blk_value b)) (\<lambda>es.
        case es of
          [] \<Rightarrow> Inr \<lparr> kl_type = KeyLocator_None, kl_wire = Some b \<rparr>
        | e # _ \<Rightarrow>
            if blk_type e = tlv_Name then
              bindR (name_wireDecode e) (\<lambda>n. Inr \<lparr> kl_type = KeyLocator_Name n, kl_wire = Some b \<rparr>)
            else if blk_type e = tlv_KeyDigest then Inr \<lparr> kl_type = KeyLocator_KeyDigest e, kl_wire = Some b \<rparr>
            else Inr \<lparr> kl_type = KeyLocator_Unknown, kl_wire = Some b \<rparr>))"

text \<open>\<open>operator>\<close> on the keys of an Exclude; the negative infinity is below every component.\<close>

fun exclude_greater :: "component option \<Rightarrow> component option \<Rightarrow> bool" where
  "exclude_greater (Some a) (Some b) = (component_compare_wire a b > 0)"
| "exclude_greater (Some a) None = True"
| "exclude_greater None _ = False"

text \<open>\<open>appendEntry\<close>: the map keeps an entry that is already there.\<close>

fun appendEntry :: "component option \<Rightarrow> bool \<Rightarrow> exclude \<Rightarrow> exclude" where
  "appendEntry k v [] = [(k, v)]"
| "appendEntry k v ((k', v') # m) =
     (if exclude_greater k k' then (k, v) # (k', v') # m
      else if exclude_greater k' k then (k', v') # appendEntry k v m
      else (k', v') # m)"

definition isExcluded :: "component \<Rightarrow> exclude \<Rightarrow> bool" where
  "isExcluded c m =
     (case dropWhile (\<lambda>e. exclude_greater (fst e) (Some c)) m of
        [] \<Rightarrow> False
      | (k, any) # _ \<Rightarrow> any \<or> k = Some c)"

primrec exclude_encode_entries :: "exclude \<Rightarrow> encoder \<Rightarrow> encoder \<times> nat" where
  "exclude_encode_entries [] = skip_prepend"
| "exclude_encode_entries (e # es) =
     then_prepend
       (then_prepend (prepend_if (snd e) (prependEmptyBlock tlv_Any))
          (case fst e of None \<Rightarrow> skip_prepend | Some c \<Rightarrow> component_encode c))
       (exclude_encode_entries es)"

definition exclude_encode :: "exclude \<Rightarrow> encoder \<Rightarrow> encoder \<times> nat" where
  "exclude_encode m = close_element tlv_Exclude (exclude_encode_entries m)"

fun exclude_decode_loop :: "block list \<Rightarrow> exclude \<Rightarrow> tlv_error + exclude" where
  "exclude_decode_loop [] m = Inr m"
| "exclude_decode_loop (b # bs) m =
     bindR (component_of_block b) (\<lambda>c.
       if fst c \<noteq> tlv_GenericComponent \<and> \<not> (fst c = tlv_ImplicitSha256Digest \<and> length (snd c) = 32)
       then Inl (InvalidComponent (fst c))
       else case bs of
         [] \<Rightarrow> Inr (appendEntry (Some c) False m)
       | a # bs' \<Rightarrow>
           if blk_type a = tlv_Any then exclude_decode_loop bs' (appendEntry (Some c) True m)
           else exclude_decode_loop bs (appendEntry (Some c) False m))"

definition exclude_wireDecode :: "block \<Rightarrow> tlv_error + exclude" where
  "exclude_wireDecode b =
     (if blk_type b \<noteq> tlv_Exclude then Inl (UnexpectedType (blk_type b))
      else bindR (elements_of (blk_value b)) (\<lambda>es.
        case es of
          [] \<Rightarrow> Inl (NoSubElement tlv_Exclude)
        | e # rest \<Rightarrow>
            if blk_type e = tlv_Any then exclude_decode_loop rest (appendEntry None True [])
            else exclude_decode_loop es []))"

definition selectors_empty :: "selectors \<Rightarrow> bool" where
  "selectors_empty s \<longleftrightarrow> sel_minSuffixComponents s < 0 \<and> sel_maxSuffixComponents s < 0 \<and>
     kl_type (sel_publisherPublicKeyLocator s) = KeyLocator_None \<and> sel_exclude s = [] \<and>
     sel_childSelector s = 0 \<and> \<not> sel_mustBeFresh s"

definition selectors_encode :: "selectors \<Rightarrow> encoder \<Rightarrow> encoder \<times> nat" where
  "selectors_encode s = close_element tlv_Selectors
     (then_prepend (then_prepend (then_prepend (then_prepend (then_prepend
        (prepend_if (sel_mustBeFresh s) (prependEmptyBlock tlv_MustBeFresh))
        (prepend_if (sel_childSelector s \<noteq> 0) (prependNonNegativeIntegerBlock tlv_ChildSelector (of_int (sel_childSelector s)))))
        (prepend_if (sel_exclude s \<noteq> []) (exclude_encode (sel_exclude s))))
        (prepend_if (kl_type (sel_publisherPublicKeyLocator s) \<noteq> KeyLocator_None)
           (keyLocator_encode (sel_publisherPublicKeyLocator s))))
        (prepend_if (sel_maxSuffixComponents s \<ge> 0)
           (prependNonNegativeIntegerBlock tlv_MaxSuffixComponents (of_int (sel_maxSuffixComponents s)))))
        (prepend_if (sel_minSuffixComponents s \<ge> 0)
           (prependNonNegativeIntegerBlock tlv_MinSuffixComponents (of_int (sel_minSuffixComponents s)))))"

definition selectors_wireEncode :: "selectors \<Rightarrow> tlv_error + block" where
  "selectors_wireEncode s =
     (case sel_wire s of Some w \<Rightarrow> Inr w
      | None \<Rightarrow>
          if kl_type (sel_publisherPublicKeyLocator s) = KeyLocator_Unknown then Inl UnsupportedKeyLocator
          else encode_block (selectors_encode s))"

definition find_elem :: "u32 \<Rightarrow> (block \<Rightarrow> tlv_error + 'a) \<Rightarrow> 'a \<Rightarrow> block list \<Rightarrow> tlv_error + 'a" where
  "find_elem t dec dflt es = (case blk_find t es of None \<Rightarrow> Inr dflt | Some b \<Rightarrow> dec b)"

definition selectors_wireDecode :: "block \<Rightarrow> tlv_error + selectors" where
  "selectors_wireDecode b =
     (if blk_type b \<noteq> tlv_Selectors then Inl (UnexpectedType (blk_type b))
      else
        bindR (elements_of (blk_value b)) (\<lambda>es.
        bindR (find_elem tlv_MinSuffixComponents (\<lambda>e. bindR (readNonNegativeIntegerAs 2147483647 e) (\<lambda>n. Inr (uint n))) (- 1) es) (\<lambda>mins.
        bindR (find_elem tlv_MaxSuffixComponents (\<lambda>e. bindR (readNonNegativeIntegerAs 2147483647 e) (\<lambda>n. Inr (uint n))) (- 1) es) (\<lambda>maxs.
        bindR (find_elem tlv_KeyLocator keyLocator_wireDecode \<lparr> kl_type = KeyLocator_None, kl_wire = None \<rparr> es) (\<lambda>kl.
        bindR (find_elem tlv_Exclude exclude_wireDecode [] es) (\<lambda>ex.
        bindR (find_elem tlv_ChildSelector (\<lambda>e. bindR (readNonNegativeIntegerAs 1 e) (\<lambda>n. Inr (uint n))) 0 es) (\<lambda>child.
          Inr \<lparr> sel_minSuffixComponents = mins, sel_maxSuffixComponents = maxs, sel_publisherPublicKeyLocator = kl,
                sel_exclude = ex, sel_childSelector = child, sel_mustBeFresh = (blk_find tlv_MustBeFresh es \<noteq> None),
                sel_wire = Some b \<rparr>)))))))"

section \<open>Delegations\<close>

definition delegation_less :: "delegation \<Rightarrow> delegation \<Rightarrow> bool" where
  "delegation_less a b \<longleftrightarrow> fst a < fst b \<or> (\<not> fst b < fst a \<and> name_compare_loop (snd a) (snd b) < 0)"

text \<open>\<open>insertImpl\<close>: at the end, or at the upper bound of a sorted list.\<close>

definition delegation_insert :: "bool \<Rightarrow> delegation \<Rightarrow> delegation list \<Rightarrow> delegation list" where
  "delegation_insert isSorted d ds =
     (if \<not> isSorted then ds @ [d]
      else takeWhile (\<lambda>x. \<not> delegation_less d x) ds @ d # dropWhile (\<lambda>x. \<not> delegation_less d x) ds)"

definition delegation_encode :: "delegation \<Rightarrow> encoder \<Rightarrow> encoder \<times> nat" where
  "delegation_encode d = close_element tlv_LinkDelegation
     (then_prepend (name_encode (snd d)) (prependNonNegativeIntegerBlock tlv_LinkPreference (fst d)))"

definition delegations_encode :: "u32 \<Rightarrow> delegation list \<Rightarrow> encoder \<Rightarrow> encoder \<times> nat" where
  "delegations_encode type ds = close_element type (prepend_all delegation_encode ds)"

definition delegation_decode :: "block \<Rightarrow> tlv_error + delegation" where
  "delegation_decode del =
     (if blk_type del \<noteq> tlv_LinkDelegation then Inl (UnexpectedType (blk_type del))
      else bindR (elements_of (blk_value del)) (\<lambda>es.
        if \<not> next_is tlv_LinkPreference es then Inl (NoSubElement tlv_LinkPreference)
        else bindR (readNonNegativeIntegerBlock (hd es)) (\<lambda>preference.
          if \<not> next_is tlv_Name (tl es) then Inl (NoSubElement tlv_Name)
          else bindR (name_wireDecode (hd (tl es))) (\<lambda>n. Inr (preference, n)))))"

primrec delegations_loop :: "bool \<Rightarrow> block list \<Rightarrow> delegation list \<Rightarrow> tlv_error + delegation list" where
  "delegations_loop isSorted [] ds = Inr ds"
| "delegations_loop isSorted (b # bs) ds =
     bindR (delegation_decode b) (\<lambda>d. delegations_loop isSorted bs (delegation_insert isSorted d ds))"

definition delegations_wireDecode :: "bool \<Rightarrow> block \<Rightarrow> tlv_error + delegation list" where
  "delegations_wireDecode wantSort b =
     (if blk_type b \<noteq> tlv_Content \<and> blk_type b \<noteq> tlv_ForwardingHint then Inl (UnexpectedType (blk_type b))
      else
        bindR (elements_of (blk_value b)) (\<lambda>es.
        bindR (delegations_loop wantSort es []) (\<lambda>ds.
          if ds = [] then Inl (NoSubElement tlv_LinkDelegation) else Inr ds)))"

section \<open>Interests\<close>

definition DEFAULT_INTEREST_LIFETIME :: int where "DEFAULT_INTEREST_LIFETIME = 4000"

text \<open>The nonce is copied as it lies in memory, on a little-endian machine.\<close>

definition nonce_bytes :: "nonce \<Rightarrow> byte list" where "nonce_bytes n = rev (be_bytes 4 (unat n))"

definition nonce_decode :: "block \<Rightarrow> tlv_error + nonce" where
  "nonce_decode e = (if length (blk_value e) \<noteq> 4 then Inl LengthMismatch else Inr (of_nat (be_nat (rev (blk_value e)))))"

text \<open>\<open>time::milliseconds\<close> of an unsigned number: a signed 64 bit count.\<close>

definition milliseconds_decode :: "block \<Rightarrow> tlv_error + int" where
  "milliseconds_decode e = bindR (readNonNegativeIntegerBlock e) (\<lambda>n. Inr (sint n))"

definition interest_encode02 :: "interest \<Rightarrow> encoder \<Rightarrow> encoder \<times> nat" where
  "interest_encode02 i = close_element tlv_Interest
     (then_prepend (then_prepend (then_prepend (then_prepend
        (prepend_if (in_forwardingHint i \<noteq> []) (delegations_encode tlv_ForwardingHint (in_forwardingHint i)))
        (prepend_if (in_lifetime i \<noteq> DEFAULT_INTEREST_LIFETIME)
           (prependNonNegativeIntegerBlock tlv_InterestLifetime (of_int (in_lifetime i)))))
        (prependByteArrayBlock tlv_Nonce (nonce_bytes (in_nonce i))))
        (prepend_if (\<not> selectors_empty (in_selectors i)) (selectors_encode (in_selectors i))))
        (name_encode (in_name i)))"

definition getCanBePrefix :: "interest \<Rightarrow> bool" where
  "getCanBePrefix i \<longleftrightarrow> sel_maxSuffixComponents (in_selectors i) \<noteq> 1"

definition interest_encode03 :: "interest \<Rightarrow> encoder \<Rightarrow> encoder \<times> nat" where
  "interest_encode03 i = close_element tlv_Interest
     (then_prepend (then_prepend (then_prepend (then_prepend (then_prepend (then_prepend
        (case in_parameters i of None \<Rightarrow> skip_prepend | Some b \<Rightarrow> prependBlock b)
        (prepend_if (in_lifetime i \<noteq> DEFAULT_INTEREST_LIFETIME)
           (prependNonNegativeIntegerBlock tlv_InterestLifetime (of_int (in_lifetime i)))))
        (prependByteArrayBlock tlv_Nonce (nonce_bytes (in_nonce i))))
        (prepend_if (in_forwardingHint i \<noteq> []) (delegations_encode tlv_ForwardingHint (in_forwardingHint i))))
        (prepend_if (sel_mustBeFresh (in_selectors i)) (prependEmptyBlock tlv_MustBeFresh)))
        (prepend_if (getCanBePrefix i) (prependEmptyBlock tlv_CanBePrefix)))
        (name_encode (in_name i)))"

text \<open>A decoded Interest has no tags.\<close>

definition interest_of :: "name \<Rightarrow> selectors \<Rightarrow> nonce \<Rightarrow> int \<Rightarrow> delegation list \<Rightarrow> block option \<Rightarrow> interest" where
  "interest_of n sel nonce lifetime fh ps = \<lparr> in_name = n, in_selectors = sel, in_nonce = nonce, in_lifetime = lifetime,
     in_forwardingHint = fh, in_parameters = ps, in_wire = None, in_hopCount = None, in_nextHopFaceId = None,
     in_incomingFaceId = None, in_congestionMark = None, in_nonDiscovery = False \<rparr>"

definition interest_decode02 :: "block list \<Rightarrow> tlv_error + interest option" where
  "interest_decode02 es =
     (if \<not> next_is tlv_Name es then Inr None
      else
        bindR (name_wireDecode (hd es)) (\<lambda>n.
        bindR (optional_elem tlv_Selectors selectors_wireDecode mkSelectors (tl es)) (\<lambda>(sel, es1).
          if \<not> next_is tlv_Nonce es1 then Inr None
          else
            bindR (nonce_decode (hd es1)) (\<lambda>nonce.
            bindR (optional_elem tlv_InterestLifetime milliseconds_decode DEFAULT_INTEREST_LIFETIME (tl es1)) (\<lambda>(lifetime, es2).
            bindR (optional_elem tlv_ForwardingHint (delegations_wireDecode False) [] es2) (\<lambda>(fh, es3).
              Inr (if es3 = [] then Some (interest_of n sel nonce lifetime fh None) else None)))))))"

text \<open>
  The \<open>switch\<close> of \<open>decode03\<close> with the index of the last recognised element, whether a nonce was seen,
  and the Interest so far.
\<close>

definition interest_element03 :: "block \<Rightarrow> nat \<times> bool \<times> interest \<Rightarrow> tlv_error + (nat \<times> bool \<times> interest)" where
  "interest_element03 e = (\<lambda>(lastElement, hasNonce, i).
     if blk_type e = tlv_CanBePrefix then
       (if lastElement \<ge> 2 then Inl (FieldOutOfOrder (blk_type e))
        else if blk_value e \<noteq> [] then Inl LengthMismatch
        else Inr (2, hasNonce, i\<lparr> in_selectors := (in_selectors i)\<lparr> sel_maxSuffixComponents := - 1 \<rparr> \<rparr>))
     else if blk_type e = tlv_MustBeFresh then
       (if lastElement \<ge> 3 then Inl (FieldOutOfOrder (blk_type e))
        else if blk_value e \<noteq> [] then Inl LengthMismatch
        else Inr (3, hasNonce, i\<lparr> in_selectors := (in_selectors i)\<lparr> sel_mustBeFresh := True \<rparr> \<rparr>))
     else if blk_type e = tlv_ForwardingHint then
       (if lastElement \<ge> 4 then Inl (FieldOutOfOrder (blk_type e))
        else bindR (delegations_wireDecode True e) (\<lambda>fh. Inr (4, hasNonce, i\<lparr> in_forwardingHint := fh \<rparr>)))
     else if blk_type e = tlv_Nonce then
       (if lastElement \<ge> 5 then Inl (FieldOutOfOrder (blk_type e))
        else bindR (nonce_decode e) (\<lambda>nonce. Inr (5, True, i\<lparr> in_nonce := nonce \<rparr>)))
     else if blk_type e = tlv_InterestLifetime then
       (if lastElement \<ge> 6 then Inl (FieldOutOfOrder (blk_type e))
        else bindR (milliseconds_decode e) (\<lambda>t. Inr (6, hasNonce, i\<lparr> in_lifetime := t \<rparr>)))
     else if blk_type e = tlv_HopLimit then
       (if lastElement \<ge> 7 then Inr (lastElement, hasNonce, i)
        else if length (blk_value e) \<noteq> 1 then Inl LengthMismatch
        else Inr (7, hasNonce, i))
     else if blk_type e = tlv_Parameters then
       (if lastElement \<ge> 8 then Inl (FieldOutOfOrder (blk_type e))
        else Inr (8, hasNonce, i\<lparr> in_parameters := Some e \<rparr>))
     else if isCriticalType (blk_type e) then Inl (UnrecognizedField (blk_type e))
     else Inr (lastElement, hasNonce, i))"

primrec interest_loop03 :: "block list \<Rightarrow> nat \<times> bool \<times> interest \<Rightarrow> tlv_error + (nat \<times> bool \<times> interest)" where
  "interest_loop03 [] s = Inr s"
| "interest_loop03 (e # es) s = bindR (interest_element03 e s) (interest_loop03 es)"

definition interest_decode03 :: "block list \<Rightarrow> tlv_error + (bool \<times> interest)" where
  "interest_decode03 es =
     (if \<not> next_is tlv_Name es then Inl (NoSubElement tlv_Name)
      else
        bindR (name_wireDecode (hd es)) (\<lambda>n.
          if n = [] then Inl (InvalidComponent 0)
          else
            bindR (interest_loop03 (tl es) (1, False,
              interest_of n (mkSelectors\<lparr> sel_maxSuffixComponents := 1 \<rparr>) 0 DEFAULT_INTEREST_LIFETIME [] None))
              (\<lambda>(_, hasNonce, i). Inr (hasNonce, i))))"

text \<open>An Interest without nonce gets the random number \<open>rnd\<close>, which resets its wire.\<close>

definition interest_wireDecode :: "nonce \<Rightarrow> block \<Rightarrow> tlv_error + interest" where
  "interest_wireDecode rnd wire =
     bindR (elements_of (blk_value wire)) (\<lambda>es.
       if blk_type wire \<noteq> tlv_Interest then Inl (UnexpectedType (blk_type wire))
       else
         bindR (interest_decode02 es) (\<lambda>r.
           case r of
             Some i \<Rightarrow> Inr (i\<lparr> in_wire := Some wire \<rparr>)
           | None \<Rightarrow>
               bindR (interest_decode03 es) (\<lambda>(hasNonce, i).
                 Inr (if hasNonce then i\<lparr> in_wire := Some wire \<rparr> else i\<lparr> in_nonce := rnd, in_wire := None \<rparr>))))"

text \<open>\<open>wireEncode()\<close> decodes the block it has written before it returns it.\<close>

definition interest_wireEncode :: "interest \<Rightarrow> tlv_error + block" where
  "interest_wireEncode i =
     (case in_wire i of Some w \<Rightarrow> Inr w
      | None \<Rightarrow>
          if in_parameters i = None \<and> kl_type (sel_publisherPublicKeyLocator (in_selectors i)) = KeyLocator_Unknown
          then Inl UnsupportedKeyLocator
          else
            bindR (encode_block (if in_parameters i \<noteq> None then interest_encode03 i else interest_encode02 i)) (\<lambda>w.
            bindR (interest_wireDecode 0 w) (\<lambda>_. Inr w)))"

section \<open>Data\<close>

definition metaInfo_encode :: "data \<Rightarrow> encoder \<Rightarrow> encoder \<times> nat" where
  "metaInfo_encode d = close_element tlv_MetaInfo
     (then_prepend (then_prepend (then_prepend
        (prepend_all prependBlock (d_appMetaInfo d))
        (case d_finalBlockId d of None \<Rightarrow> skip_prepend | Some c \<Rightarrow> close_element tlv_FinalBlockId (component_encode c)))
        (prepend_if (d_freshness d \<noteq> 0) (prependNonNegativeIntegerBlock tlv_FreshnessPeriod (of_int (d_freshness d)))))
        (prepend_if (d_contentType d \<noteq> 0) (prependNonNegativeIntegerBlock tlv_ContentType (ucast (d_contentType d)))))"

definition metaInfo_wireDecode :: "block \<Rightarrow> data \<Rightarrow> tlv_error + data" where
  "metaInfo_wireDecode b d =
     bindR (elements_of (blk_value b)) (\<lambda>es.
     bindR (optional_elem tlv_ContentType (\<lambda>e. bindR (readNonNegativeIntegerAs 4294967295 e) (\<lambda>n. Inr (ucast n))) 0 es) (\<lambda>(type, es1).
     bindR (optional_elem tlv_FreshnessPeriod milliseconds_decode 0 es1) (\<lambda>(freshness, es2).
     bindR (optional_elem tlv_FinalBlockId (\<lambda>e. bindR (bindR (blockOfBuffer (blk_value e)) component_of_block) (\<lambda>c. Inr (Some c))) None es2) (\<lambda>(final, es3).
       Inr (d\<lparr> d_contentType := type, d_freshness := freshness, d_finalBlockId := final, d_appMetaInfo := es3 \<rparr>)))))"

text \<open>The signature value of a Data without SignatureValue is a block with no type.\<close>

definition data_encode :: "byte list \<Rightarrow> data \<Rightarrow> encoder \<Rightarrow> encoder \<times> nat" where
  "data_encode info d = close_element tlv_Data
     (then_prepend (then_prepend (then_prepend (then_prepend
        (case snd (d_signature d) of None \<Rightarrow> prependByteArrayBlock (- 1) [] | Some v \<Rightarrow> prependBlock (mkBlock tlv_SignatureValue v))
        (prependBlock (mkBlock tlv_SignatureInfo info)))
        (prependBlock (mkBlock tlv_Content (d_content d))))
        (metaInfo_encode d))
        (name_encode (d_name d)))"

definition signatureInfo_wireDecode :: "block \<Rightarrow> tlv_error + unit" where
  "signatureInfo_wireDecode b =
     bindR (elements_of (blk_value b)) (\<lambda>es.
       if blk_type b \<noteq> tlv_SignatureInfo then Inl (UnexpectedType (blk_type b))
       else if \<not> next_is tlv_SignatureType es then Inl (NoSubElement tlv_SignatureType)
       else
         bindR (readNonNegativeIntegerAs 65535 (hd es)) (\<lambda>_.
           if next_is tlv_KeyLocator (tl es) then bindR (keyLocator_wireDecode (hd (tl es))) (\<lambda>_. Inr ()) else Inr ()))"

definition data_element :: "block \<Rightarrow> nat \<times> data \<Rightarrow> tlv_error + (nat \<times> data)" where
  "data_element e = (\<lambda>(lastElement, d).
     if blk_type e = tlv_MetaInfo then
       (if lastElement \<ge> 2 then Inl (FieldOutOfOrder (blk_type e))
        else bindR (metaInfo_wireDecode e d) (\<lambda>d'. Inr (2, d')))
     else if blk_type e = tlv_Content then
       (if lastElement \<ge> 3 then Inl (FieldOutOfOrder (blk_type e)) else Inr (3, d\<lparr> d_content := blk_value e \<rparr>))
     else if blk_type e = tlv_SignatureInfo then
       (if lastElement \<ge> 4 then Inl (FieldOutOfOrder (blk_type e))
        else bindR (signatureInfo_wireDecode e) (\<lambda>_. Inr (4, d\<lparr> d_signature := (Some (blk_value e), snd (d_signature d)) \<rparr>)))
     else if blk_type e = tlv_SignatureValue then
       (if lastElement \<ge> 5 then Inl (FieldOutOfOrder (blk_type e))
        else Inr (5, d\<lparr> d_signature := (fst (d_signature d), Some (blk_value e)) \<rparr>))
     else if isCriticalType (blk_type e) then Inl (UnrecognizedField (blk_type e))
     else Inr (lastElement, d))"

primrec data_loop :: "block list \<Rightarrow> nat \<times> data \<Rightarrow> tlv_error + (nat \<times> data)" where
  "data_loop [] s = Inr s"
| "data_loop (e # es) s = bindR (data_element e s) (data_loop es)"

definition data_of :: "name \<Rightarrow> data" where
  "data_of n = \<lparr> d_name = n, d_contentType = 0, d_freshness = 0, d_finalBlockId = None, d_appMetaInfo = [], d_content = [],
     d_signature = (None, None), d_wire = None, d_hopCount = None, d_incomingFaceId = None, d_congestionMark = None,
     d_cachePolicy = None, d_prefixAnnouncement = None \<rparr>"

text \<open>The type of the element is not checked.\<close>

definition data_wireDecode :: "block \<Rightarrow> tlv_error + data" where
  "data_wireDecode wire =
     bindR (elements_of (blk_value wire)) (\<lambda>es.
       if \<not> next_is tlv_Name es then Inl (NoSubElement tlv_Name)
       else
         bindR (name_wireDecode (hd es)) (\<lambda>n.
         bindR (data_loop (tl es) (1, data_of n)) (\<lambda>(_, d).
           if fst (d_signature d) = None then Inl (NoSubElement tlv_SignatureInfo)
           else Inr (d\<lparr> d_wire := Some wire \<rparr>))))"

definition data_wireEncode :: "data \<Rightarrow> tlv_error + block" where
  "data_wireEncode d =
     (case d_wire d of Some w \<Rightarrow> Inr w
      | None \<Rightarrow>
          (case fst (d_signature d) of
             None \<Rightarrow> Inl NotSigned
           | Some info \<Rightarrow> bindR (encode_block (data_encode info d)) (\<lambda>w. bindR (data_wireDecode w) (\<lambda>_. Inr w))))"

section \<open>Matching\<close>

text \<open>The digest component that \<open>getFullName\<close> appends to the name of the Data is the argument \<open>digest\<close>.\<close>

definition matchesData :: "component \<Rightarrow> interest \<Rightarrow> data \<Rightarrow> bool" where
  "matchesData digest i d =
     (let interestNameLength = length (in_name i); fullNameLength = length (d_name d) + 1; sel = in_selectors i;
          minSuffixComponents = (if sel_minSuffixComponents sel \<ge> 0 then nat (sel_minSuffixComponents sel) else 0) in
      if \<not> interestNameLength + minSuffixComponents \<le> fullNameLength then False
      else if sel_maxSuffixComponents sel \<ge> 0 \<and> \<not> interestNameLength + nat (sel_maxSuffixComponents sel) \<ge> fullNameLength then False
      else if interestNameLength = fullNameLength \<and> \<not> (fst (last (in_name i)) = tlv_ImplicitSha256Digest \<and> length (snd (last (in_name i))) = 32) then False
      else if interestNameLength = fullNameLength \<and> \<not> name_equals (in_name i) (d_name d @ [digest]) then False
      else if interestNameLength \<noteq> fullNameLength \<and> \<not> isPrefixOf (in_name i) (d_name d) then False
      else if sel_exclude sel \<noteq> [] \<and> fullNameLength > interestNameLength \<and>
        isExcluded (if interestNameLength = fullNameLength - 1 then digest else d_name d ! interestNameLength) (sel_exclude sel) then False
      else if kl_type (sel_publisherPublicKeyLocator sel) \<noteq> KeyLocator_None then
        (case (fst (d_signature d), keyLocator_wireEncode (sel_publisherPublicKeyLocator sel)) of
           (Some info, Inr w) \<Rightarrow>
             (case bindR (elements_of info) (\<lambda>es. Inr (blk_find tlv_KeyLocator es)) of
                Inr (Some it) \<Rightarrow> blk_eq w it
              | _ \<Rightarrow> False)
         | _ \<Rightarrow> False)
      else True)"

definition selectors_eq :: "selectors \<Rightarrow> selectors \<Rightarrow> bool" where
  "selectors_eq a b =
     (case (selectors_wireEncode a, selectors_wireEncode b) of (Inr v, Inr w) \<Rightarrow> blk_eq v w | _ \<Rightarrow> False)"

definition matchesInterest :: "interest \<Rightarrow> interest \<Rightarrow> bool" where
  "matchesInterest i j \<longleftrightarrow> name_equals (in_name i) (in_name j) \<and> selectors_eq (in_selectors i) (in_selectors j)"

section \<open>Encoding of the pieces\<close>

lemma prepends_skip: "prepends skip_prepend []"
  by (simp add: prepends_def skip_prepend_def)

lemma prepends_if: "prepends f xs \<Longrightarrow> prepends (prepend_if c f) (if c then xs else [])"
  using prepends_skip by (simp add: prepend_if_def)

lemma prepends_all: "(\<And>x. x \<in> set xs \<Longrightarrow> prepends (f x) (g x)) \<Longrightarrow> prepends (prepend_all f xs) (concat (map g xs))"
  by (induction xs) (simp_all add: prepends_skip prepends_then)

lemma prepends_Block: "prepends (prependBlock b) (blk_wire b)"
  unfolding prependBlock_def by (rule prepends_ByteArray)

lemma encode_block_eq:
  assumes "prepends f (tlv_bytes t xs)" and "length xs < 2 ^ 64"
  shows "encode_block f = Inr (mkBlock t xs)"
  unfolding encode_block_def using assms by (intro encoder_block_tlv_bytes) (simp_all add: prepends_def)

lemmas prepends_pieces = prepends_close prepends_then prepends_if prepends_all prepends_Block prepends_skip
  prepends_ByteArrayBlock prepends_NonNegativeIntegerBlock prepends_EmptyBlock prepends_ByteArray

text \<open>The elements as blocks; an optional element is a list of at most one.\<close>

definition opt_block :: "bool \<Rightarrow> block \<Rightarrow> block list" where
  "opt_block c b = (if c then [b] else [])"

definition wires :: "block list \<Rightarrow> byte list" where
  "wires es = concat (map blk_wire es)"

definition nni_block :: "u32 \<Rightarrow> u64 \<Rightarrow> block" where
  "nni_block t n = mkBlock t (writeNonNegativeInteger n)"

definition component_block :: "component \<Rightarrow> block" where
  "component_block c = mkBlock (fst c) (snd c)"

definition name_block :: "name \<Rightarrow> block" where
  "name_block n = mkBlock tlv_Name (wires (map component_block n))"

definition delegation_block :: "delegation \<Rightarrow> block" where
  "delegation_block d = mkBlock tlv_LinkDelegation (wires [nni_block tlv_LinkPreference (fst d), name_block (snd d)])"

definition delegations_block :: "u32 \<Rightarrow> delegation list \<Rightarrow> block" where
  "delegations_block t ds = mkBlock t (wires (map delegation_block ds))"

definition selectors_elements :: "selectors \<Rightarrow> block list" where
  "selectors_elements s =
     opt_block (sel_minSuffixComponents s \<ge> 0) (nni_block tlv_MinSuffixComponents (of_int (sel_minSuffixComponents s))) @
     opt_block (sel_maxSuffixComponents s \<ge> 0) (nni_block tlv_MaxSuffixComponents (of_int (sel_maxSuffixComponents s))) @
     opt_block (sel_childSelector s \<noteq> 0) (nni_block tlv_ChildSelector (of_int (sel_childSelector s))) @
     opt_block (sel_mustBeFresh s) (mkBlock tlv_MustBeFresh [])"

definition selectors_block :: "selectors \<Rightarrow> block" where
  "selectors_block s = mkBlock tlv_Selectors (wires (selectors_elements s))"

definition interest_elements :: "interest \<Rightarrow> block list" where
  "interest_elements i =
     name_block (in_name i) #
     opt_block (\<not> selectors_empty (in_selectors i)) (selectors_block (in_selectors i)) @
     mkBlock tlv_Nonce (nonce_bytes (in_nonce i)) #
     opt_block (in_lifetime i \<noteq> DEFAULT_INTEREST_LIFETIME) (nni_block tlv_InterestLifetime (of_int (in_lifetime i))) @
     opt_block (in_forwardingHint i \<noteq> []) (delegations_block tlv_ForwardingHint (in_forwardingHint i))"

lemma wires_simps [simp]:
  "wires [] = []" "wires (b # bs) = blk_wire b @ wires bs" "wires (as @ bs) = wires as @ wires bs"
  by (simp_all add: wires_def)

lemma wires_opt [simp]: "wires (opt_block c b) = (if c then blk_wire b else [])"
  by (simp add: opt_block_def)

lemma prepends_opt: "prepends f (blk_wire b) \<Longrightarrow> prepends (prepend_if c f) (wires (opt_block c b))"
  using prepends_if [of f "blk_wire b" c] by simp

lemma prepends_nni: "prepends (prependNonNegativeIntegerBlock t n) (blk_wire (nni_block t n))"
  unfolding nni_block_def by (simp add: prepends_NonNegativeIntegerBlock)

lemma prepends_component: "prepends (component_encode c) (blk_wire (component_block c))"
proof -
  have "prepends (prepend_if (length (snd c) > 0) (prependByteArray (snd c))) (if length (snd c) > 0 then snd c else [])"
    by (intro prepends_if prepends_ByteArray)
  then show ?thesis
    unfolding component_encode_def component_block_def mkBlock_sel by (intro prepends_close) (cases "snd c", auto)
qed

lemma prepends_name: "prepends (name_encode n) (blk_wire (name_block n))"
  unfolding name_encode_def name_block_def mkBlock_sel wires_def map_map comp_def
  by (intro prepends_close prepends_all prepends_component)

lemma prepends_delegation: "prepends (delegation_encode d) (blk_wire (delegation_block d))"
  unfolding delegation_encode_def delegation_block_def mkBlock_sel wires_simps append_Nil2
  by (intro prepends_close prepends_then prepends_name prepends_nni)

lemma prepends_delegations: "prepends (delegations_encode t ds) (blk_wire (delegations_block t ds))"
  unfolding delegations_encode_def delegations_block_def mkBlock_sel wires_def map_map comp_def
  by (intro prepends_close prepends_all prepends_delegation)

lemma prepends_selectors:
  assumes "sel_exclude s = []" and "kl_type (sel_publisherPublicKeyLocator s) = KeyLocator_None"
  shows "prepends (selectors_encode s) (blk_wire (selectors_block s))"
proof -
  have "prepends (prepend_if False f) []" for f by (simp add: prepend_if_def prepends_skip)
  moreover have "prepends (prependEmptyBlock tlv_MustBeFresh) (blk_wire (mkBlock tlv_MustBeFresh []))"
    by (simp only: mkBlock_sel prepends_EmptyBlock)
  ultimately have "prepends (selectors_encode s) (tlv_bytes tlv_Selectors
      (wires (opt_block (sel_minSuffixComponents s \<ge> 0) (nni_block tlv_MinSuffixComponents (of_int (sel_minSuffixComponents s)))) @
       wires (opt_block (sel_maxSuffixComponents s \<ge> 0) (nni_block tlv_MaxSuffixComponents (of_int (sel_maxSuffixComponents s)))) @
       [] @ [] @
       wires (opt_block (sel_childSelector s \<noteq> 0) (nni_block tlv_ChildSelector (of_int (sel_childSelector s)))) @
       wires (opt_block (sel_mustBeFresh s) (mkBlock tlv_MustBeFresh []))))"
    unfolding selectors_encode_def using assms by (intro prepends_close prepends_then prepends_opt prepends_nni) simp_all
  then show ?thesis by (simp only: selectors_block_def selectors_elements_def mkBlock_sel wires_simps append_Nil)
qed

lemma prepends_interest02:
  assumes "sel_exclude (in_selectors i) = []" and "kl_type (sel_publisherPublicKeyLocator (in_selectors i)) = KeyLocator_None"
  shows "prepends (interest_encode02 i) (tlv_bytes tlv_Interest (wires (interest_elements i)))"
proof -
  have nonce: "prepends (prependByteArrayBlock tlv_Nonce (nonce_bytes (in_nonce i))) (wires [mkBlock tlv_Nonce (nonce_bytes (in_nonce i))])"
    using prepends_ByteArrayBlock by simp
  have "prepends (interest_encode02 i) (tlv_bytes tlv_Interest
    (blk_wire (name_block (in_name i)) @
     wires (opt_block (\<not> selectors_empty (in_selectors i)) (selectors_block (in_selectors i))) @
     wires [mkBlock tlv_Nonce (nonce_bytes (in_nonce i))] @
     wires (opt_block (in_lifetime i \<noteq> DEFAULT_INTEREST_LIFETIME) (nni_block tlv_InterestLifetime (of_int (in_lifetime i)))) @
     wires (opt_block (in_forwardingHint i \<noteq> []) (delegations_block tlv_ForwardingHint (in_forwardingHint i)))))"
    unfolding interest_encode02_def using assms nonce
    by (intro prepends_close prepends_then prepends_opt prepends_nni prepends_name prepends_delegations prepends_selectors)
  then show ?thesis by (simp only: interest_elements_def wires_simps append_assoc append_Nil)
qed

section \<open>Decoding of the pieces\<close>

lemma blk_valid_nni [simp]: "blk_valid (nni_block t n)" "blk_type (nni_block t n) = t"
  using sizeOfNonNegativeInteger_le [of n] by (simp_all add: nni_block_def)

lemma length_tlv_bytes_ge: "length xs \<le> length (tlv_bytes t xs)"
  by (simp add: length_tlv_bytes)

text \<open>An element fits when the element around it does.\<close>

lemma wires_member: "b \<in> set es \<Longrightarrow> length (blk_wire b) \<le> length (wires es)"
  by (induction es) auto

lemma fits_inner:
  assumes "length (wires es) < 2 ^ 64" and "mkBlock t xs \<in> set es"
  shows "length xs < 2 ^ 64"
  using wires_member [OF assms(2)] length_tlv_bytes_ge [of xs t] assms(1) by simp

lemma elements_of_wires: "(\<And>b. b \<in> set es \<Longrightarrow> blk_valid b) \<Longrightarrow> elements_of (wires es) = Inr es"
  unfolding wires_def by (rule elements_of_concat) simp

lemma wires_elements:
  assumes "length (wires es) < 2 ^ 64" and "\<And>b. b \<in> set es \<Longrightarrow> \<exists>t xs. b = mkBlock t xs"
  shows "elements_of (wires es) = Inr es"
proof (rule elements_of_wires)
  fix b assume "b \<in> set es"
  with assms(2) obtain t xs where "b = mkBlock t xs" by blast
  with fits_inner [OF assms(1), of t xs] \<open>b \<in> set es\<close> show "blk_valid b" by simp
qed

lemma name_decode_block:
  assumes "length (blk_value (name_block n)) < 2 ^ 64"
  shows "name_wireDecode (name_block n) = Inr n"
proof -
  have "elements_of (wires (map component_block n)) = Inr (map component_block n)"
    using assms by (intro wires_elements) (auto simp: name_block_def component_block_def)
  then show ?thesis by (simp add: name_wireDecode_def name_block_def component_block_def map_idI)
qed

lemma nni_decode: "readNonNegativeIntegerBlock (nni_block t n) = Inr n"
  unfolding nni_block_def by (simp add: tlv_simps)

lemma delegation_decode_block:
  assumes "length (blk_value (delegation_block d)) < 2 ^ 64"
  shows "delegation_decode (delegation_block d) = Inr d"
proof -
  let ?es = "[nni_block tlv_LinkPreference (fst d), name_block (snd d)]"
  have fits: "length (wires ?es) < 2 ^ 64" using assms by (simp only: delegation_block_def mkBlock_sel)
  then have "elements_of (wires ?es) = Inr ?es" by (rule wires_elements) (auto simp: nni_block_def name_block_def)
  moreover have "name_wireDecode (name_block (snd d)) = Inr (snd d)"
    using fits_inner [OF fits, of tlv_Name "blk_value (name_block (snd d))"]
    by (intro name_decode_block) (simp add: name_block_def)
  ultimately show ?thesis
    by (simp add: delegation_decode_def delegation_block_def next_is_def nni_decode name_block_def)
qed

lemma delegations_loop_blocks:
  "(\<And>d. d \<in> set ds \<Longrightarrow> delegation_decode (delegation_block d) = Inr d) \<Longrightarrow>
   delegations_loop False (map delegation_block ds) acc = Inr (acc @ ds)"
  by (induction ds arbitrary: acc) (simp_all add: delegation_insert_def)

lemma delegations_decode_block:
  assumes "length (blk_value (delegations_block tlv_ForwardingHint ds)) < 2 ^ 64" and "ds \<noteq> []"
  shows "delegations_wireDecode False (delegations_block tlv_ForwardingHint ds) = Inr ds"
proof -
  have fits: "length (wires (map delegation_block ds)) < 2 ^ 64"
    using assms(1) by (simp only: delegations_block_def mkBlock_sel)
  then have "elements_of (wires (map delegation_block ds)) = Inr (map delegation_block ds)"
    by (rule wires_elements) (auto simp: delegation_block_def)
  moreover have "delegation_decode (delegation_block d) = Inr d" if "d \<in> set ds" for d
    using fits_inner [OF fits, of tlv_LinkDelegation "blk_value (delegation_block d)"] that
    by (intro delegation_decode_block) (auto simp: delegation_block_def)
  ultimately show ?thesis
    using delegations_loop_blocks [of ds "[]"] assms(2) by (simp add: delegations_wireDecode_def delegations_block_def)
qed

lemma next_is_simps [simp]:
  "next_is t [] = False" "next_is t (b # bs) = (blk_type b = t)"
  "next_is t (opt_block c b @ bs) = (if c then blk_type b = t else next_is t bs)"
  "next_is t (opt_block c b) = (c \<and> blk_type b = t)"
  by (simp_all add: next_is_def opt_block_def)

lemma optional_elem_opt:
  assumes "blk_type b = t" and "c \<Longrightarrow> dec b = Inr x" and "\<not> next_is t es"
  shows "optional_elem t dec dflt (opt_block c b @ es) = Inr (if c then x else dflt, es)"
  using assms by (auto simp: optional_elem_def opt_block_def split: list.splits)

lemma find_opt:
  "blk_find t (opt_block c b @ es) = (if c \<and> blk_type b = t then Some b else blk_find t es)"
  "blk_find t (opt_block c b) = (if c \<and> blk_type b = t then Some b else None)"
  by (simp_all add: blk_find_def opt_block_def)

definition selectors_ok :: "selectors \<Rightarrow> bool" where
  "selectors_ok s \<longleftrightarrow> sel_wire s = None \<and> sel_exclude s = [] \<and>
     sel_publisherPublicKeyLocator s = \<lparr> kl_type = KeyLocator_None, kl_wire = None \<rparr> \<and>
     - 1 \<le> sel_minSuffixComponents s \<and> sel_minSuffixComponents s < 2 ^ 31 \<and>
     - 1 \<le> sel_maxSuffixComponents s \<and> sel_maxSuffixComponents s < 2 ^ 31 \<and>
     (sel_childSelector s = 0 \<or> sel_childSelector s = 1)"

lemma uint_of_small: "0 \<le> m \<Longrightarrow> m < 2 ^ 63 \<Longrightarrow> uint (word_of_int m :: u64) = m"
  by (simp add: uint_word_of_int)

lemma readNonNegativeIntegerAs_nni:
  assumes "0 \<le> m" and "m \<le> int limit" and "limit < 2 ^ 63"
  shows "bindR (readNonNegativeIntegerAs limit (nni_block t (word_of_int m))) (\<lambda>n. Inr (uint n)) = Inr m"
proof -
  have "uint (word_of_int m :: u64) = m" using assms by (intro uint_of_small) simp_all
  moreover from this have "unat (word_of_int m :: u64) \<le> limit" using assms by (simp add: unat_eq_nat_uint)
  ultimately show ?thesis by (simp add: readNonNegativeIntegerAs_def nni_decode)
qed

lemma selectors_decode_block:
  assumes "selectors_ok s" and "length (blk_value (selectors_block s)) < 2 ^ 64"
  shows "selectors_wireDecode (selectors_block s) = Inr (s\<lparr> sel_wire := Some (selectors_block s) \<rparr>)"
proof -
  have "elements_of (wires (selectors_elements s)) = Inr (selectors_elements s)"
    using assms(2) by (intro wires_elements) (auto simp: selectors_block_def selectors_elements_def opt_block_def nni_block_def split: if_splits)
  then have es: "elements_of (blk_value (selectors_block s)) = Inr (selectors_elements s)" by (simp add: selectors_block_def)
  have [simp]: "blk_type (selectors_block s) = tlv_Selectors" by (simp add: selectors_block_def)
  have "find_elem tlv_MinSuffixComponents (\<lambda>e. bindR (readNonNegativeIntegerAs 2147483647 e) (\<lambda>n. Inr (uint n))) (- 1) (selectors_elements s) = Inr (sel_minSuffixComponents s)"
    "find_elem tlv_MaxSuffixComponents (\<lambda>e. bindR (readNonNegativeIntegerAs 2147483647 e) (\<lambda>n. Inr (uint n))) (- 1) (selectors_elements s) = Inr (sel_maxSuffixComponents s)"
    "find_elem tlv_ChildSelector (\<lambda>e. bindR (readNonNegativeIntegerAs 1 e) (\<lambda>n. Inr (uint n))) 0 (selectors_elements s) = Inr (sel_childSelector s)"
    "find_elem tlv_KeyLocator keyLocator_wireDecode \<lparr> kl_type = KeyLocator_None, kl_wire = None \<rparr> (selectors_elements s) = Inr (sel_publisherPublicKeyLocator s)"
    "find_elem tlv_Exclude exclude_wireDecode [] (selectors_elements s) = Inr (sel_exclude s)"
    "(blk_find tlv_MustBeFresh (selectors_elements s) \<noteq> None) = sel_mustBeFresh s"
    using assms(1) by (auto simp: selectors_ok_def selectors_elements_def find_elem_def find_opt readNonNegativeIntegerAs_nni
        readNonNegativeIntegerAs_nni [of 1, simplified])
  then show ?thesis using assms(1) es by (simp add: selectors_wireDecode_def selectors_ok_def)
qed

section \<open>Round trip of Interests\<close>

definition interest_ok :: "interest \<Rightarrow> bool" where
  "interest_ok i \<longleftrightarrow> in_wire i = None \<and> in_parameters i = None \<and> selectors_ok (in_selectors i) \<and>
     0 \<le> in_lifetime i \<and> in_lifetime i < 2 ^ 63 \<and> length (wires (interest_elements i)) < 2 ^ 64"

definition interest_block :: "interest \<Rightarrow> block" where
  "interest_block i = mkBlock tlv_Interest (wires (interest_elements i))"

definition received_selectors :: "selectors \<Rightarrow> selectors" where
  "received_selectors s = (if selectors_empty s then s else s\<lparr> sel_wire := Some (selectors_block s) \<rparr>)"

definition received_interest :: "interest \<Rightarrow> interest" where
  "received_interest i = (interest_of (in_name i) (received_selectors (in_selectors i)) (in_nonce i) (in_lifetime i)
     (in_forwardingHint i) None)\<lparr> in_wire := Some (interest_block i) \<rparr>"

lemma nonce_decode_bytes: "nonce_decode (mkBlock t (nonce_bytes n)) = Inr n"
  using unat_u32_bound [of n] by (simp add: nonce_decode_def nonce_bytes_def)

lemma milliseconds_decode_nni:
  assumes "0 \<le> m" and "m < 2 ^ 63"
  shows "milliseconds_decode (nni_block t (word_of_int m)) = Inr m"
proof -
  have "signed_take_bit 63 m = m" using assms by (simp add: signed_take_bit_int_eq_self)
  then have "sint (word_of_int m :: u64) = m" using uint_of_small [OF assms] by (simp add: sint_uint)
  then show ?thesis by (simp add: milliseconds_decode_def nni_decode)
qed

lemma selectors_empty_ok: "selectors_ok s \<Longrightarrow> selectors_empty s \<Longrightarrow> s = mkSelectors"
  by (cases s) (auto simp: selectors_ok_def selectors_empty_def mkSelectors_def)

lemma selectors_optional:
  assumes "selectors_ok s" and "\<not> selectors_empty s \<Longrightarrow> length (blk_value (selectors_block s)) < 2 ^ 64"
    and "\<not> next_is tlv_Selectors es"
  shows "optional_elem tlv_Selectors selectors_wireDecode mkSelectors (opt_block (\<not> selectors_empty s) (selectors_block s) @ es)
    = Inr (received_selectors s, es)"
  using optional_elem_opt [of "selectors_block s" tlv_Selectors "\<not> selectors_empty s" selectors_wireDecode
      "s\<lparr> sel_wire := Some (selectors_block s) \<rparr>" es mkSelectors]
    assms selectors_decode_block [OF assms(1)] selectors_empty_ok [OF assms(1)]
  by (auto simp: received_selectors_def selectors_block_def)

lemma interest_elements_mkBlock: "b \<in> set (interest_elements i) \<Longrightarrow> \<exists>t xs. b = mkBlock t xs"
  by (auto simp: interest_elements_def opt_block_def name_block_def selectors_block_def nni_block_def delegations_block_def split: if_splits)

lemma interest_elements_fit:
  assumes "length (wires (interest_elements i)) < 2 ^ 64"
  shows "length (blk_value (name_block (in_name i))) < 2 ^ 64"
    and "\<not> selectors_empty (in_selectors i) \<Longrightarrow> length (blk_value (selectors_block (in_selectors i))) < 2 ^ 64"
    and "in_forwardingHint i \<noteq> [] \<Longrightarrow> length (blk_value (delegations_block tlv_ForwardingHint (in_forwardingHint i))) < 2 ^ 64"
  using fits_inner [OF assms, of tlv_Name "wires (map component_block (in_name i))"]
    fits_inner [OF assms, of tlv_Selectors "wires (selectors_elements (in_selectors i))"]
    fits_inner [OF assms, of tlv_ForwardingHint "wires (map delegation_block (in_forwardingHint i))"]
  by (simp_all add: interest_elements_def opt_block_def name_block_def selectors_block_def delegations_block_def)

lemma interest_decode_block:
  assumes "interest_ok i"
  shows "interest_wireDecode rnd (interest_block i) = Inr (received_interest i)"
proof -
  have fits: "length (wires (interest_elements i)) < 2 ^ 64" and sel: "selectors_ok (in_selectors i)"
    and lifetime: "0 \<le> in_lifetime i" "in_lifetime i < 2 ^ 63" using assms by (simp_all add: interest_ok_def)
  note fit = interest_elements_fit [OF fits]
  let ?nonce = "mkBlock tlv_Nonce (nonce_bytes (in_nonce i))"
  let ?life = "opt_block (in_lifetime i \<noteq> DEFAULT_INTEREST_LIFETIME) (nni_block tlv_InterestLifetime (of_int (in_lifetime i)))"
  let ?hint = "opt_block (in_forwardingHint i \<noteq> []) (delegations_block tlv_ForwardingHint (in_forwardingHint i))"
  have s: "optional_elem tlv_Selectors selectors_wireDecode mkSelectors (tl (interest_elements i))
      = Inr (received_selectors (in_selectors i), ?nonce # ?life @ ?hint)"
    using selectors_optional [OF sel fit(2), of "?nonce # ?life @ ?hint"] by (simp add: interest_elements_def)
  have l: "optional_elem tlv_InterestLifetime milliseconds_decode DEFAULT_INTEREST_LIFETIME (?life @ ?hint) = Inr (in_lifetime i, ?hint)"
    by (subst optional_elem_opt [where x = "in_lifetime i"])
       (use milliseconds_decode_nni [OF lifetime] in \<open>auto simp: delegations_block_def\<close>)
  have h: "optional_elem tlv_ForwardingHint (delegations_wireDecode False) [] ?hint = Inr (in_forwardingHint i, [])"
    using optional_elem_opt [of "delegations_block tlv_ForwardingHint (in_forwardingHint i)" tlv_ForwardingHint
        "in_forwardingHint i \<noteq> []" "delegations_wireDecode False" "in_forwardingHint i" "[]" "[]"]
      delegations_decode_block [OF fit(3)] by (auto simp: delegations_block_def)
  have "interest_decode02 (interest_elements i) = Inr (Some (interest_of (in_name i) (received_selectors (in_selectors i))
      (in_nonce i) (in_lifetime i) (in_forwardingHint i) None))"
    using name_decode_block [OF fit(1)] s l h
    by (simp add: interest_decode02_def nonce_decode_bytes) (simp add: interest_elements_def name_block_def)
  moreover have "elements_of (blk_value (interest_block i)) = Inr (interest_elements i)"
    using wires_elements [OF fits interest_elements_mkBlock] by (simp add: interest_block_def)
  ultimately show ?thesis by (simp add: interest_wireDecode_def received_interest_def interest_block_def)
qed

lemma interest_encode_block:
  assumes "interest_ok i"
  shows "interest_wireEncode i = Inr (interest_block i)"
proof -
  have "encode_block (interest_encode02 i) = Inr (interest_block i)"
    unfolding interest_block_def using assms
    by (intro encode_block_eq prepends_interest02) (auto simp: interest_ok_def selectors_ok_def)
  with interest_decode_block [OF assms] assms show ?thesis
    by (simp add: interest_wireEncode_def interest_ok_def selectors_ok_def)
qed

section \<open>Round trip of Data\<close>

definition metaInfo_elements :: "data \<Rightarrow> block list" where
  "metaInfo_elements d =
     opt_block (d_contentType d \<noteq> 0) (nni_block tlv_ContentType (ucast (d_contentType d))) @
     opt_block (d_freshness d \<noteq> 0) (nni_block tlv_FreshnessPeriod (of_int (d_freshness d))) @
     opt_block (d_finalBlockId d \<noteq> None) (mkBlock tlv_FinalBlockId (blk_wire (component_block (the (d_finalBlockId d))))) @
     d_appMetaInfo d"

definition metaInfo_block :: "data \<Rightarrow> block" where
  "metaInfo_block d = mkBlock tlv_MetaInfo (wires (metaInfo_elements d))"

definition data_elements :: "data \<Rightarrow> block list" where
  "data_elements d =
     [name_block (d_name d), metaInfo_block d, mkBlock tlv_Content (d_content d),
      mkBlock tlv_SignatureInfo (the (fst (d_signature d))), mkBlock tlv_SignatureValue (the (snd (d_signature d)))]"

definition data_block :: "data \<Rightarrow> block" where
  "data_block d = mkBlock tlv_Data (wires (data_elements d))"

definition data_ok :: "data \<Rightarrow> bool" where
  "data_ok d \<longleftrightarrow> d_wire d = None \<and> fst (d_signature d) \<noteq> None \<and> snd (d_signature d) \<noteq> None \<and>
     signatureInfo_wireDecode (mkBlock tlv_SignatureInfo (the (fst (d_signature d)))) = Inr () \<and>
     0 \<le> d_freshness d \<and> d_freshness d < 2 ^ 63 \<and>
     (\<forall>c. d_finalBlockId d = Some c \<longrightarrow> component_of_block (component_block c) = Inr c) \<and>
     (\<forall>b\<in>set (d_appMetaInfo d). blk_valid b \<and> 128 \<le> blk_type b \<and> blk_type b \<le> 252) \<and>
     length (wires (data_elements d)) < 2 ^ 64"

definition received_data :: "data \<Rightarrow> data" where
  "received_data d = d\<lparr> d_wire := Some (data_block d), d_hopCount := None, d_incomingFaceId := None,
     d_congestionMark := None, d_cachePolicy := None, d_prefixAnnouncement := None \<rparr>"

lemma blk_type_blocks [simp]:
  "blk_type (metaInfo_block d) = tlv_MetaInfo" "blk_type (name_block n) = tlv_Name" "blk_type (interest_block i) = tlv_Interest"
  "blk_type (data_block d) = tlv_Data"
  by (simp_all add: metaInfo_block_def name_block_def interest_block_def data_block_def)

lemma prepends_metaInfo: "prepends (metaInfo_encode d) (blk_wire (metaInfo_block d))"
proof -
  let ?final = "opt_block (d_finalBlockId d \<noteq> None) (mkBlock tlv_FinalBlockId (blk_wire (component_block (the (d_finalBlockId d)))))"
  have "prepends (case d_finalBlockId d of None \<Rightarrow> skip_prepend | Some c \<Rightarrow> close_element tlv_FinalBlockId (component_encode c)) (wires ?final)"
    using prepends_close [OF prepends_component] prepends_skip by (simp split: option.split)
  moreover have "prepends (prepend_all prependBlock (d_appMetaInfo d)) (wires (d_appMetaInfo d))"
    unfolding wires_def by (intro prepends_all prepends_Block)
  ultimately have "prepends (metaInfo_encode d) (tlv_bytes tlv_MetaInfo
      (wires (opt_block (d_contentType d \<noteq> 0) (nni_block tlv_ContentType (ucast (d_contentType d)))) @
       wires (opt_block (d_freshness d \<noteq> 0) (nni_block tlv_FreshnessPeriod (of_int (d_freshness d)))) @
       wires ?final @ wires (d_appMetaInfo d)))"
    unfolding metaInfo_encode_def by (intro prepends_close prepends_then prepends_opt prepends_nni)
  then show ?thesis by (simp only: metaInfo_block_def metaInfo_elements_def mkBlock_sel wires_simps)
qed

lemma prepends_data:
  assumes "d_signature d = (Some info, Some val)"
  shows "prepends (data_encode info d) (tlv_bytes tlv_Data (wires (data_elements d)))"
proof -
  have "prepends (data_encode info d) (tlv_bytes tlv_Data (blk_wire (name_block (d_name d)) @ blk_wire (metaInfo_block d) @
      blk_wire (mkBlock tlv_Content (d_content d)) @ blk_wire (mkBlock tlv_SignatureInfo info) @ blk_wire (mkBlock tlv_SignatureValue val)))"
    unfolding data_encode_def assms snd_conv option.case
    by (intro prepends_close prepends_then prepends_Block prepends_metaInfo prepends_name)
  then show ?thesis by (simp add: data_elements_def assms)
qed

lemma data_elements_fit:
  assumes "length (wires (data_elements d)) < 2 ^ 64"
  shows "length (blk_value (name_block (d_name d))) < 2 ^ 64" and "length (wires (metaInfo_elements d)) < 2 ^ 64"
    and "elements_of (wires (data_elements d)) = Inr (data_elements d)"
  using fits_inner [OF assms, of tlv_Name "wires (map component_block (d_name d))"]
    fits_inner [OF assms, of tlv_MetaInfo "wires (metaInfo_elements d)"] wires_elements [OF assms]
  by (auto simp: data_elements_def name_block_def metaInfo_block_def)

lemma final_decode:
  assumes "component_of_block (component_block c) = Inr c" and "length (snd c) < 2 ^ 64"
  shows "bindR (bindR (blockOfBuffer (blk_value (mkBlock t (blk_wire (component_block c))))) component_of_block) (\<lambda>c. Inr (Some c)) = Inr (Some c)"
  using assms blockOfBuffer_tlv_bytes [of "snd c" "fst c" "[]"] by (simp add: component_block_def)

lemma metaInfo_decode_block:
  assumes "data_ok d"
  shows "metaInfo_wireDecode (metaInfo_block d) e = Inr (e\<lparr> d_contentType := d_contentType d, d_freshness := d_freshness d,
    d_finalBlockId := d_finalBlockId d, d_appMetaInfo := d_appMetaInfo d \<rparr>)"
proof -
  have fits: "length (wires (metaInfo_elements d)) < 2 ^ 64" using assms data_elements_fit by (auto simp: data_ok_def)
  have app: "blk_valid b" "128 \<le> blk_type b" if "b \<in> set (d_appMetaInfo d)" for b using assms that by (auto simp: data_ok_def)
  have next_app: "\<not> next_is t (d_appMetaInfo d)" if "t < 128" for t
  proof (cases "d_appMetaInfo d")
    case (Cons a list)
    with app(2) [of a] that show ?thesis by auto
  qed simp
  have valid: "blk_valid b" if "b \<in> set (metaInfo_elements d)" for b
    using that app(1) fits_inner [OF fits, of tlv_FinalBlockId "blk_value b"]
    by (auto simp: metaInfo_elements_def opt_block_def split: if_splits)
  then have es: "elements_of (blk_value (metaInfo_block d)) = Inr (metaInfo_elements d)"
    by (simp add: metaInfo_block_def elements_of_wires)
  let ?type = "opt_block (d_contentType d \<noteq> 0) (nni_block tlv_ContentType (ucast (d_contentType d)))"
  let ?fresh = "opt_block (d_freshness d \<noteq> 0) (nni_block tlv_FreshnessPeriod (of_int (d_freshness d)))"
  let ?final = "opt_block (d_finalBlockId d \<noteq> None) (mkBlock tlv_FinalBlockId (blk_wire (component_block (the (d_finalBlockId d)))))"
  have small: "\<not> 4294967295 < unat (d_contentType d)" using unat_u32_bound [of "d_contentType d"] by linarith
  have t: "optional_elem tlv_ContentType (\<lambda>e. bindR (readNonNegativeIntegerAs 4294967295 e) (\<lambda>n. Inr (ucast n))) 0
      (?type @ ?fresh @ ?final @ d_appMetaInfo d) = Inr (d_contentType d, ?fresh @ ?final @ d_appMetaInfo d)"
    by (subst optional_elem_opt [where x = "d_contentType d"])
       (use next_app [of 24] small in \<open>auto simp: readNonNegativeIntegerAs_def nni_decode\<close>)
  have f: "optional_elem tlv_FreshnessPeriod milliseconds_decode 0 (?fresh @ ?final @ d_appMetaInfo d) = Inr (d_freshness d, ?final @ d_appMetaInfo d)"
    by (subst optional_elem_opt [where x = "d_freshness d"])
       (use next_app [of 25] assms milliseconds_decode_nni [of "d_freshness d"] in \<open>auto simp: data_ok_def\<close>)
  have final: "optional_elem tlv_FinalBlockId (\<lambda>e. bindR (bindR (blockOfBuffer (blk_value e)) component_of_block) (\<lambda>c. Inr (Some c))) None
      (?final @ d_appMetaInfo d) = Inr (d_finalBlockId d, d_appMetaInfo d)"
  proof (subst optional_elem_opt [where x = "d_finalBlockId d"])
    assume "d_finalBlockId d \<noteq> None"
    then obtain c where c: "d_finalBlockId d = Some c" by blast
    have "length (blk_wire (component_block c)) < 2 ^ 64"
      using fits_inner [OF fits, of tlv_FinalBlockId "blk_wire (component_block c)"] c by (simp add: metaInfo_elements_def opt_block_def)
    then have "length (snd c) < 2 ^ 64" using length_tlv_bytes_ge [of "snd c" "fst c"] by (simp add: component_block_def)
    with assms c final_decode [of c tlv_FinalBlockId]
    show "bindR (bindR (blockOfBuffer (blk_value (mkBlock tlv_FinalBlockId (blk_wire (component_block (the (d_finalBlockId d))))))) component_of_block)
        (\<lambda>c. Inr (Some c)) = Inr (d_finalBlockId d)" by (simp add: data_ok_def)
  qed (use next_app [of 26] in \<open>simp_all del: not_None_eq\<close>)
  show ?thesis unfolding metaInfo_wireDecode_def es bindR_Inr unfolding metaInfo_elements_def
    by (simp only: t f final bindR_Inr case_prod_conv)
qed

lemma data_decode_block:
  assumes "data_ok d"
  shows "data_wireDecode (data_block d) = Inr (received_data d)"
proof -
  obtain info val where sig: "d_signature d = (Some info, Some val)"
    using assms by (cases "d_signature d") (auto simp: data_ok_def)
  have fits: "length (wires (data_elements d)) < 2 ^ 64" using assms by (simp add: data_ok_def)
  note fit = data_elements_fit [OF fits]
  have meta: "metaInfo_wireDecode (metaInfo_block d) e = Inr (e\<lparr> d_contentType := d_contentType d, d_freshness := d_freshness d,
    d_finalBlockId := d_finalBlockId d, d_appMetaInfo := d_appMetaInfo d \<rparr>)" for e by (rule metaInfo_decode_block [OF assms])
  have info: "signatureInfo_wireDecode (mkBlock tlv_SignatureInfo info) = Inr ()" using assms sig by (simp add: data_ok_def)
  have "data_loop (tl (data_elements d)) (1, data_of (d_name d)) = Inr (5, d\<lparr> d_wire := None, d_hopCount := None,
      d_incomingFaceId := None, d_congestionMark := None, d_cachePolicy := None, d_prefixAnnouncement := None \<rparr>)"
    using meta info sig by (cases d) (simp add: data_elements_def data_element_def data_of_def)
  with fit name_decode_block [OF fit(1)] sig show ?thesis
    by (simp add: data_wireDecode_def data_block_def received_data_def)
       (simp add: data_elements_def name_block_def)
qed

lemma data_encode_block:
  assumes "data_ok d"
  shows "data_wireEncode d = Inr (data_block d)"
proof -
  obtain info val where sig: "d_signature d = (Some info, Some val)"
    using assms by (cases "d_signature d") (auto simp: data_ok_def)
  have "encode_block (data_encode info d) = Inr (data_block d)"
    unfolding data_block_def using assms by (intro encode_block_eq prepends_data [OF sig]) (simp add: data_ok_def)
  with data_decode_block [OF assms] assms sig show ?thesis by (simp add: data_wireEncode_def data_ok_def)
qed

section \<open>Order of name components\<close>

lemma memcmp_take: "memcmp (take (min (length xs) (length ys)) xs) (take (min (length xs) (length ys)) ys) = memcmp xs ys"
  by (induction xs ys rule: memcmp.induct) auto

lemma memcmp_append:
  "length xs = length ys \<Longrightarrow> memcmp (xs @ us) (ys @ vs) = (if xs = ys then memcmp us vs else memcmp xs ys)"
  by (induction xs ys rule: list_induct2) auto

lemma memcmp_same [simp]: "memcmp xs xs = 0"
  by (induction xs) auto

lemma sgn_memcmp: "sgn (memcmp xs ys) = memcmp xs ys"
  by (induction xs ys rule: memcmp.induct) auto

lemma memcmp_be_bytes:
  assumes "m < 256 ^ k" and "n < 256 ^ k"
  shows "memcmp (be_bytes k m) (be_bytes k n) = sgn (int m - int n)"
  using assms
proof (induction k arbitrary: m n)
  case 0
  then show ?case by simp
next
  case (Suc k)
  have byte: "x div 256 ^ k < 256" if "x < 256 ^ Suc k" for x :: nat
    using that by (simp add: div_less_iff_less_mult mult.commute)
  have u: "unat (of_nat (m div 256 ^ k) :: byte) = m div 256 ^ k" "unat (of_nat (n div 256 ^ k) :: byte) = n div 256 ^ k"
    using byte [OF Suc.prems(1)] byte [OF Suc.prems(2)] by (simp_all add: unat_of_nat)
  have mods: "be_bytes k x = be_bytes k (x mod 256 ^ k)" for x
    using be_bytes_shift [of k "x div 256 ^ k" "x mod 256 ^ k"] by (simp only: div_mult_mod_eq)
  have rec: "memcmp (be_bytes k m) (be_bytes k n) = sgn (int (m mod 256 ^ k) - int (n mod 256 ^ k))"
    unfolding mods [of m] mods [of n] by (intro Suc.IH) simp_all
  show ?case
  proof (cases "m div 256 ^ k" "n div 256 ^ k" rule: linorder_cases)
    case less
    then have "m < n" using div_le_mono [of n m "256 ^ k"] by linarith
    with less u show ?thesis by (auto simp: word_less_nat_alt dest: arg_cong [of _ _ unat])
  next
    case equal
    have "m = n div 256 ^ k * 256 ^ k + m mod 256 ^ k"
      using div_mult_mod_eq [of m "256 ^ k"] unfolding equal by (rule sym)
    moreover have "n = n div 256 ^ k * 256 ^ k + n mod 256 ^ k" by (rule div_mult_mod_eq [symmetric])
    ultimately have "int m - int n = int (m mod 256 ^ k) - int (n mod 256 ^ k)" by linarith
    with equal rec show ?thesis by simp
  next
    case greater
    then have "n < m" using div_le_mono [of m n "256 ^ k"] by linarith
    with greater u show ?thesis by (auto simp: word_less_nat_alt dest: arg_cong [of _ _ unat])
  qed
qed

lemma be_bytes_inj:
  assumes "be_bytes k m = be_bytes k n" and "m < 256 ^ k" and "n < 256 ^ k"
  shows "m = n"
  using arg_cong [OF assms(1), of be_nat] assms(2,3) by simp

text \<open>The encodings of TLV numbers are ordered as the numbers are.\<close>

lemma memcmp_be_append:
  assumes "m < 256 ^ k" and "n < 256 ^ k"
  shows "memcmp (be_bytes k m @ us) (be_bytes k n @ vs) = (if m = n then memcmp us vs else sgn (int m - int n))"
  using memcmp_append [of "be_bytes k m" "be_bytes k n" us vs] memcmp_be_bytes [OF assms] be_bytes_inj [OF _ assms] by auto

definition var_bytes :: "nat \<Rightarrow> byte list" where
  "var_bytes n =
     (if n < 253 then be_bytes 1 n
      else if n \<le> 65535 then 253 # be_bytes 2 n
      else if n \<le> 4294967295 then 254 # be_bytes 4 n
      else 255 # be_bytes 8 n)"

lemma writeVarNumber_var_bytes: "writeVarNumber n = var_bytes (unat n)"
proof -
  have "(ucast n :: byte) = of_nat (unat n)" by (simp add: unsigned_ucast_eq word_unat_eq_iff unat_of_nat take_bit_eq_mod)
  then show ?thesis
    by (auto simp: writeVarNumber_def var_bytes_def word_less_nat_alt word_le_nat_alt unat_ucast_le)
qed

lemma memcmp_var_bytes:
  assumes "m < 2 ^ 64" and "n < 2 ^ 64"
  shows "memcmp (var_bytes m @ us) (var_bytes n @ vs) = (if m = n then memcmp us vs else sgn (int m - int n))"
proof -
  have small: "unat (of_nat x :: byte) = x" if "x < 253" for x using that by (simp add: unat_of_nat)
  show ?thesis
    using assms memcmp_be_append [of m 1 n us vs] memcmp_be_append [of m 2 n us vs]
      memcmp_be_append [of m 4 n us vs] memcmp_be_append [of m 8 n us vs] small [of m] small [of n]
    by (auto simp: var_bytes_def word_less_nat_alt dest: arg_cong [of _ _ unat])
qed

lemma memcmp_01: "memcmp xs ys = 0 \<or> memcmp xs ys = 1 \<or> memcmp xs ys = - 1"
  by (induction xs ys rule: memcmp.induct) auto

lemma component_compare_wire_eq:
  assumes "length (snd a) < 2 ^ 64" and "length (snd b) < 2 ^ 64"
  shows "component_compare_wire a b =
    (if fst a \<noteq> fst b then sgn (uint (fst a) - uint (fst b))
     else if length (snd a) \<noteq> length (snd b) then sgn (int (length (snd a)) - int (length (snd b)))
     else memcmp (snd a) (snd b))"
proof -
  have type: "unat (ucast (t :: u32) :: u64) = unat t" for t by (rule unat_ucast_u32)
  have bound: "unat (t :: u32) < 2 ^ 64" for t by (rule less_trans [OF unat_u32_bound]) simp
  have len: "unat (of_nat (length (snd a)) :: u64) = length (snd a)" "unat (of_nat (length (snd b)) :: u64) = length (snd b)"
    using assms by (simp_all add: unat_of_nat_length)
  have "memcmp (tlv_bytes (fst a) (snd a)) (tlv_bytes (fst b) (snd b)) =
    (if unat (fst a) = unat (fst b) then
       (if length (snd a) = length (snd b) then memcmp (snd a) (snd b) else sgn (int (length (snd a)) - int (length (snd b))))
     else sgn (int (unat (fst a)) - int (unat (fst b))))"
    unfolding tlv_bytes_def writeVarNumber_var_bytes type len memcmp_var_bytes [OF bound bound] memcmp_var_bytes [OF assms] ..
  then show ?thesis unfolding component_compare_wire_def Let_def memcmp_take by (simp add: word_unat_eq_iff)
qed

section \<open>Properties\<close>

lemma example_signature: "signatureInfo_wireDecode (mkBlock 22 [27, 1, 0]) = Inr ()"
proof -
  have sig: "[27, 1, 0] = wires [nni_block tlv_SignatureType 0]"
    by (simp add: nni_block_def tlv_bytes_def writeVarNumber_def writeNonNegativeInteger_def)
  have "elements_of [27, 1, 0] = Inr [nni_block tlv_SignatureType 0]" unfolding sig by (intro elements_of_wires) simp
  then show ?thesis by (simp add: signatureInfo_wireDecode_def readNonNegativeIntegerAs_def nni_decode)
qed

text \<open>
  C18: An Interest in packet format 0.2 without Exclude and publisher key locator, encoded and decoded
  again, has the same name, selectors, nonce, lifetime and forwarding hint, no tags, and caches the
  block it was decoded from; encoding what was received gives the same block.
\<close>
theorem interest_wire_roundtrip:
  assumes "interest_ok i"
  shows "\<exists>w j. interest_wireEncode i = Inr w \<and> blk_type w = tlv_Interest \<and> interest_wireDecode rnd w = Inr j \<and>
    in_name j = in_name i \<and> (in_selectors j)\<lparr> sel_wire := None \<rparr> = in_selectors i \<and> in_nonce j = in_nonce i \<and>
    in_lifetime j = in_lifetime i \<and> in_forwardingHint j = in_forwardingHint i \<and> in_parameters j = None \<and>
    in_hopCount j = None \<and> in_nextHopFaceId j = None \<and> in_incomingFaceId j = None \<and> in_congestionMark j = None \<and>
    \<not> in_nonDiscovery j \<and> interest_wireEncode j = Inr w"
proof -
  have "(received_selectors (in_selectors i))\<lparr> sel_wire := None \<rparr> = in_selectors i"
    using assms by (auto simp: received_selectors_def interest_ok_def selectors_ok_def)
  then show ?thesis
    using interest_encode_block [OF assms] interest_decode_block [OF assms, of rnd]
    by (intro exI [of _ "interest_block i"] exI [of _ "received_interest i"])
       (simp add: received_interest_def interest_of_def interest_wireEncode_def)
qed

theorem interest_wire_roundtrip_witness:
  "\<exists>w j. interest_wireEncode ((example_interest 77)\<lparr> in_forwardingHint := [(5, [(8, [9])])], in_lifetime := 1000 \<rparr>) = Inr w \<and>
    interest_wireDecode 3 w = Inr j \<and> in_nonce j = 77 \<and> in_lifetime j = 1000 \<and> in_forwardingHint j = [(5, [(8, [9])])]"
proof -
  have "length (wires (interest_elements ((example_interest 77)\<lparr> in_forwardingHint := [(5, [(8, [9])])], in_lifetime := 1000 \<rparr>))) < 100"
    by (simp add: interest_elements_def example_interest_def mkSelectors_def selectors_empty_def opt_block_def name_block_def
        component_block_def selectors_block_def selectors_elements_def nni_block_def delegations_block_def delegation_block_def
        nonce_bytes_def DEFAULT_INTEREST_LIFETIME_def length_tlv_bytes sizeOfVarNumber_def sizeOfNonNegativeInteger_def)
  then have "interest_ok ((example_interest 77)\<lparr> in_forwardingHint := [(5, [(8, [9])])], in_lifetime := 1000 \<rparr>)"
    by (simp add: interest_ok_def selectors_ok_def example_interest_def mkSelectors_def)
  moreover have "in_nonce (example_interest 77) = 77" by (simp add: example_interest_def)
  ultimately show ?thesis using interest_wire_roundtrip [of _ 3] by fastforce
qed





end
