(* ===== verification/Val_Link_Service.thy ===== *)
theory Val_Link_Service
  imports Val_Packet Lp_Fragmentation Ndn_Wire Doubles
begin

text \<open>
  The link service of a network face (\<open>src/model/val/face/val-link-service.hpp\<close>, \<open>.cpp\<close>): a ValPacket
  becomes an NDNLPv2 packet that carries the ValHeader as a header field and the NDN packet as its
  fragment, and back. The transport is represented by what the service asks it: the MTU, the length
  of the send queue before each packet and its capacity, and the clock. What the service hands to the
  transport, and to the forwarder, is returned.
\<close>

section \<open>State\<close>

record ls_options =
  o_allowLocalFields :: bool
  o_allowFragmentation :: bool
  o_fragmenter_nMaxFragments :: nat
  o_allowReassembly :: bool
  o_reassembler_nMaxFragments :: nat
  o_reassemblyTimeout :: int
  o_allowCongestionMarking :: bool
  o_baseCongestionMarkingInterval :: int
  o_defaultCongestionThreshold :: nat
  o_allowSelfLearning :: bool

definition default_options :: ls_options where
  "default_options = \<lparr> o_allowLocalFields = False, o_allowFragmentation = False, o_fragmenter_nMaxFragments = 400,
     o_allowReassembly = False, o_reassembler_nMaxFragments = 400, o_reassemblyTimeout = 500000000,
     o_allowCongestionMarking = False, o_baseCongestionMarkingInterval = 100000000,
     o_defaultCongestionThreshold = 65536, o_allowSelfLearning = True \<rparr>"

text \<open>The counters that the service changes; the counter of outgoing ValPackets is never changed.\<close>

record ls_counters =
  n_FragmentationErrors :: u64
  n_OutOverMtu :: u64
  n_InLpInvalid :: u64
  n_ReassemblyTimeouts :: u64
  n_InNetInvalid :: u64
  n_CongestionMarked :: u64
  n_InValPkt :: u64
  n_OutValPkt :: u64

definition TimePoint_max :: int where "TimePoint_max = 2 ^ 63 - 1"
definition TimePoint_min :: int where "TimePoint_min = - (2 ^ 63)"

record link_service =
  ls_options :: ls_options
  ls_counters :: ls_counters
  ls_reassembler :: reassembler
  ls_lastSeqNo :: u64
  ls_nextMarkTime :: int
  ls_lastMarkTime :: int
  ls_nMarked :: nat

definition mkValLinkService :: "ls_options \<Rightarrow> link_service" where
  "mkValLinkService options = \<lparr> ls_options = options,
     ls_counters = \<lparr> n_FragmentationErrors = 0, n_OutOverMtu = 0, n_InLpInvalid = 0, n_ReassemblyTimeouts = 0,
       n_InNetInvalid = 0, n_CongestionMarked = 0, n_InValPkt = 0, n_OutValPkt = 0 \<rparr>,
     ls_reassembler = mkReassembler, ls_lastSeqNo = - 2, ls_nextMarkTime = TimePoint_max,
     ls_lastMarkTime = TimePoint_min, ls_nMarked = 0 \<rparr>"

definition setOptions :: "ls_options \<Rightarrow> link_service \<Rightarrow> link_service" where
  "setOptions options s = s\<lparr> ls_options := options \<rparr>"

definition count :: "(ls_counters \<Rightarrow> ls_counters) \<Rightarrow> link_service \<Rightarrow> link_service" where
  "count f s = s\<lparr> ls_counters := f (ls_counters s) \<rparr>"

definition MTU_UNLIMITED :: int where "MTU_UNLIMITED = - 1"
definition CONGESTION_MARK_SIZE :: int where "CONGESTION_MARK_SIZE = 3 + 1 + 8"

record transport =
  t_mtu :: int
  t_sendQueueLength :: "nat \<Rightarrow> int"
  t_sendQueueCapacity :: int
  t_now :: int

section \<open>Congestion marking\<close>

text \<open>
  \<open>std::sqrt\<close>: with the integer part of \<open>sqrt(n) * 2 ^ 60\<close> and one bit for the rest, rounding gives the
  double next to the root.
\<close>

fun isqrt :: "nat \<Rightarrow> nat" where
  "isqrt n = (if n < 2 then n else let r = 2 * isqrt (n div 4) in if (r + 1) * (r + 1) \<le> n then r + 1 else r)"

declare isqrt.simps [simp del]

definition sqrt_double :: "nat \<Rightarrow> double" where
  "sqrt_double n =
     (let m = n * 4 ^ 60; r = isqrt m in fl (of_nat (2 * r + (if r * r = m then 0 else 1)) / 2 ^ 61))"

definition mark_step :: "int \<Rightarrow> nat \<Rightarrow> int" where
  "mark_step interval n = d_trunc (d_div (fl (of_int interval)) (sqrt_double n))"

definition checkCongestionLevel :: "transport \<Rightarrow> nat \<Rightarrow> lp_packet \<Rightarrow> link_service \<Rightarrow> tlv_error + (lp_packet \<times> link_service)" where
  "checkCongestionLevel t k pkt s =
     (let sendQueueLength = t_sendQueueLength t k in
      if sendQueueLength < 0 then Inr (pkt, s)
      else
        let opts = ls_options s;
            congestionThreshold =
              (if t_sendQueueCapacity t \<ge> 0
               then min (o_defaultCongestionThreshold opts) (nat (t_sendQueueCapacity t) div 2)
               else o_defaultCongestionThreshold opts)
        in
        if nat sendQueueLength > congestionThreshold then
          let now = t_now t in
          if now \<ge> ls_nextMarkTime s \<or> now \<ge> ls_lastMarkTime s + o_baseCongestionMarkingInterval opts then
            bindR (bindR (field_nni tlv_CongestionMark 1) (\<lambda>b. lp_set b pkt)) (\<lambda>pkt'.
              let nextMarkTime = (if ls_nMarked s = 0 then now else ls_nextMarkTime s);
                  nMarked = ls_nMarked s + 1
              in Inr (pkt', (count (\<lambda>c. c\<lparr> n_CongestionMarked := n_CongestionMarked c + 1 \<rparr>) s)
                   \<lparr> ls_nMarked := nMarked,
                     ls_nextMarkTime := nextMarkTime + mark_step (o_baseCongestionMarkingInterval opts) nMarked,
                     ls_lastMarkTime := now \<rparr>))
          else Inr (pkt, s)
        else if ls_nextMarkTime s \<noteq> TimePoint_max then
          Inr (pkt, s\<lparr> ls_nextMarkTime := TimePoint_max, ls_nMarked := 0 \<rparr>)
        else Inr (pkt, s))"

section \<open>Send path\<close>

text \<open>\<open>sendLpPacket\<close> for the packet number \<open>k\<close> of a call; the block that goes to the transport, if any.\<close>

definition sendLpPacket :: "transport \<Rightarrow> nat \<Rightarrow> lp_packet \<Rightarrow> link_service \<Rightarrow> tlv_error + (block option \<times> link_service)" where
  "sendLpPacket t k pkt s =
     bindR (if o_allowCongestionMarking (ls_options s) then checkCongestionLevel t k pkt s else Inr (pkt, s)) (\<lambda>(pkt1, s1).
     bindR (lp_wireEncode pkt1) (\<lambda>w.
       if t_mtu t \<noteq> MTU_UNLIMITED \<and> length (blk_wire w) > nat (t_mtu t)
       then Inr (None, count (\<lambda>c. c\<lparr> n_OutOverMtu := n_OutOverMtu c + 1 \<rparr>) s1)
       else Inr (Some w, s1)))"

primrec sendLpPackets :: "transport \<Rightarrow> nat \<Rightarrow> lp_packet list \<Rightarrow> link_service \<Rightarrow> tlv_error + (block list \<times> link_service)" where
  "sendLpPackets t k [] s = Inr ([], s)"
| "sendLpPackets t k (f # fs) s =
     bindR (sendLpPacket t k f s) (\<lambda>(w, s1).
     bindR (sendLpPackets t (Suc k) fs s1) (\<lambda>(ws, s2). Inr (case w of None \<Rightarrow> ws | Some b \<Rightarrow> b # ws, s2)))"

text \<open>The tags of a packet that \<open>encodeLpFields\<close> looks at.\<close>

record lp_tags =
  tag_incomingFaceId :: "u64 option"
  tag_congestionMark :: "u64 option"
  tag_nonDiscovery :: bool
  tag_prefixAnnouncement :: "block option"
  tag_hopCount :: "u64 option"

definition interest_tags :: "interest \<Rightarrow> lp_tags" where
  "interest_tags i = \<lparr> tag_incomingFaceId = in_incomingFaceId i, tag_congestionMark = in_congestionMark i,
     tag_nonDiscovery = in_nonDiscovery i, tag_prefixAnnouncement = None, tag_hopCount = in_hopCount i \<rparr>"

definition data_tags :: "data \<Rightarrow> lp_tags" where
  "data_tags d = \<lparr> tag_incomingFaceId = d_incomingFaceId d, tag_congestionMark = d_congestionMark d,
     tag_nonDiscovery = False, tag_prefixAnnouncement = d_prefixAnnouncement d, tag_hopCount = d_hopCount d \<rparr>"

definition add_opt :: "bool \<Rightarrow> (tlv_error + block) \<Rightarrow> lp_packet \<Rightarrow> tlv_error + lp_packet" where
  "add_opt c b p = (if c then bindR b (\<lambda>x. lp_add x p) else Inr p)"

definition encodeLpFields :: "ls_options \<Rightarrow> lp_tags \<Rightarrow> lp_packet \<Rightarrow> tlv_error + lp_packet" where
  "encodeLpFields opts tags p =
     bindR (add_opt (o_allowLocalFields opts \<and> tag_incomingFaceId tags \<noteq> None) (field_nni tlv_IncomingFaceId (the (tag_incomingFaceId tags))) p) (\<lambda>p1.
     bindR (add_opt (tag_congestionMark tags \<noteq> None) (field_nni tlv_CongestionMark (the (tag_congestionMark tags))) p1) (\<lambda>p2.
     bindR (add_opt (o_allowSelfLearning opts \<and> tag_nonDiscovery tags) (field_empty tlv_NonDiscovery) p2) (\<lambda>p3.
     bindR (add_opt (o_allowSelfLearning opts \<and> tag_prefixAnnouncement tags \<noteq> None) (Inr (the (tag_prefixAnnouncement tags))) p3) (\<lambda>p4.
       bindR (field_u64 tlv_HopCountTag (case tag_hopCount tags of Some h \<Rightarrow> h | None \<Rightarrow> 0)) (\<lambda>b. lp_add b p4)))))"

text \<open>The vector of fragments, or \<open>None\<close> when the fragmenter reports failure.\<close>

definition make_frags :: "ls_options \<Rightarrow> int \<Rightarrow> lp_packet \<Rightarrow> (tlv_error + lp_packet list option) outcome" where
  "make_frags opts mtu pkt =
     (if o_allowFragmentation opts \<and> mtu \<noteq> MTU_UNLIMITED then fragmentPacket (o_fragmenter_nMaxFragments opts) pkt (nat mtu)
      else Def (Inr (Some [pkt])))"

definition ls_sendValPacket :: "transport \<Rightarrow> lp_packet \<Rightarrow> link_service \<Rightarrow> (tlv_error + (block list \<times> link_service)) outcome" where
  "ls_sendValPacket t pkt s =
     (let opts = ls_options s;
          mtu = (if o_allowCongestionMarking opts \<and> t_mtu t \<noteq> MTU_UNLIMITED then t_mtu t - CONGESTION_MARK_SIZE else t_mtu t) in
      assertion (mtu = MTU_UNLIMITED \<or> mtu > 0)
        (bindU (make_frags opts mtu pkt) (\<lambda>r.
           case r of
             Inl err \<Rightarrow> Def (Inl err)
           | Inr None \<Rightarrow> Def (Inr ([], count (\<lambda>c. c\<lparr> n_FragmentationErrors := n_FragmentationErrors c + 1 \<rparr>) s))
           | Inr (Some frags) \<Rightarrow>
               assertion (length frags = 1 \<longrightarrow> \<not> lp_has tlv_FragIndex (hd frags) \<and> \<not> lp_has tlv_FragCount (hd frags))
                 (Def (bindR (if length frags > 1 then assignSequences frags (ls_lastSeqNo s) else Inr (frags, ls_lastSeqNo s))
                    (\<lambda>(frags', lastSeqNo). sendLpPackets t 0 frags' (s\<lparr> ls_lastSeqNo := lastSeqNo \<rparr>)))))))"

text \<open>The network packet, its tags and the ValHeader in one LpPacket.\<close>

definition make_lpPacket :: "ls_options \<Rightarrow> block \<Rightarrow> lp_tags \<Rightarrow> val_header \<Rightarrow> tlv_error + lp_packet" where
  "make_lpPacket opts wire tags h =
     bindR (lp_wireDecode wire) (\<lambda>p.
     bindR (encodeLpFields opts tags p) (\<lambda>p1.
     bindR (field_valHeader h) (\<lambda>b. lp_add b p1)))"

definition doSendValPacket :: "transport \<Rightarrow> val_packet \<Rightarrow> link_service \<Rightarrow> (tlv_error + (block list \<times> link_service)) outcome" where
  "doSendValPacket t vp s =
     (if vp_isSet vp = INTEREST_SET then
        bindU (getInterest vp) (\<lambda>i.
          case bindR (interest_wireEncode i) (\<lambda>w. make_lpPacket (ls_options s) w (interest_tags i) (vp_valH vp)) of
            Inl err \<Rightarrow> Def (Inl err)
          | Inr p \<Rightarrow> ls_sendValPacket t p s)
      else if vp_isSet vp = DATA_SET then
        bindU (getData vp) (\<lambda>d.
          case bindR (data_wireEncode d) (\<lambda>w. make_lpPacket (ls_options s) w (data_tags d) (vp_valH vp)) of
            Inl err \<Rightarrow> Def (Inl err)
          | Inr p \<Rightarrow> ls_sendValPacket t p s)
      else Def (Inr ([], s)))"

section \<open>Receive path\<close>

text \<open>\<open>CachePolicy::wireDecode\<close>; the only known policy is NoCache.\<close>

definition cachePolicy_decode :: "block \<Rightarrow> tlv_error + u64" where
  "cachePolicy_decode b =
     (if blk_type b \<noteq> tlv_CachePolicy then Inl (UnexpectedType (blk_type b))
      else bindR (elements_of (blk_value b)) (\<lambda>es.
        if \<not> next_is tlv_CachePolicyType es then Inl (NoSubElement tlv_CachePolicyType)
        else bindR (readNonNegativeIntegerBlock (hd es)) (\<lambda>n. if n \<noteq> 1 then Inl (UnrecognizedField tlv_CachePolicyType) else Inr n)))"

definition get_nni :: "u32 \<Rightarrow> lp_packet \<Rightarrow> tlv_error + u64" where
  "get_nni t p = bindR (lp_get t p) readNonNegativeIntegerBlock"

text \<open>A field is read only when it is there.\<close>

definition when_has :: "u32 \<Rightarrow> lp_packet \<Rightarrow> (tlv_error + 'a) \<Rightarrow> 'a \<Rightarrow> tlv_error + 'a" where
  "when_has t p r dflt = (if lp_has t p then r else Inr dflt)"

text \<open>
  \<open>decodeInterest\<close>: the Interest with its tags, or the null pointer with the flag that the counter of
  invalid network packets goes up. \<open>rnd\<close> is the nonce of an Interest that has none.
\<close>

definition decodeInterest :: "ls_options \<Rightarrow> nonce \<Rightarrow> block \<Rightarrow> lp_packet \<Rightarrow> (tlv_error + (interest option \<times> bool)) outcome" where
  "decodeInterest opts rnd netPkt firstPkt =
     assertion (blk_type netPkt = tlv_Interest) (assertion (\<not> lp_has tlv_Nack firstPkt) (Def (
       bindR (interest_wireDecode rnd netPkt) (\<lambda>i.
       bindR (when_has tlv_HopCountTag firstPkt
                (bindR (bindR (lp_get tlv_HopCountTag firstPkt) decode_u64) (\<lambda>n. Inr (i\<lparr> in_hopCount := Some (n + 1) \<rparr>))) i) (\<lambda>i1.
         if lp_has tlv_NextHopFaceId firstPkt \<and> \<not> o_allowLocalFields opts then Inr (None, False)
         else
           bindR (when_has tlv_NextHopFaceId firstPkt
                    (bindR (get_nni tlv_NextHopFaceId firstPkt) (\<lambda>n. Inr (i1\<lparr> in_nextHopFaceId := Some n \<rparr>))) i1) (\<lambda>i2.
             if lp_has tlv_CachePolicy firstPkt then Inr (None, True)
             else
               bindR (when_has tlv_CongestionMark firstPkt
                        (bindR (get_nni tlv_CongestionMark firstPkt) (\<lambda>n. Inr (i2\<lparr> in_congestionMark := Some n \<rparr>))) i2) (\<lambda>i3.
               bindR (if lp_has tlv_NonDiscovery firstPkt \<and> o_allowSelfLearning opts
                      then bindR (bindR (lp_get tlv_NonDiscovery firstPkt) decode_empty) (\<lambda>_. Inr (i3\<lparr> in_nonDiscovery := True \<rparr>))
                      else Inr i3) (\<lambda>i4.
                 if lp_has tlv_PrefixAnnouncement firstPkt then Inr (None, True)
                 else Inr (Some i4, False)))))))))"

text \<open>
  \<open>decodeData\<close>; \<open>ann\<close> stands for the decoder of the PrefixAnnouncement header, which parses the announcement
  with its validity period.
\<close>

definition decodeData :: "ls_options \<Rightarrow> (block \<Rightarrow> tlv_error + block) \<Rightarrow> block \<Rightarrow> lp_packet \<Rightarrow> (tlv_error + (data option \<times> bool)) outcome" where
  "decodeData opts ann netPkt firstPkt =
     assertion (blk_type netPkt = tlv_Data) (Def (
       bindR (data_wireDecode netPkt) (\<lambda>d.
       bindR (when_has tlv_HopCountTag firstPkt
                (bindR (bindR (lp_get tlv_HopCountTag firstPkt) decode_u64) (\<lambda>n. Inr (d\<lparr> d_hopCount := Some (n + 1) \<rparr>))) d) (\<lambda>d1.
         if lp_has tlv_Nack firstPkt then Inr (None, True)
         else if lp_has tlv_NextHopFaceId firstPkt then Inr (None, True)
         else
           bindR (when_has tlv_CachePolicy firstPkt
                    (bindR (bindR (lp_get tlv_CachePolicy firstPkt) cachePolicy_decode) (\<lambda>n. Inr (d1\<lparr> d_cachePolicy := Some n \<rparr>))) d1) (\<lambda>d2.
           bindR (when_has tlv_CongestionMark firstPkt
                    (bindR (get_nni tlv_CongestionMark firstPkt) (\<lambda>n. Inr (d2\<lparr> d_congestionMark := Some n \<rparr>))) d2) (\<lambda>d3.
             if lp_has tlv_NonDiscovery firstPkt then Inr (None, True)
             else
               bindR (if lp_has tlv_PrefixAnnouncement firstPkt \<and> o_allowSelfLearning opts
                      then bindR (bindR (lp_get tlv_PrefixAnnouncement firstPkt) ann) (\<lambda>a. Inr (d3\<lparr> d_prefixAnnouncement := Some a \<rparr>))
                      else Inr d3) (\<lambda>d4. Inr (Some d4, False))))))))"

definition count_invalid :: "bool \<Rightarrow> link_service \<Rightarrow> link_service" where
  "count_invalid c s = (if c then count (\<lambda>c. c\<lparr> n_InNetInvalid := n_InNetInvalid c + 1 \<rparr>) s else s)"

text \<open>
  The packet that goes to the forwarder, or an exception. Only the first ValHeader among the elements
  of the LpPacket is looked at; a bare network packet has no parsed elements. The header's hop counter
  is \<open>garbage\<close> before it is decoded.
\<close>

definition deliver :: "nonce \<Rightarrow> u8 \<Rightarrow> (block \<Rightarrow> tlv_error + block) \<Rightarrow> block \<Rightarrow> lp_packet \<Rightarrow> link_service \<Rightarrow>
    (tlv_error + (val_packet option \<times> link_service)) outcome" where
  "deliver rnd garbage ann netPkt firstPkt s =
     (case lp_wireEncode firstPkt of
        Inl err \<Rightarrow> Def (Inl err)
      | Inr wire \<Rightarrow>
          (case (if blk_type wire = tlv_LpPacket then blk_find tlv_ValHeader (lp_elements firstPkt) else None) of
             None \<Rightarrow> Def (Inr (None, s))
           | Some b \<Rightarrow>
               (case bindR (elements_of (blk_value b)) (\<lambda>_. mkValHeader_of_block garbage b) of
                  Inl err \<Rightarrow> Def (Inl err)
                | Inr valH \<Rightarrow>
                    bindU
                      (if blk_type netPkt = tlv_Interest then
                         bindU (decodeInterest (ls_options s) rnd netPkt firstPkt) (\<lambda>r.
                           Def (bindR r (\<lambda>(i, inv). Inr (setInterest i (mkValPacket valH), count_invalid inv s))))
                       else if blk_type netPkt = tlv_Data then
                         bindU (decodeData (ls_options s) ann netPkt firstPkt) (\<lambda>r.
                           Def (bindR r (\<lambda>(d, inv). Inr (setData d (mkValPacket valH), count_invalid inv s))))
                       else Def (Inr (mkValPacket valH, s)))
                      (\<lambda>r. Def (bindR r (\<lambda>(vp, s1).
                         Inr (Some vp, count (\<lambda>c. c\<lparr> n_InValPkt := n_InValPkt c + 1 \<rparr>) s1)))))))"

definition count_lpInvalid :: "link_service \<Rightarrow> link_service" where
  "count_lpInvalid s = count (\<lambda>c. c\<lparr> n_InLpInvalid := n_InLpInvalid c + 1 \<rparr>) s"

text \<open>\<open>doReceivePacket\<close>: every parse error is caught and counted.\<close>

definition doReceivePacket :: "nonce \<Rightarrow> u8 \<Rightarrow> (block \<Rightarrow> tlv_error + block) \<Rightarrow> u64 \<Rightarrow> block \<Rightarrow> link_service \<Rightarrow>
    (val_packet option \<times> link_service) outcome" where
  "doReceivePacket rnd garbage ann remoteEndpoint packet s =
     (case lp_wireDecode packet of
        Inl err \<Rightarrow> Def (None, count_lpInvalid s)
      | Inr pkt \<Rightarrow>
          if \<not> lp_has tlv_Fragment pkt then Def (None, s)
          else if (lp_has tlv_FragIndex pkt \<or> lp_has tlv_FragCount pkt) \<and> \<not> o_allowReassembly (ls_options s) then Def (None, s)
          else
            let (r, ra) = receiveFragment (o_reassembler_nMaxFragments (ls_options s)) (o_reassemblyTimeout (ls_options s))
                            remoteEndpoint pkt (ls_reassembler s);
                s1 = s\<lparr> ls_reassembler := ra \<rparr>
            in
            (case r of
               Inl err \<Rightarrow> Def (None, count_lpInvalid s1)
             | Inr None \<Rightarrow> Def (None, s1)
             | Inr (Some (netPkt, firstPkt)) \<Rightarrow>
                 bindU (deliver rnd garbage ann netPkt firstPkt s1) (\<lambda>res.
                   case res of
                     Inl err \<Rightarrow> Def (None, count_lpInvalid s1)
                   | Inr (vp, s2) \<Rightarrow> Def (vp, s2))))"

text \<open>The handler of the \<open>beforeTimeout\<close> signal counts the partial packet that the reassembler drops.\<close>

definition reassemblyTimeout :: "frag_key \<Rightarrow> link_service \<Rightarrow> link_service" where
  "reassemblyTimeout key s =
     (case timeoutPartialPacket key (ls_reassembler s) of
        (None, ra) \<Rightarrow> s\<lparr> ls_reassembler := ra \<rparr>
      | (Some _, ra) \<Rightarrow> (count (\<lambda>c. c\<lparr> n_ReassemblyTimeouts := n_ReassemblyTimeouts c + 1 \<rparr>) s)\<lparr> ls_reassembler := ra \<rparr>)"

section \<open>The packet that is sent\<close>

definition tag_fields :: "ls_options \<Rightarrow> lp_tags \<Rightarrow> val_header \<Rightarrow> block list" where
  "tag_fields opts tags h =
     opt_block (o_allowLocalFields opts \<and> tag_incomingFaceId tags \<noteq> None) (nni_block tlv_IncomingFaceId (the (tag_incomingFaceId tags))) @
     opt_block (tag_congestionMark tags \<noteq> None) (nni_block tlv_CongestionMark (the (tag_congestionMark tags))) @
     opt_block (o_allowSelfLearning opts \<and> tag_nonDiscovery tags) (mkBlock tlv_NonDiscovery []) @
     [mkBlock tlv_HopCountTag (be_bytes 8 (unat (case tag_hopCount tags of Some h \<Rightarrow> h | None \<Rightarrow> 0))),
      mkBlock tlv_ValHeader (header_value h)]"

lemma add_opt_ok:
  assumes "lp_wf p" and "lp_wire p = None" and "r = Inr b" and "blk_type b \<notin> blk_type ` set (lp_elements p)" and "blk_valid b"
    and "fi_isRecognized (mkFieldInfo (blk_type b))"
  obtains q where "add_opt c r p = Inr q" and "lp_wf q" and "lp_wire q = None"
    and "set (lp_elements q) = set (opt_block c b) \<union> set (lp_elements p)"
proof (cases c)
  case True
  then show thesis
    using lp_add_wf [OF assms(1,4-6)] that assms(3) by (auto simp: add_opt_def opt_block_def)
next
  case False
  then show thesis using that [of p] assms(1,2) by (simp add: add_opt_def opt_block_def)
qed

lemma lp_types_distinct:
  "distinct [tlv_Fragment, tlv_Sequence, tlv_FragIndex, tlv_FragCount, tlv_HopCountTag, tlv_Nack, tlv_NextHopFaceId, tlv_IncomingFaceId, tlv_CachePolicy, tlv_CongestionMark, tlv_NonDiscovery, tlv_PrefixAnnouncement, 850]"
  "distinct [850, tlv_PrefixAnnouncement, tlv_NonDiscovery, tlv_CongestionMark, tlv_CachePolicy, tlv_IncomingFaceId, tlv_NextHopFaceId, tlv_Nack, tlv_HopCountTag, tlv_FragCount, tlv_FragIndex, tlv_Sequence, tlv_Fragment]"
  by (simp_all add: lp_types)

lemmas lp_types_neq [simp] = lp_types_distinct [unfolded distinct.simps list.set insert_iff empty_iff de_Morgan_disj simp_thms]

lemma recognized_NonDiscovery [simp]: "fi_isRecognized (mkFieldInfo tlv_NonDiscovery)"
  by (simp add: mkFieldInfo_def FieldSet_def lp_types)

lemma recognized_ValHeader [simp]: "fi_isRecognized (mkFieldInfo 850)"
  by (simp add: mkFieldInfo_def FieldSet_def lp_types)

lemma lp_of_network:
  assumes "blk_type w = tlv_Interest \<or> blk_type w = tlv_Data" and "length (blk_wire w) < 2 ^ 64"
  obtains p where "lp_wireDecode w = Inr p" and "lp_wf p" and "lp_wire p = None"
    and "set (lp_elements p) = {mkBlock tlv_Fragment (blk_wire w)}"
proof -
  obtain p where "lp_add (mkBlock tlv_Fragment (blk_wire w)) lp_empty = Inr p" "lp_wf p" "lp_wire p = None"
    "set (lp_elements p) = {mkBlock tlv_Fragment (blk_wire w)}"
    by (rule lp_add_wf [of lp_empty "mkBlock tlv_Fragment (blk_wire w)"]) (use assms(2) in auto)
  with assms show thesis by (intro that [of p]) (auto simp: lp_wireDecode_def field_range_eq)
qed

lemma opt_block_types: "blk_type ` set (opt_block c b) = (if c then {blk_type b} else {})"
  by (simp add: opt_block_def)

lemma make_lpPacket_ok:
  assumes "blk_type w = tlv_Interest \<or> blk_type w = tlv_Data" and "length (blk_wire w) < 2 ^ 64" and "header_fits h"
    and "tag_prefixAnnouncement tags = None"
  obtains p where "make_lpPacket opts w tags h = Inr p" and "lp_wf p" and "lp_wire p = None"
    and "set (lp_elements p) = insert (mkBlock tlv_Fragment (blk_wire w)) (set (tag_fields opts tags h))"
proof -
  obtain p0 where p0: "lp_wireDecode w = Inr p0" "lp_wf p0" "lp_wire p0 = None"
    "set (lp_elements p0) = {mkBlock tlv_Fragment (blk_wire w)}" by (rule lp_of_network [OF assms(1,2)])
  obtain p1 where p1: "add_opt (o_allowLocalFields opts \<and> tag_incomingFaceId tags \<noteq> None)
      (field_nni tlv_IncomingFaceId (the (tag_incomingFaceId tags))) p0 = Inr p1" "lp_wf p1" "lp_wire p1 = None"
    "set (lp_elements p1) = set (opt_block (o_allowLocalFields opts \<and> tag_incomingFaceId tags \<noteq> None)
      (nni_block tlv_IncomingFaceId (the (tag_incomingFaceId tags)))) \<union> set (lp_elements p0)"
    by (rule add_opt_ok [OF p0(2,3) field_nni_eq [folded nni_block_def, of tlv_IncomingFaceId "the (tag_incomingFaceId tags)"]])
       (simp_all add: p0(4))
  obtain p2 where p2: "add_opt (tag_congestionMark tags \<noteq> None) (field_nni tlv_CongestionMark (the (tag_congestionMark tags))) p1 = Inr p2"
    "lp_wf p2" "lp_wire p2 = None"
    "set (lp_elements p2) = set (opt_block (tag_congestionMark tags \<noteq> None) (nni_block tlv_CongestionMark (the (tag_congestionMark tags)))) \<union> set (lp_elements p1)"
    by (rule add_opt_ok [OF p1(2,3) field_nni_eq [folded nni_block_def, of tlv_CongestionMark "the (tag_congestionMark tags)"]])
       (auto simp: p0(4) p1(4) opt_block_types image_Un split: if_splits)
  obtain p3 where p3: "add_opt (o_allowSelfLearning opts \<and> tag_nonDiscovery tags) (field_empty tlv_NonDiscovery) p2 = Inr p3"
    "lp_wf p3" "lp_wire p3 = None"
    "set (lp_elements p3) = set (opt_block (o_allowSelfLearning opts \<and> tag_nonDiscovery tags) (mkBlock tlv_NonDiscovery [])) \<union> set (lp_elements p2)"
    by (rule add_opt_ok [OF p2(2,3) field_empty_eq [of tlv_NonDiscovery]]) (auto simp: p0(4) p1(4) p2(4) opt_block_types image_Un split: if_splits)
  let ?hop = "case tag_hopCount tags of Some h \<Rightarrow> h | None \<Rightarrow> 0"
  obtain p4 where p4: "lp_add (mkBlock tlv_HopCountTag (be_bytes 8 (unat ?hop))) p3 = Inr p4" "lp_wf p4" "lp_wire p4 = None"
    "set (lp_elements p4) = insert (mkBlock tlv_HopCountTag (be_bytes 8 (unat ?hop))) (set (lp_elements p3))"
    by (rule lp_add_wf [OF p3(2), of "mkBlock tlv_HopCountTag (be_bytes 8 (unat ?hop))"])
       (auto simp: p0(4) p1(4) p2(4) p3(4) opt_block_types image_Un split: if_splits)
  obtain p5 where p5: "lp_add (mkBlock tlv_ValHeader (header_value h)) p4 = Inr p5" "lp_wf p5" "lp_wire p5 = None"
    "set (lp_elements p5) = insert (mkBlock tlv_ValHeader (header_value h)) (set (lp_elements p4))"
    by (rule lp_add_wf [OF p4(2), of "mkBlock tlv_ValHeader (header_value h)"])
       (use header_fits_elements(2) [OF assms(3)] in \<open>auto simp: p0(4) p1(4) p2(4) p3(4) p4(4) opt_block_types image_Un split: if_splits\<close>)
  have "make_lpPacket opts w tags h = Inr p5"
    using p1(1) p2(1) p3(1) p4(1) p5(1) assms(3,4)
    by (simp add: make_lpPacket_def encodeLpFields_def p0(1) field_u64_eq field_valHeader_eq add_opt_def [of False])
  with p5(2,3) show thesis by (intro that [of p5]) (auto simp: p0(4) p1(4) p2(4) p3(4) p4(4) p5(4) tag_fields_def)
qed

end
