(* ===== verification/Val_Air.thy ===== *)
theory Val_Air
  imports Val_Link_Service
begin

text \<open>
  A ValPacket from one node's link service to another's: what the sending service hands to its
  transport, frame by frame, and what a receiving service makes of the frames, in whatever order they
  arrive. The options are those of the nodes: fragmentation on the sending side, reassembly on the
  receiving side, and congestion marking on or off.
\<close>

section \<open>Frames\<close>

text \<open>A packet leaves as it is or with the congestion mark of the link.\<close>

definition marked :: "lp_packet \<Rightarrow> lp_packet \<Rightarrow> bool" where
  "marked g h \<longleftrightarrow> lp_wf h \<and> lp_wire h = None \<and>
     (set (lp_elements h) = set (lp_elements g) \<or>
      set (lp_elements h) = insert (nni_block tlv_CongestionMark 1) {b \<in> set (lp_elements g). blk_type b \<noteq> tlv_CongestionMark})"

text \<open>Sending changes the numbering and the state of the marking; it drops nothing.\<close>

definition same_path :: "link_service \<Rightarrow> link_service \<Rightarrow> bool" where
  "same_path s s' \<longleftrightarrow> ls_options s' = ls_options s \<and> ls_reassembler s' = ls_reassembler s \<and>
     n_OutOverMtu (ls_counters s') = n_OutOverMtu (ls_counters s) \<and>
     n_FragmentationErrors (ls_counters s') = n_FragmentationErrors (ls_counters s)"

lemma same_path_refl [simp]: "same_path s s" "same_path s (s\<lparr> ls_lastSeqNo := q \<rparr>)"
  by (simp_all add: same_path_def)

lemma same_path_trans: "same_path s s1 \<Longrightarrow> same_path s1 s2 \<Longrightarrow> same_path s s2"
  by (simp add: same_path_def)

lemma nni_mark_valid [simp]: "blk_valid (nni_block t n)" "blk_type (nni_block t n) = t"
  by (simp_all add: nni_block_def)

lemma checkCongestionLevel_ok:
  assumes "lp_wf g" and "lp_wire g = None"
  obtains h s' where "checkCongestionLevel t k g s = Inr (h, s')" and "marked g h" and "same_path s s'"
proof -
  have id: "marked g g" using assms by (simp add: marked_def)
  obtain h where h: "lp_set (nni_block tlv_CongestionMark 1) g = Inr h" "marked g h"
    by (rule lp_set_wf [OF assms(1), of "nni_block tlv_CongestionMark 1"]) (auto simp: marked_def)
  show thesis
  proof (rule that [OF _ _ _])
    let ?r = "checkCongestionLevel t k g s"
    have "\<exists>h s'. ?r = Inr (h, s') \<and> marked g h \<and> same_path s s'"
      using id h
      by (auto simp: checkCongestionLevel_def Let_def field_nni_eq nni_block_def [symmetric] same_path_def count_def)
    then show "?r = Inr (fst (projr ?r), snd (projr ?r))" "marked g (fst (projr ?r))" "same_path s (snd (projr ?r))" by auto
  qed
qed

lemma marked_size:
  assumes "marked g h"
  shows "fields_size (set (lp_elements h)) \<le> 12 + fields_size (set (lp_elements g))"
proof -
  let ?es = "{b \<in> set (lp_elements g). blk_type b \<noteq> tlv_CongestionMark}"
  have "length (blk_wire (nni_block tlv_CongestionMark 1)) = 5"
    by (simp add: nni_block_def length_tlv_bytes lp_types sizeOfVarNumber_def sizeOfNonNegativeInteger_def)
  then have "fields_size (insert (nni_block tlv_CongestionMark 1) ?es) \<le> 5 + fields_size ?es"
    using fields_size_insert_le [of ?es "nni_block tlv_CongestionMark 1"] by simp
  moreover have "fields_size ?es \<le> fields_size (set (lp_elements g))" by (rule fields_size_mono) auto
  ultimately show ?thesis using assms by (auto simp: marked_def)
qed

lemma marked_keeps: "lp_wf g \<Longrightarrow> marked g h \<Longrightarrow> keeps_fields g h"
  by (auto simp: marked_def keeps_fields_def)

text \<open>A packet with a Fragment and a hop count is sent as an LpPacket.\<close>

definition two_fields :: "lp_packet \<Rightarrow> bool" where
  "two_fields g \<longleftrightarrow> lp_wf g \<and> lp_wire g = None \<and> lp_has tlv_Fragment g \<and>
     (\<exists>b\<in>set (lp_elements g). blk_type b \<notin> {tlv_Fragment, tlv_CongestionMark})"

lemma two_fields_encode: "two_fields g \<Longrightarrow> lp_wireEncode g = Inr (lp_encode g)"
proof -
  assume g: "two_fields g"
  then obtain a b where "a \<in> set (lp_elements g)" "blk_type a = tlv_Fragment" "b \<in> set (lp_elements g)" "blk_type b \<noteq> tlv_Fragment"
    by (auto simp: two_fields_def lp_has_iff)
  then show ?thesis by (intro lp_wireEncode_many [of a g b]) auto
qed

lemma two_fields_marked: "two_fields g \<Longrightarrow> marked g h \<Longrightarrow> two_fields h"
  by (auto simp: two_fields_def marked_def lp_has_iff)

definition fits :: "transport \<Rightarrow> ls_options \<Rightarrow> lp_packet \<Rightarrow> bool" where
  "fits t opts g \<longleftrightarrow> t_mtu t = MTU_UNLIMITED \<or>
     10 + fields_size (set (lp_elements g)) + (if o_allowCongestionMarking opts then 12 else 0) \<le> nat (t_mtu t)"

definition within_mtu :: "transport \<Rightarrow> block \<Rightarrow> bool" where
  "within_mtu t w \<longleftrightarrow> t_mtu t = MTU_UNLIMITED \<or> length (blk_wire w) \<le> nat (t_mtu t)"

lemma sendLpPacket_ok:
  assumes "two_fields g" and "fits t (ls_options s) g"
  obtains h s' where "sendLpPacket t k g s = Inr (Some (lp_encode h), s')" and "marked g h" and "two_fields h"
    and "same_path s s'" and "within_mtu t (lp_encode h)"
proof -
  have g: "lp_wf g" "lp_wire g = None" using assms(1) by (simp_all add: two_fields_def)
  obtain h s' where h: "(if o_allowCongestionMarking (ls_options s) then checkCongestionLevel t k g s else Inr (g, s)) = Inr (h, s')"
    "marked g h" "same_path s s'" "\<not> o_allowCongestionMarking (ls_options s) \<Longrightarrow> h = g"
  proof (cases "o_allowCongestionMarking (ls_options s)")
    case True
    obtain h s' where "checkCongestionLevel t k g s = Inr (h, s')" "marked g h" "same_path s s'"
      by (rule checkCongestionLevel_ok [OF g])
    with True show thesis by (intro that [of h s']) simp_all
  next
    case False
    with g show thesis by (intro that [of g s]) (simp_all add: marked_def)
  qed
  have two: "two_fields h" by (rule two_fields_marked [OF assms(1) h(2)])
  have "length (blk_wire (lp_encode h)) \<le> 10 + fields_size (set (lp_elements h))"
    by (rule lp_encode_size) (use two in \<open>simp_all add: two_fields_def\<close>)
  with marked_size [OF h(2)] h(4) assms(2) have fit: "within_mtu t (lp_encode h)"
    by (cases "o_allowCongestionMarking (ls_options s)") (auto simp: fits_def within_mtu_def)
  then have "sendLpPacket t k g s = Inr (Some (lp_encode h), s')"
    unfolding sendLpPacket_def h(1) by (auto simp: two_fields_encode [OF two] within_mtu_def)
  with h(2,3) two fit show thesis by (intro that)
qed

lemma sendLpPackets_ok:
  assumes "\<forall>g\<in>set gs. two_fields g \<and> fits t (ls_options s) g"
  shows "\<exists>hs s'. sendLpPackets t k gs s = Inr (map lp_encode hs, s') \<and> same_path s s' \<and>
    list_all2 (\<lambda>g h. marked g h \<and> two_fields h \<and> within_mtu t (lp_encode h)) gs hs"
  using assms
proof (induction gs arbitrary: k s)
  case Nil
  then show ?case by simp
next
  case (Cons g gs)
  obtain h s1 where h: "sendLpPacket t k g s = Inr (Some (lp_encode h), s1)" "marked g h" "two_fields h" "same_path s s1" "within_mtu t (lp_encode h)"
    by (rule sendLpPacket_ok [of g t s k]) (use Cons.prems in auto)
  have "ls_options s1 = ls_options s" using h(4) by (simp add: same_path_def)
  with Cons.IH [of s1 "Suc k"] Cons.prems obtain hs s' where
    hs: "sendLpPackets t (Suc k) gs s1 = Inr (map lp_encode hs, s')" "same_path s1 s'"
    "list_all2 (\<lambda>g h. marked g h \<and> two_fields h \<and> within_mtu t (lp_encode h)) gs hs" by auto
  then show ?case using h same_path_trans [OF h(4) hs(2)] by (intro exI [of _ "h # hs"] exI [of _ s']) simp
qed

section \<open>The frames of a packet\<close>

lemma sendable_size:
  assumes "sendable p net" and "two_fields p"
  shows "length (blk_wire (lp_encode p)) \<le> 20 + fields_size (other_fields p) + length (blk_wire net)"
proof -
  have "fields_size (set (lp_elements p)) \<le> length (tlv_bytes tlv_Fragment (blk_wire net)) + fields_size (other_fields p)"
    unfolding sendable_facts(5) [OF assms(1)]
    using fields_size_insert_le [of "other_fields p" "mkBlock tlv_Fragment (blk_wire net)"] by (simp add: other_fields_def)
  moreover have "length (blk_wire (lp_encode p)) \<le> 10 + fields_size (set (lp_elements p))"
    by (rule lp_encode_size) (use assms(2) in \<open>simp_all add: two_fields_def\<close>)
  ultimately show ?thesis using range_bytes_le [of tlv_Fragment "blk_wire net"] by simp
qed

text \<open>The fragmenter never cuts a packet into a single fragment.\<close>

lemma fragmentPacket_many:
  assumes "sendable p net" and "two_fields p" and "fragmentPacket nMax p mtu = Def (Inr (Some fs))"
  obtains (whole) "fs = [p]" and "roomy mtu p"
    | (pieces) n where "fragments_of mtu p net n fs" and "n \<le> nMax" and "1 < n"
  using assms(1,3)
proof (cases rule: fragmentPacket_cases)
  case whole
  then show ?thesis using that by blast
next
  case (pieces n)
  have "n \<noteq> 1"
  proof
    assume "n = 1"
    with pieces(1) obtain pays where made: "frags_made mtu 1 0 [p] pays fs" "concat pays = blk_wire net"
      by (auto simp: fragments_of_def)
    then have shape: "frag_shape (other_fields p) 0 1 (blk_wire net) (fs ! 0)"
      "fields_size (other_fields p) + MAX_FRAG_OVERHEAD + length (blk_wire net) \<le> mtu"
      by (cases pays; auto simp: frags_made_def)+
    have "MAX_SINGLE_FRAG_OVERHEAD + length (blk_wire (lp_encode p)) \<le> mtu"
      using shape(2) sendable_size [OF assms(1,2)] by (simp add: MAX_SINGLE_FRAG_OVERHEAD_def MAX_FRAG_OVERHEAD_def)
    then have "fs = [p]"
      using assms(1,3) two_fields_encode [OF assms(2)] sendable_facts(1) [OF assms(1)]
      by (auto simp: fragmentPacket_def sendable_def)
    with shape(1) have "mkBlock tlv_FragIndex (writeNonNegativeInteger (of_nat 0)) \<in> set (lp_elements p)"
      by (auto simp: frag_shape_def)
    then have "tlv_FragIndex \<in> blk_type ` set (lp_elements p)" by (rule image_eqI [rotated]) simp
    with assms(1) show False by (simp add: sendable_def lp_has_iff)
  qed
  moreover have "1 \<le> n" using pieces(1) by (simp add: fragments_of_def)
  ultimately show ?thesis using that(2) pieces by auto
qed

text \<open>The packets that the service numbers and sends, the first with number \<open>m\<close>.\<close>

definition sent_as :: "lp_packet \<Rightarrow> block \<Rightarrow> nat \<Rightarrow> u64 \<Rightarrow> lp_packet list \<Rightarrow> bool" where
  "sent_as p net nMax m gs \<longleftrightarrow> gs = [p] \<or>
     (\<exists>mtu n fs. fragments_of mtu p net n fs \<and> 1 < n \<and> n \<le> nMax \<and> length gs = length fs \<and>
        (\<forall>k<length fs. numbered (m + of_nat k) (fs ! k) (gs ! k)))"

definition mtu_ok :: "transport \<Rightarrow> ls_options \<Rightarrow> bool" where
  "mtu_ok t opts \<longleftrightarrow> t_mtu t = MTU_UNLIMITED \<or> t_mtu t > (if o_allowCongestionMarking opts then CONGESTION_MARK_SIZE else 0)"

text \<open>The MTU that is left for the fragmenter.\<close>

definition frag_mtu :: "transport \<Rightarrow> ls_options \<Rightarrow> int" where
  "frag_mtu t opts = (if o_allowCongestionMarking opts then t_mtu t - CONGESTION_MARK_SIZE else t_mtu t)"

lemma numbered_two_fields: "lp_has tlv_Fragment f \<Longrightarrow> numbered sq f g \<Longrightarrow> two_fields g"
  by (auto simp: two_fields_def numbered_def lp_has_iff)

lemma roomy_fits:
  assumes "roomy (nat mtu) f" and "numbered sq f g"
    and "mtu = frag_mtu t opts"
  shows "fits t opts g"
  using numbered_fields [OF assms(2)] assms(1,3) by (auto simp: frag_mtu_def roomy_def fits_def CONGESTION_MARK_SIZE_def split: if_splits)

lemma ls_sendValPacket_ok:
  assumes "sendable p net" and "two_fields p" and "o_allowFragmentation (ls_options s)" and "mtu_ok t (ls_options s)"
  obtains (failed) "ls_sendValPacket t p s =
      Def (Inr ([], count (\<lambda>c. c\<lparr> n_FragmentationErrors := n_FragmentationErrors c + 1 \<rparr>) s))"
      and "t_mtu t \<noteq> MTU_UNLIMITED"
      and "fragmentPacket (o_fragmenter_nMaxFragments (ls_options s)) p (nat (frag_mtu t (ls_options s))) = Def (Inr None)"
    | (sent) gs hs s' where "ls_sendValPacket t p s = Def (Inr (map lp_encode hs, s'))" and "same_path s s'"
      and "sent_as p net (o_fragmenter_nMaxFragments (ls_options s)) (ls_lastSeqNo s + 1) gs"
      and "list_all2 (\<lambda>g h. marked g h \<and> two_fields h \<and> within_mtu t (lp_encode h)) gs hs"
proof -
  let ?opts = "ls_options s"
  let ?nMax = "o_fragmenter_nMaxFragments ?opts"
  define mtu where "mtu = (if o_allowCongestionMarking ?opts \<and> t_mtu t \<noteq> MTU_UNLIMITED then t_mtu t - CONGESTION_MARK_SIZE else t_mtu t)"
  have mtu: "mtu = MTU_UNLIMITED \<or> mtu > 0" "mtu = MTU_UNLIMITED \<longleftrightarrow> t_mtu t = MTU_UNLIMITED"
    using assms(4) by (auto simp: mtu_def mtu_ok_def MTU_UNLIMITED_def CONGESTION_MARK_SIZE_def)
  have run: "ls_sendValPacket t p s = bindU (make_frags ?opts mtu p) (\<lambda>r. case r of Inl err \<Rightarrow> Def (Inl err)
     | Inr None \<Rightarrow> Def (Inr ([], count (\<lambda>c. c\<lparr> n_FragmentationErrors := n_FragmentationErrors c + 1 \<rparr>) s))
     | Inr (Some frags) \<Rightarrow>
         assertion (length frags = 1 \<longrightarrow> \<not> lp_has tlv_FragIndex (hd frags) \<and> \<not> lp_has tlv_FragCount (hd frags))
           (Def (bindR (if length frags > 1 then assignSequences frags (ls_lastSeqNo s) else Inr (frags, ls_lastSeqNo s))
              (\<lambda>(frags', lastSeqNo). sendLpPackets t 0 frags' (s\<lparr> ls_lastSeqNo := lastSeqNo \<rparr>)))))"
    unfolding ls_sendValPacket_def Let_def mtu_def [symmetric] by (simp only: mtu(1) assertion_True)
  have one: thesis if "make_frags ?opts mtu p = Def (Inr (Some [p]))" "fits t ?opts p"
  proof -
    from sendLpPackets_ok [of "[p]" t s 0] that(2) assms(2) obtain hs s' where
      hs: "sendLpPackets t 0 [p] s = Inr (map lp_encode hs, s')" "same_path s s'"
      "list_all2 (\<lambda>g h. marked g h \<and> two_fields h \<and> within_mtu t (lp_encode h)) [p] hs" by auto
    have "ls_sendValPacket t p s = Def (Inr (map lp_encode hs, s'))"
      using assms(1) hs(1) unfolding run that(1) by (simp add: assertion_def sendable_def)
    with hs(2,3) show thesis by (intro sent [of hs s' "[p]"]) (simp_all add: sent_as_def)
  qed
  show thesis
  proof (cases "mtu = MTU_UNLIMITED")
    case True
    then show thesis using mtu(2) by (intro one) (simp_all add: make_frags_def fits_def)
  next
    case False
    then have frags: "make_frags ?opts mtu p = fragmentPacket ?nMax p (nat mtu)" using assms(3) by (simp add: make_frags_def)
    have lim: "mtu = frag_mtu t ?opts" using False mtu(2) by (auto simp: mtu_def frag_mtu_def)
    consider "fragmentPacket ?nMax p (nat mtu) = Def (Inr None)" | fs where "fragmentPacket ?nMax p (nat mtu) = Def (Inr (Some fs))"
      using fragmentPacket_ok [OF assms(1), of ?nMax "nat mtu"] by blast
    then show thesis
    proof cases
      case 1
      then have "ls_sendValPacket t p s = Def (Inr ([], count (\<lambda>c. c\<lparr> n_FragmentationErrors := n_FragmentationErrors c + 1 \<rparr>) s))"
        unfolding run frags by simp
      then show thesis using failed False mtu(2) 1 unfolding lim by blast
    next
      case (2 fs)
      from assms(1,2) 2 show thesis
      proof (cases rule: fragmentPacket_many)
        case whole
        then have "fits t ?opts p" using lim by (auto simp: frag_mtu_def roomy_def fits_def CONGESTION_MARK_SIZE_def)
        with 2 whole(1) show thesis unfolding frags [symmetric] by (intro one) simp_all
      next
        case (pieces n)
        have len: "length fs = n" using pieces(1) by (auto simp: fragments_of_def frags_made_def)
        have roomy: "\<forall>f\<in>set fs. roomy (nat mtu) f" using fragments_roomy [OF pieces(1)] by blast
        obtain gs where gs: "assignSequences fs (ls_lastSeqNo s) = Inr (gs, ls_lastSeqNo s + of_nat (length fs))" "length gs = length fs"
          "\<And>k. k < length fs \<Longrightarrow> numbered (ls_lastSeqNo s + 1 + of_nat k) (fs ! k) (gs ! k)"
          "\<And>g. g \<in> set gs \<Longrightarrow> \<exists>f sq. roomy (nat mtu) f \<and> numbered sq f g"
          by (rule assignSequences_roomy [OF roomy, of "ls_lastSeqNo s"]) blast
        let ?s1 = "s\<lparr> ls_lastSeqNo := ls_lastSeqNo s + of_nat (length fs) \<rparr>"
        have "\<forall>g\<in>set gs. two_fields g \<and> fits t (ls_options ?s1) g"
          using gs(4) numbered_two_fields roomy_fits [OF _ _ lim] by (fastforce simp: roomy_def)
        from sendLpPackets_ok [OF this, of 0] obtain hs s' where hs: "sendLpPackets t 0 gs ?s1 = Inr (map lp_encode hs, s')"
          "same_path ?s1 s'" "list_all2 (\<lambda>g h. marked g h \<and> two_fields h \<and> within_mtu t (lp_encode h)) gs hs" by blast
        have "ls_sendValPacket t p s = Def (Inr (map lp_encode hs, s'))"
          unfolding run frags 2 using pieces(3) len gs(1) hs(1) by (simp add: assertion_def)
        moreover have "sent_as p net ?nMax (ls_lastSeqNo s + 1) gs"
          unfolding sent_as_def using pieces gs(2,3) by blast
        ultimately show thesis using same_path_trans [OF same_path_refl(2) hs(2)] hs(3) by (intro sent)
      qed
    qed
  qed
qed

section \<open>Reassembly of the frames\<close>

lemma list_all2_marked: "list_all2 (\<lambda>g h. marked g h \<and> two_fields h \<and> within_mtu t (lp_encode h)) gs hs \<Longrightarrow>
    list_all2 marked gs hs \<and> (\<forall>h\<in>set hs. two_fields h \<and> within_mtu t (lp_encode h))"
  by (induction gs hs rule: list_all2_induct) auto

lemma sent_as_wf: "sendable p net \<Longrightarrow> sent_as p net nMax m gs \<Longrightarrow> g \<in> set gs \<Longrightarrow> lp_wf g"
  by (auto simp: sent_as_def sendable_def numbered_def in_set_conv_nth)

lemma marked_received: "lp_wf g \<Longrightarrow> marked g h \<Longrightarrow> keeps_fields g (received h)"
  using marked_keeps [of g h] by (simp add: keeps_fields_def)

lemma frames_reassemble:
  assumes "sendable p net" and "sent_as p net nMax m gs" and "list_all2 marked gs hs" and "nMax \<le> nMax'" and "1 \<le> nMax'" and "nMax < 2 ^ 64"
    and "ra_partialPackets r (ep, m) = None" and "distinct order" and "set order = {..<length hs}"
  shows "\<exists>r'. receive_all nMax' timeout ep (map ((!) (map received hs)) order) r =
      (replicate (length hs - 1) (Inr None) @ [Inr (Some (net, received (hs ! 0)))], r') \<and>
    ra_partialPackets r' = ra_partialPackets r"
  using assms(2) unfolding sent_as_def
proof (elim disjE exE conjE)
  assume "gs = [p]"
  with assms(3) obtain h where hs: "hs = [h]" "marked p h" by (auto simp: list_all2_Cons1)
  have "one_piece net (received h)"
    by (rule whole_one_piece [OF assms(1) marked_received [OF _ hs(2)]]) (use assms(1) in \<open>auto simp: sendable_def\<close>)
  moreover have "order = [0]" using assms(8,9) hs(1) by (cases order) (auto simp: subset_singleton_iff lessThan_Suc)
  ultimately show ?thesis using receive_one_piece [of net "received h" nMax' timeout ep r] assms(5) hs(1) by simp
next
  fix mtu n fs
  assume fs: "fragments_of mtu p net n fs" "1 < n" "n \<le> nMax" "length gs = length fs"
    "\<forall>k<length fs. numbered (m + of_nat k) (fs ! k) (gs ! k)"
  have len: "length hs = length fs" using assms(3) fs(4) by (simp add: list_all2_lengthD)
  have "\<exists>g. numbered (m + of_nat k) (fs ! k) g \<and> keeps_fields g (map received hs ! k)" if "k < length fs" for k
    using fs(4,5) that len list_all2_nthD [OF assms(3), of k]
    by (intro exI [of _ "gs ! k"]) (auto simp: numbered_def intro!: marked_received)
  with fragments_message [OF assms(1) fs(1,2), of "map received hs" m] fs(3) assms(6) len
  have msg: "message m net (map received hs)" "length hs = n" by auto
  have "length order = length hs" using assms(8,9) by (metis card_lessThan distinct_card)
  moreover from this msg(2) fs(2) have "order \<noteq> []" by auto
  moreover have "partial_ok (ep, m) (map received hs) {} r" using assms(7) by (simp add: partial_ok_def)
  ultimately show ?thesis
    using receive_all_message [OF msg(1), of nMax' ep "{}" r order timeout] assms(4,7-9) fs(2,3) msg(2)
    by (simp add: fun_upd_idem)
qed

section \<open>The header fields of the first frame\<close>

definition link_types :: "u32 set" where
  "link_types = {tlv_Fragment, tlv_Sequence, tlv_FragIndex, tlv_FragCount}"

definition header_fields :: "lp_packet \<Rightarrow> block set" where
  "header_fields h = {b \<in> set (lp_elements h). blk_type b \<notin> link_types}"

lemma tag_fields_types: "b \<in> set (tag_fields opts tags v) \<Longrightarrow>
    blk_type b \<in> {tlv_IncomingFaceId, tlv_CongestionMark, tlv_NonDiscovery, tlv_HopCountTag, 850}"
  by (auto simp: tag_fields_def opt_block_def nni_block_def split: if_splits)

lemma tag_fields_link: "b \<in> set (tag_fields opts tags v) \<Longrightarrow> blk_type b \<notin> link_types"
  using tag_fields_types [of b opts tags v] by (auto simp: link_types_def)

lemma tag_fields_mark:
  "insert (nni_block tlv_CongestionMark 1) {b \<in> set (tag_fields opts tags v). blk_type b \<noteq> tlv_CongestionMark} =
   set (tag_fields opts (tags\<lparr> tag_congestionMark := Some 1 \<rparr>) v)"
  by (auto simp: tag_fields_def opt_block_def nni_block_def split: if_splits)

lemma header_fields_sent:
  assumes "sendable p net" and "set (lp_elements p) = insert (mkBlock tlv_Fragment (blk_wire net)) (set (tag_fields opts tags v))"
    and "sent_as p net nMax m gs"
  shows "gs \<noteq> [] \<and> header_fields (gs ! 0) = set (tag_fields opts tags v)"
  using assms(3) unfolding sent_as_def
proof (elim disjE exE conjE)
  assume "gs = [p]"
  then show ?thesis using assms(2) tag_fields_link [of _ opts tags v] by (auto simp: header_fields_def link_types_def)
next
  fix mtu n fs
  assume fs: "fragments_of mtu p net n fs" "1 < n" "length gs = length fs"
    "\<forall>k<length fs. numbered (m + of_nat k) (fs ! k) (gs ! k)"
  then have len: "length fs = n" by (auto simp: fragments_of_def frags_made_def)
  have other: "other_fields p = set (tag_fields opts tags v)"
    using assms(2) tag_fields_link [of _ opts tags v] by (auto simp: other_fields_def link_types_def)
  from fs(1) obtain pays where made: "frags_made mtu n 0 (p # replicate (n - 1) lp_empty) pays fs" by (auto simp: fragments_of_def)
  from made fs(2) have "frag_shape (other_fields p) 0 n (pays ! 0) (fs ! 0)"
    by (auto simp: frags_made_def dest: spec [of _ 0])
  then have els: "set (lp_elements (fs ! 0)) = set (tag_fields opts tags v) \<union> {mkBlock tlv_FragIndex (writeNonNegativeInteger (of_nat 0)),
      mkBlock tlv_FragCount (writeNonNegativeInteger (of_nat n)), mkBlock tlv_Fragment (pays ! 0)}"
    unfolding other frag_shape_def by blast
  have "0 < length fs" using fs(2) len by simp
  with fs(4) have "numbered (m + of_nat 0) (fs ! 0) (gs ! 0)" by blast
  then have "header_fields (gs ! 0) = header_fields (fs ! 0)"
    by (auto simp: numbered_def header_fields_def link_types_def)
  also have "\<dots> = set (tag_fields opts tags v)"
    using tag_fields_link [of _ opts tags v] unfolding header_fields_def els by (auto simp: link_types_def)
  finally have "header_fields (gs ! 0) = set (tag_fields opts tags v)" .
  moreover have "gs \<noteq> []" using \<open>0 < length fs\<close> fs(3) by (metis length_greater_0_conv)
  ultimately show ?thesis by blast
qed

lemma header_fields_marked:
  assumes "marked g h" and "header_fields g = set (tag_fields opts tags v)"
  obtains tags' where "header_fields h = set (tag_fields opts tags' v)"
    and "tags' = tags \<or> tags' = tags\<lparr> tag_congestionMark := Some 1 \<rparr>"
proof (cases "set (lp_elements h) = set (lp_elements g)")
  case True
  with assms(2) show thesis by (intro that [of tags]) (simp_all add: header_fields_def)
next
  case False
  with assms(1) have h: "set (lp_elements h) = insert (nni_block tlv_CongestionMark 1) {b \<in> set (lp_elements g). blk_type b \<noteq> tlv_CongestionMark}"
    by (simp add: marked_def)
  have "header_fields h = insert (nni_block tlv_CongestionMark 1) {b \<in> header_fields g. blk_type b \<noteq> tlv_CongestionMark}"
    unfolding header_fields_def h by (auto simp: link_types_def)
  with assms(2) show thesis
    using tag_fields_mark [of opts tags v] by (intro that [of "tags\<lparr> tag_congestionMark := Some 1 \<rparr>"]) simp_all
qed

section \<open>What the receiver reads\<close>

lemma lp_has_header: "t \<notin> link_types \<Longrightarrow> lp_has t h \<longleftrightarrow> t \<in> blk_type ` header_fields h"
  by (auto simp: lp_has_iff header_fields_def)

lemma header_fields_in: "b \<in> header_fields h \<Longrightarrow> b \<in> set (lp_elements h)"
  by (simp add: header_fields_def)

definition hop_of :: "lp_tags \<Rightarrow> u64" where
  "hop_of tags = (case tag_hopCount tags of Some n \<Rightarrow> n | None \<Rightarrow> 0)"

lemma carried_types:
  assumes "header_fields h = set (tag_fields opts tags v)"
  shows "lp_has tlv_HopCountTag h" "lp_has tlv_CongestionMark h \<longleftrightarrow> tag_congestionMark tags \<noteq> None"
    "lp_has tlv_NonDiscovery h \<longleftrightarrow> o_allowSelfLearning opts \<and> tag_nonDiscovery tags"
    "\<not> lp_has tlv_Nack h" "\<not> lp_has tlv_NextHopFaceId h" "\<not> lp_has tlv_CachePolicy h" "\<not> lp_has tlv_PrefixAnnouncement h"
  by (simp_all add: lp_has_header link_types_def assms tag_fields_def image_Un opt_block_types)

lemma carried_get:
  assumes "header_fields h = set (tag_fields opts tags v)" and "lp_wf h"
  shows "bindR (lp_get tlv_HopCountTag h) decode_u64 = Inr (hop_of tags)"
    and "tag_congestionMark tags = Some m \<Longrightarrow> get_nni tlv_CongestionMark h = Inr m"
    and "o_allowSelfLearning opts \<Longrightarrow> tag_nonDiscovery tags \<Longrightarrow> bindR (lp_get tlv_NonDiscovery h) decode_empty = Inr ()"
    and "blk_find 850 (lp_elements h) = Some (mkBlock 850 (header_value v))"
proof -
  have in_h: "mkBlock t xs \<in> set (tag_fields opts tags v) \<Longrightarrow> lp_get t h = Inr (mkBlock t xs)" for t xs
    using lp_get_in [OF assms(2), of t xs] assms(1) header_fields_in [of "mkBlock t xs" h] by simp
  show "bindR (lp_get tlv_HopCountTag h) decode_u64 = Inr (hop_of tags)"
    using in_h [of tlv_HopCountTag "be_bytes 8 (unat (hop_of tags))"] by (simp add: tag_fields_def hop_of_def decode_u64_eq)
  show "get_nni tlv_CongestionMark h = Inr m" if "tag_congestionMark tags = Some m"
    using in_h [of tlv_CongestionMark "writeNonNegativeInteger m"] that
    by (simp add: get_nni_def tag_fields_def opt_block_def nni_block_def tlv_simps)
  show "bindR (lp_get tlv_NonDiscovery h) decode_empty = Inr ()" if "o_allowSelfLearning opts" "tag_nonDiscovery tags"
    using in_h [of tlv_NonDiscovery "[]"] that by (simp add: tag_fields_def opt_block_def decode_empty_def)
  have "lp_get 850 h = Inr (mkBlock 850 (header_value v))"
    by (rule in_h) (simp add: tag_fields_def)
  then show "blk_find 850 (lp_elements h) = Some (mkBlock 850 (header_value v))"
    by (simp add: lp_get_def blk_find_def split: option.splits)
qed

definition tagged_interest :: "ls_options \<Rightarrow> ls_options \<Rightarrow> lp_tags \<Rightarrow> interest \<Rightarrow> interest" where
  "tagged_interest sender receiver tags i = i\<lparr> in_hopCount := Some (hop_of tags + 1),
     in_congestionMark := (if tag_congestionMark tags = None then in_congestionMark i else tag_congestionMark tags),
     in_nonDiscovery := (in_nonDiscovery i \<or> (o_allowSelfLearning sender \<and> tag_nonDiscovery tags \<and> o_allowSelfLearning receiver)) \<rparr>"

definition tagged_data :: "lp_tags \<Rightarrow> data \<Rightarrow> data" where
  "tagged_data tags d = d\<lparr> d_hopCount := Some (hop_of tags + 1),
     d_congestionMark := (if tag_congestionMark tags = None then d_congestionMark d else tag_congestionMark tags) \<rparr>"

lemma decodeInterest_ok:
  assumes "header_fields h = set (tag_fields opts tags v)" and "lp_wf h" and "blk_type net = tlv_Interest"
    and "interest_wireDecode rnd net = Inr i"
  shows "decodeInterest ropts rnd net h = Def (Inr (Some (tagged_interest opts ropts tags i), False))"
  using carried_types [OF assms(1)] carried_get [OF assms(1,2)] assms(3,4)
  by (cases "tag_congestionMark tags"; cases "o_allowSelfLearning opts"; cases "tag_nonDiscovery tags"; cases "o_allowSelfLearning ropts")
     (simp_all add: decodeInterest_def assertion_def when_has_def tagged_interest_def)

lemma decodeData_ok:
  assumes "header_fields h = set (tag_fields opts tags v)" and "lp_wf h" and "blk_type net = tlv_Data"
    and "data_wireDecode net = Inr d" and "\<not> tag_nonDiscovery tags"
  shows "decodeData ropts ann net h = Def (Inr (Some (tagged_data tags d), False))"
  using carried_types [OF assms(1)] carried_get [OF assms(1,2)] assms(3-5)
  by (cases "tag_congestionMark tags") (simp_all add: decodeData_def assertion_def when_has_def tagged_data_def)

text \<open>The frame that carries the header fields is an LpPacket with its elements parsed.\<close>

lemma received_encode:
  assumes "two_fields h"
  shows "lp_wireEncode (received h) = Inr (lp_encode h)" and "blk_type (lp_encode h) = tlv_LpPacket"
    and "lp_wireDecode (lp_encode h) = Inr (received h)" and "lp_has tlv_Fragment (received h)"
proof -
  have wf: "lp_wf h" "lp_wire h = None" using assms by (simp_all add: two_fields_def)
  obtain a b where "a \<in> set (lp_elements h)" "blk_type a = tlv_Fragment" "b \<in> set (lp_elements h)" "blk_type b \<noteq> tlv_Fragment"
    using assms by (auto simp: two_fields_def lp_has_iff)
  then have "lp_wireEncode (received h) = Inr (lp_encode (received h))"
    by (intro lp_wireEncode_many [of a _ b]) auto
  then show "lp_wireEncode (received h) = Inr (lp_encode h)" by (simp add: received_def lp_encode_def)
  show "blk_type (lp_encode h) = tlv_LpPacket" by (simp add: lp_encode_eq [OF wf])
  show "lp_wireDecode (lp_encode h) = Inr (received h)" using lp_decode_encode [OF wf] by (simp add: received_def)
  show "lp_has tlv_Fragment (received h)" using assms by (simp add: two_fields_def lp_has_iff)
qed

lemma header_value_decodes:
  assumes "header_fits v"
  shows "bindR (elements_of (blk_value (mkBlock 850 (header_value v)))) (\<lambda>_. mkValHeader_of_block garbage (mkBlock 850 (header_value v))) =
    Inr (v\<lparr> h_wire := Some (mkBlock 850 (header_value v)) \<rparr>)"
proof -
  have dec: "mkValHeader_of_block garbage (mkBlock 850 (header_value v)) = Inr (v\<lparr> h_wire := Some (mkBlock 850 (header_value v)) \<rparr>)"
    using header_wireDecode_value [OF assms] by (simp add: mkValHeader_of_block_def)
  then obtain es where "elements_of (header_value v) = Inr es"
    by (auto simp: mkValHeader_of_block_def header_wireDecode_def bindR_eq_Inr split: if_splits)
  with dec show ?thesis by simp
qed

abbreviation count_in :: "link_service \<Rightarrow> link_service" where
  "count_in s \<equiv> count (\<lambda>c. c\<lparr> n_InValPkt := n_InValPkt c + 1 \<rparr>) s"

lemma deliver_interest:
  assumes "header_fields (received h) = set (tag_fields opts tags v)" and "two_fields h" and "header_fits v"
    and "blk_type net = tlv_Interest" and "interest_wireDecode rnd net = Inr i"
  shows "deliver rnd garbage ann net (received h) s =
    Def (Inr (Some (setInterest (Some (tagged_interest opts (ls_options s) tags i))
      (mkValPacket (v\<lparr> h_wire := Some (mkBlock 850 (header_value v)) \<rparr>))), count_in s))"
proof -
  have wf: "lp_wf (received h)" using assms(2) by (simp add: two_fields_def)
  show ?thesis
    unfolding deliver_def received_encode(1) [OF assms(2)] sum.case
    using received_encode(2) [OF assms(2)] carried_get(4) [OF assms(1) wf] header_value_decodes [OF assms(3), of garbage]
      decodeInterest_ok [OF assms(1) wf assms(4,5), of "ls_options s"] assms(4)
    by (simp add: count_invalid_def)
qed

lemma deliver_data:
  assumes "header_fields (received h) = set (tag_fields opts tags v)" and "two_fields h" and "header_fits v"
    and "blk_type net = tlv_Data" and "data_wireDecode net = Inr d" and "\<not> tag_nonDiscovery tags"
  shows "deliver rnd garbage ann net (received h) s =
    Def (Inr (Some (setData (Some (tagged_data tags d))
      (mkValPacket (v\<lparr> h_wire := Some (mkBlock 850 (header_value v)) \<rparr>))), count_in s))"
proof -
  have wf: "lp_wf (received h)" using assms(2) by (simp add: two_fields_def)
  show ?thesis
    unfolding deliver_def received_encode(1) [OF assms(2)] sum.case
    using received_encode(2) [OF assms(2)] carried_get(4) [OF assms(1) wf] header_value_decodes [OF assms(3), of garbage]
      decodeData_ok [OF assms(1) wf assms(4-6), of "ls_options s" ann] assms(4)
    by (simp add: count_invalid_def tlv_Data_def tlv_Interest_def)
qed

section \<open>The receiver\<close>

text \<open>The packets that go to the forwarder, one result for every frame.\<close>

primrec receive_frames :: "nonce \<Rightarrow> u8 \<Rightarrow> (block \<Rightarrow> tlv_error + block) \<Rightarrow> u64 \<Rightarrow> block list \<Rightarrow> link_service \<Rightarrow>
    (val_packet option list \<times> link_service) outcome" where
  "receive_frames rnd garbage ann ep [] s = Def ([], s)"
| "receive_frames rnd garbage ann ep (w # ws) s =
     bindU (doReceivePacket rnd garbage ann ep w s) (\<lambda>(v, s1).
     bindU (receive_frames rnd garbage ann ep ws s1) (\<lambda>(vs, s2). Def (v # vs, s2)))"

abbreviation reassemble :: "ls_options \<Rightarrow> u64 \<Rightarrow> lp_packet list \<Rightarrow> reassembler \<Rightarrow> (tlv_error + (block \<times> lp_packet) option) list \<times> reassembler" where
  "reassemble opts \<equiv> receive_all (o_reassembler_nMaxFragments opts) (o_reassemblyTimeout opts)"

lemma receive_frames_ok:
  assumes "reassemble (ls_options s) ep (map received hs) (ls_reassembler s) = (replicate k (Inr None) @ [Inr (Some (net, first))], ra)"
    and "\<forall>h\<in>set hs. two_fields h" and "o_allowReassembly (ls_options s)"
    and "deliver rnd garbage ann net first (s\<lparr> ls_reassembler := ra \<rparr>) = Def (Inr (vp, s'))"
  shows "receive_frames rnd garbage ann ep (map lp_encode hs) s = Def (replicate k None @ [vp], s')"
  using assms
proof (induction hs arbitrary: k s)
  case Nil
  then show ?case by simp
next
  case (Cons h hs)
  obtain x r1 where x: "receiveFragment (o_reassembler_nMaxFragments (ls_options s)) (o_reassemblyTimeout (ls_options s)) ep (received h) (ls_reassembler s) = (x, r1)"
    by fastforce
  obtain xs r2 where xs: "reassemble (ls_options s) ep (map received hs) r1 = (xs, r2)" by fastforce
  have res: "x # xs = replicate k (Inr None) @ [Inr (Some (net, first))]" "r2 = ra"
    using Cons.prems(1) x xs by (simp_all add: Let_def)
  have two: "two_fields h" using Cons.prems(2) by simp
  have step: "doReceivePacket rnd garbage ann ep (lp_encode h) s =
    (case x of Inl err \<Rightarrow> Def (None, count_lpInvalid (s\<lparr> ls_reassembler := r1 \<rparr>))
     | Inr None \<Rightarrow> Def (None, s\<lparr> ls_reassembler := r1 \<rparr>)
     | Inr (Some (netPkt, firstPkt)) \<Rightarrow> bindU (deliver rnd garbage ann netPkt firstPkt (s\<lparr> ls_reassembler := r1 \<rparr>)) (\<lambda>res.
         case res of Inl err \<Rightarrow> Def (None, count_lpInvalid (s\<lparr> ls_reassembler := r1 \<rparr>)) | Inr (vp, s2) \<Rightarrow> Def (vp, s2)))"
    unfolding doReceivePacket_def received_encode(3) [OF two] sum.case x
    using received_encode(4) [OF two] Cons.prems(3) by (simp add: Let_def)
  show ?case
  proof (cases k)
    case 0
    with res have "x = Inr (Some (net, first))" "xs = []" by simp_all
    moreover from this(2) xs have "hs = []" "r1 = r2" by (cases hs; auto simp: Let_def split: prod.splits)+
    ultimately show ?thesis using 0 step res(2) Cons.prems(4) by simp
  next
    case (Suc j)
    with res have "x = Inr None" "xs = replicate j (Inr None) @ [Inr (Some (net, first))]" by simp_all
    with Cons.IH [of "s\<lparr> ls_reassembler := r1 \<rparr>" j] Cons.prems(2-4) xs res(2) step Suc show ?thesis by simp
  qed
qed

section \<open>From one node to another\<close>

text \<open>An encoded Interest or Data packet that fits a TLV element.\<close>

definition network_block :: "block \<Rightarrow> bool" where
  "network_block w \<longleftrightarrow> (blk_type w = tlv_Interest \<or> blk_type w = tlv_Data) \<and> blk_valid w \<and> length (blk_wire w) < 2 ^ 64"

text \<open>The sender fragments to at most \<open>nMax\<close> pieces, and the receiver has room for them and holds nothing for the message.\<close>

definition can_receive :: "ls_options \<Rightarrow> u64 \<Rightarrow> u64 \<Rightarrow> link_service \<Rightarrow> bool" where
  "can_receive sender ep m r \<longleftrightarrow> o_allowReassembly (ls_options r) \<and> 1 \<le> o_reassembler_nMaxFragments (ls_options r) \<and>
     o_fragmenter_nMaxFragments sender \<le> o_reassembler_nMaxFragments (ls_options r) \<and> o_fragmenter_nMaxFragments sender < 2 ^ 64 \<and>
     ra_partialPackets (ls_reassembler r) (ep, m) = None"

definition can_send :: "transport \<Rightarrow> link_service \<Rightarrow> bool" where
  "can_send t s \<longleftrightarrow> o_allowFragmentation (ls_options s) \<and> mtu_ok t (ls_options s)"

lemma packet_to_send:
  assumes "network_block w" and "header_fits v" and "tag_prefixAnnouncement tags = None"
  obtains p where "make_lpPacket opts w tags v = Inr p" and "sendable p w" and "two_fields p"
    and "set (lp_elements p) = insert (mkBlock tlv_Fragment (blk_wire w)) (set (tag_fields opts tags v))"
proof -
  have w: "blk_type w = tlv_Interest \<or> blk_type w = tlv_Data" "length (blk_wire w) < 2 ^ 64" "blk_valid w"
    using assms(1) by (simp_all add: network_block_def)
  obtain p where p: "make_lpPacket opts w tags v = Inr p" "lp_wf p" "lp_wire p = None"
    "set (lp_elements p) = insert (mkBlock tlv_Fragment (blk_wire w)) (set (tag_fields opts tags v))"
    by (rule make_lpPacket_ok [OF w(1,2) assms(2,3)])
  have no: "t \<in> link_types - {tlv_Fragment} \<Longrightarrow> \<not> lp_has t p" for t
  proof -
    assume t: "t \<in> link_types - {tlv_Fragment}"
    then have "t \<notin> blk_type ` set (tag_fields opts tags v)" using tag_fields_link [of _ opts tags v] by blast
    with t show "\<not> lp_has t p" by (simp add: lp_has_iff p(4))
  qed
  have "sendable p w" using p(2,3) w(3) no by (simp add: sendable_def p(4) link_types_def)
  moreover have "two_fields p" using p(2,3) by (auto simp: two_fields_def lp_has_iff p(4) tag_fields_def)
  ultimately show thesis using p that by blast
qed

lemma frames_arrive:
  assumes "sendable p w" and "two_fields p" and "set (lp_elements p) = insert (mkBlock tlv_Fragment (blk_wire w)) (set (tag_fields (ls_options s) tags v))"
    and "can_send t s" and "ls_sendValPacket t p s = Def (Inr (ws, s'))" and "ws \<noteq> []"
    and "can_receive (ls_options s) ep (ls_lastSeqNo s + 1) r" and "distinct order" and "set order = {..<length ws}"
  obtains tags' h hs ra where "map ((!) ws) order = map lp_encode hs" and "\<forall>g\<in>set hs. two_fields g"
    and "reassemble (ls_options r) ep (map received hs) (ls_reassembler r) =
      (replicate (length ws - 1) (Inr None) @ [Inr (Some (w, received h))], ra)"
    and "ra_partialPackets ra = ra_partialPackets (ls_reassembler r)"
    and "header_fields (received h) = set (tag_fields (ls_options s) tags' v)" and "two_fields h"
    and "tags' = tags \<or> tags' = tags\<lparr> tag_congestionMark := Some 1 \<rparr>"
proof -
  let ?nMax = "o_fragmenter_nMaxFragments (ls_options s)"
  have ok: "o_allowFragmentation (ls_options s)" "mtu_ok t (ls_options s)" using assms(4) by (simp_all add: can_send_def)
  obtain gs hs where hs: "ws = map lp_encode hs" "sent_as p w ?nMax (ls_lastSeqNo s + 1) gs" "list_all2 marked gs hs"
    "\<forall>h\<in>set hs. two_fields h"
    using assms(1,2) ok
  proof (cases rule: ls_sendValPacket_ok)
    case failed
    with assms(5,6) show ?thesis by simp
  next
    case (sent gs hs s'')
    then have "ws = map lp_encode hs" using assms(5) by simp
    with sent(3) list_all2_marked [OF sent(4)] show ?thesis by (intro that [of hs gs]) simp_all
  qed
  have g0: "gs \<noteq> []" "header_fields (gs ! 0) = set (tag_fields (ls_options s) tags v)"
    using header_fields_sent [OF assms(1,3) hs(2)] by simp_all
  have "marked (gs ! 0) (hs ! 0)" using list_all2_nthD [OF hs(3), of 0] g0(1) by simp
  then obtain tags' where tags': "header_fields (hs ! 0) = set (tag_fields (ls_options s) tags' v)"
    "tags' = tags \<or> tags' = tags\<lparr> tag_congestionMark := Some 1 \<rparr>" by (rule header_fields_marked [OF _ g0(2)])
  have order: "\<forall>i\<in>set order. i < length hs" using assms(9) hs(1) by simp
  have "set order = {..<length hs}" using assms(9) hs(1) by simp
  from frames_reassemble [OF assms(1) hs(2,3) _ _ _ _ assms(8) this,
      of "o_reassembler_nMaxFragments (ls_options r)" "ls_reassembler r" ep "o_reassemblyTimeout (ls_options r)"] assms(7)
  obtain ra where ra: "reassemble (ls_options r) ep (map ((!) (map received hs)) order) (ls_reassembler r) =
      (replicate (length hs - 1) (Inr None) @ [Inr (Some (w, received (hs ! 0)))], ra)"
    "ra_partialPackets ra = ra_partialPackets (ls_reassembler r)" by (auto simp: can_receive_def)
  have maps: "map ((!) (map received hs)) order = map received (map ((!) hs) order)"
    "map ((!) ws) order = map lp_encode (map ((!) hs) order)" using order hs(1) by simp_all
  show thesis
  proof (rule that [of "map ((!) hs) order" "hs ! 0" ra tags'])
    show "\<forall>g\<in>set (map ((!) hs) order). two_fields g" using order hs(4) by auto
    show "two_fields (hs ! 0)" using assms(6) hs(1,4) by (cases hs) auto
    show "header_fields (received (hs ! 0)) = set (tag_fields (ls_options s) tags' v)"
      using tags'(1) by (simp add: header_fields_def)
  qed (use ra tags'(2) maps hs(1) in simp_all)
qed

text \<open>A ValPacket with header \<open>v\<close> that holds an Interest or Data packet encoded as \<open>w\<close>, and its tags.\<close>

definition holds :: "val_packet \<Rightarrow> val_header \<Rightarrow> block \<Rightarrow> lp_tags \<Rightarrow> bool" where
  "holds vp v w tags \<longleftrightarrow>
     (\<exists>i. vp = setInterest (Some i) (mkValPacket v) \<and> interest_wireEncode i = Inr w \<and> tags = interest_tags i) \<or>
     (\<exists>d. vp = setData (Some d) (mkValPacket v) \<and> data_wireEncode d = Inr w \<and> tags = data_tags d)"

lemma doSendValPacket_holds:
  assumes "holds vp v w tags" and "make_lpPacket (ls_options s) w tags v = Inr p"
  shows "doSendValPacket t vp s = ls_sendValPacket t p s"
  using assms
  by (auto simp: holds_def doSendValPacket_def setInterest_def setData_def mkValPacket_def getInterest_def getData_def packet_states)

text \<open>
  Fragmentation succeeds when a frame has room for the header fields and one byte of payload, and the
  options allow one fragment per byte.
\<close>

lemma fragmentPacket_succeeds:
  assumes "sendable p net" and "MAX_FRAG_OVERHEAD + fields_size (other_fields p) + 1 \<le> mtu" and "length (blk_wire net) \<le> nMax"
  shows "fragmentPacket nMax p mtu \<noteq> Def (Inr None)"
proof -
  obtain w where w: "lp_wireEncode p = Inr w" "header_size w p = fields_size (other_fields p)" by (rule sendable_encode [OF assms(1)])
  let ?L = "length (blk_wire net)"
  let ?c = "min ?L (mtu - fields_size (other_fields p) - MAX_FRAG_OVERHEAD)"
  let ?ps = "mtu - MAX_FRAG_OVERHEAD"
  note facts = sendable_facts [OF assms(1)]
  have ceil: "d div q + (if d mod q \<noteq> 0 then 1 else 0) \<le> d" for d q :: nat
  proof (cases "d mod q = 0")
    case False
    then have "d \<noteq> 0" "q \<noteq> 1" by (metis mod_0, metis mod_by_1 One_nat_def mod_by_Suc_0)
    then have "d div q < d" by (cases "q = 0") simp_all
    then show ?thesis by simp
  qed simp
  have "1 \<le> ?c" "0 < ?ps" using facts(3) assms(2) by (auto simp: Suc_le_eq)
  with ceil [of "?L - ?c" ?ps] have n: "\<not> 1 + (?L - ?c) div ?ps + (if (?L - ?c) mod ?ps \<noteq> 0 then 1 else 0) > nMax"
    using assms(3) by linarith
  have h: "\<not> MAX_FRAG_OVERHEAD + fields_size (other_fields p) + 1 > mtu" using assms(2) by simp
  have payload: "bindR (lp_get tlv_Fragment p) decode_range = Inr (blk_wire net)"
    using facts(2,3) by (simp add: decode_range_def)
  have loop: "bindU X (\<lambda>r. case r of Inl err \<Rightarrow> Def (Inl err)
      | Inr (k, fs) \<Rightarrow> if k \<noteq> m then Undef AssertionFailed else Def (Inr (Some fs))) \<noteq> Def (Inr None)"
    for X :: "(tlv_error + nat \<times> lp_packet list) outcome" and m
    by (auto simp: bindU_def split: outcome.splits sum.splits)
  show ?thesis
    unfolding fragmentPacket_def w(1) payload sum.case Let_def w(2) if_not_P [OF n] if_not_P [OF h]
    using loop by (simp del: not_None_eq)
qed

definition has_room :: "transport \<Rightarrow> ls_options \<Rightarrow> lp_tags \<Rightarrow> val_header \<Rightarrow> block \<Rightarrow> bool" where
  "has_room t opts tags v w \<longleftrightarrow> t_mtu t = MTU_UNLIMITED \<or>
     (int (MAX_FRAG_OVERHEAD + fields_size (set (tag_fields opts tags v))) < frag_mtu t opts \<and>
      length (blk_wire w) \<le> o_fragmenter_nMaxFragments opts)"

text \<open>A packet whose header fields fit the MTU is sent.\<close>

lemma doSendValPacket_cases:
  assumes "holds vp v w tags" and "network_block w" and "header_fits v" and "tag_prefixAnnouncement tags = None" and "can_send t s"
  obtains (failed) "doSendValPacket t vp s =
      Def (Inr ([], count (\<lambda>c. c\<lparr> n_FragmentationErrors := n_FragmentationErrors c + 1 \<rparr>) s))"
      and "\<not> has_room t (ls_options s) tags v w"
    | (sent) hs s' where "doSendValPacket t vp s = Def (Inr (map lp_encode hs, s'))" and "hs \<noteq> []" and "same_path s s'"
      and "\<forall>h\<in>set hs. within_mtu t (lp_encode h)"
proof -
  obtain p where p: "make_lpPacket (ls_options s) w tags v = Inr p" "sendable p w" "two_fields p"
    "set (lp_elements p) = insert (mkBlock tlv_Fragment (blk_wire w)) (set (tag_fields (ls_options s) tags v))"
    by (rule packet_to_send [OF assms(2-4)])
  have other: "other_fields p = set (tag_fields (ls_options s) tags v)"
    using tag_fields_link [of _ "ls_options s" tags v] by (auto simp: other_fields_def link_types_def p(4))
  have ok: "o_allowFragmentation (ls_options s)" "mtu_ok t (ls_options s)" using assms(5) by (simp_all add: can_send_def)
  note send = doSendValPacket_holds [OF assms(1) p(1), of t]
  from p(2,3) ok show thesis
  proof (cases rule: ls_sendValPacket_ok)
    case failed
    have "\<not> has_room t (ls_options s) tags v w"
    proof
      assume "has_room t (ls_options s) tags v w"
      with failed(2) have "MAX_FRAG_OVERHEAD + fields_size (other_fields p) + 1 \<le> nat (frag_mtu t (ls_options s))"
        "length (blk_wire w) \<le> o_fragmenter_nMaxFragments (ls_options s)" unfolding other by (auto simp: has_room_def)
      from fragmentPacket_succeeds [OF p(2) this] failed(3) show False by blast
    qed
    with failed(1) send show thesis by (intro that(1)) simp_all
  next
    case (sent gs hs s')
    have "gs \<noteq> []" using header_fields_sent [OF p(2,4) sent(3)] by simp
    with sent(4) have "hs \<noteq> []" by auto
    with sent(1,2) list_all2_marked [OF sent(4)] send show thesis by (intro that(2)) auto
  qed
qed

section \<open>Packets that a sender does not send\<close>

text \<open>An LpPacket with a Nack field around an Interest violates the assertion of \<open>decodeInterest\<close>.\<close>

lemma nack_field_aborts:
  "blk_type netPkt = tlv_Interest \<Longrightarrow> lp_has tlv_Nack firstPkt \<Longrightarrow> decodeInterest opts rnd netPkt firstPkt = Undef AssertionFailed"
  by (simp add: decodeInterest_def assertion_def)

text \<open>An Interest that \<open>decodeInterest\<close> drops still goes to the forwarder, as a packet that is not set.\<close>

lemma dropped_interest_delivered:
  assumes "lp_wireEncode firstPkt = Inr wire" and "blk_type wire = tlv_LpPacket" and "blk_find 850 (lp_elements firstPkt) = Some b"
    and "bindR (elements_of (blk_value b)) (\<lambda>_. mkValHeader_of_block garbage b) = Inr v"
    and "blk_type netPkt = tlv_Interest" and "decodeInterest (ls_options s) rnd netPkt firstPkt = Def (Inr (None, c))"
  shows "\<exists>s'. deliver rnd garbage ann netPkt firstPkt s = Def (Inr (Some (mkValPacket v), s'))"
  unfolding deliver_def assms(1) sum.case using assms(2-6) by (simp add: setInterest_def)

section \<open>Examples\<close>

definition example_transport :: transport where
  "example_transport = \<lparr> t_mtu = 120, t_sendQueueLength = (\<lambda>_. 70000), t_sendQueueCapacity = 100000, t_now = 1 \<rparr>"

text \<open>The options that the stack helper sets.\<close>

definition example_options :: ls_options where
  "example_options = default_options\<lparr> o_allowFragmentation := True, o_allowReassembly := True, o_allowCongestionMarking := True \<rparr>"

definition example_valHeader :: val_header where
  "example_valHeader = mkValHeader ''A1'' ''0'' ''10'' ''RN'' 9"

lemma example_lengths:
  "length (wires (interest_elements (example_interest n))) < 100" "length (wires (data_elements (example_data b))) < 100"
  by (simp_all add: interest_elements_def example_interest_def mkSelectors_def selectors_empty_def opt_block_def name_block_def
      component_block_def selectors_block_def selectors_elements_def nni_block_def delegations_block_def
      nonce_bytes_def DEFAULT_INTEREST_LIFETIME_def data_elements_def metaInfo_block_def metaInfo_elements_def example_data_def
      length_tlv_bytes sizeOfVarNumber_def sizeOfNonNegativeInteger_def)

lemma example_packets_ok: "interest_ok (example_interest n)" "data_ok (example_data b)"
proof -
  show "interest_ok (example_interest n)"
    using example_lengths(1) [of n] by (simp add: interest_ok_def selectors_ok_def example_interest_def mkSelectors_def)
  show "data_ok (example_data b)"
    using example_lengths(2) [of b] example_signature unfolding data_ok_def by (simp add: example_data_def)
qed

lemma example_header_fits: "header_fits example_valHeader"
  by (simp add: header_fits_def example_valHeader_def mkValHeader_def)

lemma example_network_block:
  "network_block (interest_block (example_interest n))" "network_block (data_block (example_data b))"
  "length (blk_wire (interest_block (example_interest n))) \<le> 400" "length (blk_wire (data_block (example_data b))) \<le> 400"
  using length_tlv_bytes_le [of tlv_Interest "wires (interest_elements (example_interest n))"]
    length_tlv_bytes_le [of tlv_Data "wires (data_elements (example_data b))"] example_lengths(1) [of n] example_lengths(2) [of b]
  by (simp_all add: network_block_def interest_block_def data_block_def)

lemma example_room:
  assumes "tag_congestionMark tags = None" and "\<not> tag_nonDiscovery tags" and "length (blk_wire w) \<le> 400"
  shows "has_room example_transport example_options tags example_valHeader w"
proof -
  let ?hop = "mkBlock tlv_HopCountTag (be_bytes 8 (unat (case tag_hopCount tags of Some h \<Rightarrow> h | None \<Rightarrow> 0)))"
  let ?head = "mkBlock tlv_ValHeader (header_value example_valHeader)"
  have fields: "set (tag_fields example_options tags example_valHeader) = {?hop, ?head}"
    using assms(1,2) by (simp add: tag_fields_def opt_block_def example_options_def default_options_def)
  have "length (blk_wire ?hop) \<le> 12" "length (blk_wire ?head) \<le> 32"
    by (simp_all add: length_tlv_bytes lp_types sizeOfVarNumber_def header_value_eq example_valHeader_def mkValHeader_def sizeOfNonNegativeInteger_def)
  then have "fields_size {?hop, ?head} \<le> 44"
    using fields_size_insert_le [of "{?head}" ?hop] by (simp add: fields_size_def)
  with assms(3) show ?thesis unfolding has_room_def fields
    by (simp add: example_transport_def frag_mtu_def CONGESTION_MARK_SIZE_def MAX_FRAG_OVERHEAD_def
        example_options_def default_options_def)
qed

lemma example_can:
  "can_send example_transport (mkValLinkService example_options)"
  "can_receive example_options ep m (mkValLinkService example_options)"
  by (simp_all add: can_send_def can_receive_def mkValLinkService_def example_options_def default_options_def mtu_ok_def
      example_transport_def CONGESTION_MARK_SIZE_def mkReassembler_def)

lemma example_sent:
  assumes "holds vp example_valHeader w tags" and "network_block w" and "length (blk_wire w) \<le> 400"
    and "tag_prefixAnnouncement tags = None" and "tag_congestionMark tags = None" and "\<not> tag_nonDiscovery tags"
  obtains ws s' where "doSendValPacket example_transport vp (mkValLinkService example_options) = Def (Inr (ws, s'))" and "ws \<noteq> []"
  using assms(1,2) example_header_fits assms(4) example_can(1)
proof (cases rule: doSendValPacket_cases)
  case failed
  with example_room [OF assms(5,6,3)] show ?thesis by (simp add: mkValLinkService_def)
next
  case (sent hs s')
  then show ?thesis using that by simp
qed

section \<open>Properties\<close>







end
