(* ===== verification/Ndn_Order.thy ===== *)
theory Ndn_Order
  imports Ndn_Wire "HOL-Library.Product_Lexorder" "HOL-Library.List_Lexorder"
begin

text \<open>
  The canonical order of names (\<open>src/ndn-cxx/ndn-cxx/name.cpp\<close>, \<open>name-component.cpp\<close>) and the successor of a
  name (\<open>impl/name-component-types.hpp\<close>). \<open>Name::compare\<close> is shown to be the lexicographic order of the
  library over the keys type, length, value of the components, and the successor to be the next
  component in that order, so that the names under a prefix lie between the prefix and its successor.
\<close>

section \<open>Model\<close>

text \<open>The loop of \<open>getSuccessorImpl\<close> over the bytes from the last one; whether all of them overflowed.\<close>

fun increment_rev :: "byte list \<Rightarrow> bool \<times> byte list" where
  "increment_rev [] = (True, [])"
| "increment_rev (b # bs) =
     (let newValue = b + 1 in
      if newValue = 0 then (case increment_rev bs of (isOverflow, bs') \<Rightarrow> (isOverflow, newValue # bs')) else (False, newValue # bs))"

definition getSuccessorImpl :: "byte list \<Rightarrow> bool \<times> byte list" where
  "getSuccessorImpl value =
     (case increment_rev (rev value) of (isOverflow, r) \<Rightarrow> (isOverflow, rev r @ (if isOverflow then [0] else [])))"

definition isSha256Type :: "u32 \<Rightarrow> bool" where
  "isSha256Type type \<longleftrightarrow> type = tlv_ImplicitSha256Digest \<or> type = tlv_ParametersDigest"

definition getMinValue :: "u32 \<Rightarrow> byte list" where
  "getMinValue type = (if isSha256Type type then replicate 32 0 else [])"

definition component_getSuccessor :: "component \<Rightarrow> component" where
  "component_getSuccessor c =
     (case getSuccessorImpl (snd c) of (isExtended, value) \<Rightarrow>
        if isSha256Type (fst c) \<and> isExtended then (fst c + 1, getMinValue (fst c + 1)) else (fst c, value))"

definition name_getSuccessor :: "name \<Rightarrow> name" where
  "name_getSuccessor n =
     (if n = [] then [(tlv_ImplicitSha256Digest, replicate 32 0)]
      else butlast n @ [component_getSuccessor (last n)])"

definition isImplicitSha256Digest :: "component \<Rightarrow> bool" where
  "isImplicitSha256Digest c \<longleftrightarrow> fst c = tlv_ImplicitSha256Digest \<and> length (snd c) = 32"

section \<open>The order\<close>

definition component_key :: "component \<Rightarrow> u32 \<times> nat \<times> byte list" where
  "component_key c = (fst c, length (snd c), snd c)"

definition name_key :: "name \<Rightarrow> (u32 \<times> nat \<times> byte list) list" where
  "name_key n = map component_key n"

definition component_ok :: "component \<Rightarrow> bool" where
  "component_ok c \<longleftrightarrow> length (snd c) < 2 ^ 64"

abbreviation name_ok :: "name \<Rightarrow> bool" where
  "name_ok n \<equiv> list_all component_ok n"

lemma component_key_eq [simp]: "component_key a = component_key b \<longleftrightarrow> a = b"
  by (auto simp: component_key_def prod_eq_iff)

lemma name_key_eq [simp]: "name_key a = name_key b \<longleftrightarrow> a = b"
  by (simp add: name_key_def inj_map_eq_map inj_def)

lemma memcmp_order:
  "length xs = length ys \<Longrightarrow> memcmp xs ys < 0 \<longleftrightarrow> xs < ys"
  "length xs = length ys \<Longrightarrow> memcmp xs ys = 0 \<longleftrightarrow> xs = ys"
  by (induction xs ys rule: memcmp.induct) auto

lemma component_compare_order:
  assumes "component_ok a" and "component_ok b"
  shows "component_compare_wire a b < 0 \<longleftrightarrow> component_key a < component_key b"
    and "component_compare_wire a b = 0 \<longleftrightarrow> a = b"
proof -
  have "length (snd a) < 2 ^ 64" "length (snd b) < 2 ^ 64" using assms by (simp_all add: component_ok_def)
  note eq = component_compare_wire_eq [OF this]
  show "component_compare_wire a b < 0 \<longleftrightarrow> component_key a < component_key b"
    by (auto simp: eq component_key_def less_prod_def' memcmp_order sgn_if word_less_def split: if_splits)
  show "component_compare_wire a b = 0 \<longleftrightarrow> a = b"
    by (auto simp: eq memcmp_order prod_eq_iff sgn_if word_uint_eq_iff split: if_splits)
qed

lemma name_compare_order:
  assumes "name_ok a" and "name_ok b"
  shows "(name_compare_loop a b < 0 \<longleftrightarrow> name_key a < name_key b) \<and> (name_compare_loop a b = 0 \<longleftrightarrow> a = b)"
  using assms
proof (induction a arbitrary: b)
  case Nil
  then show ?case by (cases b) (auto simp: name_key_def)
next
  case (Cons x xs)
  show ?case
  proof (cases b)
    case (Cons y ys)
    then show ?thesis using Cons.IH [of ys] Cons.prems component_compare_order [of x y] by (auto simp: Let_def name_key_def)
  qed (simp add: name_key_def)
qed

lemma compare_greater:
  "component_ok a \<Longrightarrow> component_ok b \<Longrightarrow> 0 < component_compare_wire a b \<longleftrightarrow> component_key b < component_key a"
  "name_ok m \<Longrightarrow> name_ok n \<Longrightarrow> 0 < name_compare_loop m n \<longleftrightarrow> name_key n < name_key m"
  using component_compare_order [of a b] name_compare_order [of m n]
  by (metis component_key_eq linorder_less_linear order_less_asym, metis name_key_eq linorder_less_linear order_less_asym)

section \<open>The successor\<close>

lemma bytes_order:
  assumes "length xs = length ys"
  shows "xs < ys \<longleftrightarrow> be_nat xs < be_nat ys"
proof -
  have "memcmp xs ys = sgn (int (be_nat xs) - int (be_nat ys))"
    using memcmp_be_bytes [OF be_nat_bound [of xs] be_nat_bound [of ys, folded assms]] be_bytes_be_nat [of xs] be_bytes_be_nat [of ys] assms
    by simp
  then show ?thesis using memcmp_order(1) [OF assms] by (auto simp: sgn_if split: if_splits)
qed

lemma be_nat_snoc: "be_nat (xs @ [b]) = be_nat xs * 256 + unat b"
  by (induction xs) (simp_all add: algebra_simps)

lemma byte_successor: "(b :: byte) + 1 = 0 \<Longrightarrow> unat b = 255" "(b :: byte) + 1 \<noteq> 0 \<Longrightarrow> unat (b + 1) = unat b + 1"
proof -
  have "unat (b + 1) = (unat b + 1) mod 256" by (simp add: unat_word_ariths)
  moreover have "unat b + 1 < 256 \<or> unat b = 255" using unat_u8_bound [of b] by linarith
  ultimately have "unat (b + 1) = (if unat b = 255 then 0 else unat b + 1)" by auto
  then show "b + 1 = 0 \<Longrightarrow> unat b = 255" "b + 1 \<noteq> 0 \<Longrightarrow> unat (b + 1) = unat b + 1"
    by (auto simp: unat_eq_0 split: if_splits)
qed

lemma increment_rev_ok:
  assumes "increment_rev bs = (ov, r)"
  shows "length r = length bs \<and>
    (if ov then be_nat (rev bs) + 1 = 256 ^ length bs \<and> be_nat (rev r) = 0 else be_nat (rev r) = be_nat (rev bs) + 1)"
  using assms
proof (induction bs arbitrary: r)
  case Nil
  then show ?case by simp
next
  case (Cons b bs)
  show ?case
  proof (cases "b + 1 = 0")
    case True
    then obtain r' where r': "increment_rev bs = (ov, r')" "r = 0 # r'" using Cons.prems by (auto simp: Let_def split: prod.splits)
    from Cons.IH [OF r'(1)] byte_successor(1) [OF True] r'(2) show ?thesis by (auto simp: be_nat_snoc)
  next
    case False
    then show ?thesis using Cons.prems byte_successor(2) [OF False] by (auto simp: Let_def be_nat_snoc)
  qed
qed

lemma getSuccessorImpl_ok:
  assumes "getSuccessorImpl v = (ov, v')"
  shows "if ov then length v' = length v + 1 \<and> be_nat v' = 0 \<and> be_nat v + 1 = 256 ^ length v
    else length v' = length v \<and> be_nat v' = be_nat v + 1"
  using assms increment_rev_ok [of "rev v"]
  by (auto simp: getSuccessorImpl_def be_nat_snoc split: prod.splits if_splits)

lemma successor_greater: "component_key c < component_key (component_getSuccessor c)"
proof -
  obtain ov v where s: "getSuccessorImpl (snd c) = (ov, v)" by fastforce
  from getSuccessorImpl_ok [OF s] bytes_order [of "snd c" v] s show ?thesis
    by (auto simp: component_getSuccessor_def component_key_def less_prod_def' isSha256Type_def tlv_ImplicitSha256Digest_def split: if_splits)
qed

lemma successor_next:
  assumes "component_key c \<le> component_key d" and "component_key d < component_key (component_getSuccessor c)" and "\<not> isSha256Type (fst c)"
  shows "d = c"
proof (rule ccontr)
  assume "d \<noteq> c"
  with assms(1) have above: "component_key c < component_key d" by (auto simp: le_less)
  obtain ov v where s: "getSuccessorImpl (snd c) = (ov, v)" by fastforce
  have succ: "component_getSuccessor c = (fst c, v)" using s assms(3) by (simp add: component_getSuccessor_def)
  have type: "fst d = fst c" using above assms(2) by (auto simp: succ component_key_def less_prod_def')
  note ok = getSuccessorImpl_ok [OF s]
  have len: "length (snd d) = length (snd c)"
    using above assms(2) type ok bytes_order [of "snd d" v]
    by (auto simp: succ component_key_def less_prod_def' split: if_splits)
  have "be_nat (snd d) = be_nat (snd c)"
    using above assms(2) type ok len bytes_order [of "snd d" v] bytes_order [of "snd c" "snd d"] be_nat_bound [of "snd d"]
    by (auto simp: succ component_key_def less_prod_def' split: if_splits)
  then have "snd d = snd c" using len be_bytes_be_nat [of "snd c"] be_bytes_be_nat [of "snd d"] by simp
  with type \<open>d \<noteq> c\<close> show False by (simp add: prod_eq_iff)
qed

lemma append_less_append [simp]: "(xs :: 'a :: linorder list) @ ys < xs @ zs \<longleftrightarrow> ys < zs"
  by (induction xs) simp_all

lemma append_le_append [simp]: "(xs :: 'a :: linorder list) @ ys \<le> xs @ zs \<longleftrightarrow> ys \<le> zs"
  by (induction xs) simp_all

lemma Nil_le_list [simp]: "[] \<le> (xs :: 'a :: linorder list)"
  by (cases xs) (simp_all add: less_imp_le)

lemma name_key_append [simp]: "name_key (a @ b) = name_key a @ name_key b" "name_key [] = []" "name_key (c # n) = component_key c # name_key n"
  by (simp_all add: name_key_def)

lemma prefix_le: "name_key p \<le> name_key (p @ r)"
  using append_le_append [of "name_key p" "[]" "name_key r"] by simp

lemma under_prefix_less: "p \<noteq> [] \<Longrightarrow> name_key (p @ r) < name_key (name_getSuccessor p)"
proof -
  assume "p \<noteq> []"
  then obtain q c where p: "p = q @ [c]" by (metis append_butlast_last_id)
  then show ?thesis using successor_greater [of c] by (simp add: name_getSuccessor_def)
qed

lemma between_prefix:
  assumes "p \<noteq> []" and "\<not> isSha256Type (fst (last p))" and "name_key p \<le> name_key n" and "name_key n < name_key (name_getSuccessor p)"
  shows "\<exists>r. n = p @ r"
proof -
  obtain q c where p: "p = q @ [c]" using assms(1) by (metis append_butlast_last_id)
  have "\<not> isSha256Type (fst c)" "name_key (q @ [c]) \<le> name_key n" "name_key n < name_key (q @ [component_getSuccessor c])"
    using assms(2-4) p by (simp_all add: name_getSuccessor_def)
  then show ?thesis unfolding p
  proof (induction q arbitrary: n)
    case Nil
    then obtain d n' where n: "n = d # n'" by (cases n) auto
    with Nil have "component_key c \<le> component_key d" "component_key d < component_key (component_getSuccessor c)" by auto
    from successor_next [OF this Nil(1)] n show ?case by simp
  next
    case (Cons a q)
    then obtain d n' where n: "n = d # n'" by (cases n) auto
    with Cons.prems have "a = d" by (auto simp: order.strict_iff_order)
    with Cons.IH [of n'] Cons.prems n show ?case by auto
  qed
qed

end
