(* ===== verification/Nfd_Name_Tree.thy ===== *)
theory Nfd_Name_Tree
  imports Ndn_Order "HOL-Library.AList" "HOL-Library.Sublist"
begin

text \<open>
  The name tree (\<open>src/NFD/daemon/table/name-tree.cpp\<close>, \<open>name-tree-entry.cpp\<close>, \<open>name-tree-iterator.cpp\<close>), the index that the FIB, the PIT
  and the other tables of NFD share. The tree is the association list of its nodes under their names; the
  hash table that finds a node by its name is that list's lookup. The parent of a node is the node of its name
  without the last component, as \<open>lookup\<close> sets it. A node holds an optional FIB entry, its PIT entries (by
  reference, in the order of the vector) and a flag for entries of the other tables.
\<close>

section \<open>Model\<close>

definition getMaxDepth :: nat where "getMaxDepth = 32"

record ('f, 'p) nte =
  nt_fib :: "'f option"
  nt_pits :: "'p list"
  nt_other :: bool

type_synonym ('f, 'p) name_tree = "(name \<times> ('f, 'p) nte) list"

definition mkNte :: "('f, 'p) nte" where
  "mkNte = \<lparr> nt_fib = None, nt_pits = [], nt_other = False \<rparr>"

definition hasTableEntries :: "('f, 'p) nte \<Rightarrow> bool" where
  "hasTableEntries e \<longleftrightarrow> nt_fib e \<noteq> None \<or> nt_pits e \<noteq> [] \<or> nt_other e"

definition hasChildren :: "name \<Rightarrow> ('f, 'p) name_tree \<Rightarrow> bool" where
  "hasChildren n t = list_ex (\<lambda>(m, _). m \<noteq> [] \<and> butlast m = n) t"

definition nte_isEmpty :: "name \<Rightarrow> ('f, 'p) nte \<Rightarrow> ('f, 'p) name_tree \<Rightarrow> bool" where
  "nte_isEmpty n e t \<longleftrightarrow> \<not> hasChildren n t \<and> \<not> hasTableEntries e"

definition getParent :: "name \<Rightarrow> ('f, 'p) name_tree \<Rightarrow> name option" where
  "getParent n t = (if n \<noteq> [] \<and> map_of t (butlast n) \<noteq> None then Some (butlast n) else None)"

definition ensure_node :: "name \<Rightarrow> ('f, 'p) name_tree \<Rightarrow> ('f, 'p) name_tree" where
  "ensure_node n t = (if map_of t n = None then AList.update n mkNte t else t)"

text \<open>\<open>lookup(name, prefixLen)\<close>: the node of the prefix, created with the missing nodes above it.\<close>

definition nt_lookup :: "name \<Rightarrow> nat \<Rightarrow> ('f, 'p) name_tree \<Rightarrow> ('f, 'p) name_tree outcome" where
  "nt_lookup n prefixLen t =
     assertion (prefixLen \<le> length n) (assertion (prefixLen \<le> getMaxDepth)
       (Def (fold (\<lambda>i. ensure_node (take i n)) [0..<Suc prefixLen] t)))"

function nt_eraseIfEmpty :: "bool \<Rightarrow> name \<Rightarrow> ('f, 'p) name_tree \<Rightarrow> ('f, 'p) name_tree" where
  "nt_eraseIfEmpty canEraseAncestors n t =
     (case map_of t n of None \<Rightarrow> t
      | Some e \<Rightarrow>
          if \<not> nte_isEmpty n e t then t
          else if canEraseAncestors \<and> n \<noteq> [] then nt_eraseIfEmpty canEraseAncestors (butlast n) (AList.delete n t)
          else AList.delete n t)"
  by pat_completeness auto
termination
  by (relation "measure (\<lambda>(_, n, _). length n)") auto

declare nt_eraseIfEmpty.simps [simp del]

definition nt_findExactMatch :: "name \<Rightarrow> nat \<Rightarrow> ('f, 'p) name_tree \<Rightarrow> name option" where
  "nt_findExactMatch n prefixLen t =
     (let k = min (length n) prefixLen in
      if k > getMaxDepth then None else if map_of t (take k n) \<noteq> None then Some (take k n) else None)"

text \<open>The selector is applied to the node; \<open>selects\<close> is false where there is none.\<close>

definition selects :: "(('f, 'p) nte \<Rightarrow> bool) \<Rightarrow> ('f, 'p) name_tree \<Rightarrow> name \<Rightarrow> bool" where
  "selects sel t n = (case map_of t n of None \<Rightarrow> False | Some e \<Rightarrow> sel e)"

primrec lpm_loop :: "(('f, 'p) nte \<Rightarrow> bool) \<Rightarrow> ('f, 'p) name_tree \<Rightarrow> name \<Rightarrow> nat \<Rightarrow> name option" where
  "lpm_loop sel t n 0 = (if selects sel t [] then Some [] else None)"
| "lpm_loop sel t n (Suc i) = (if selects sel t (take (Suc i) n) then Some (take (Suc i) n) else lpm_loop sel t n i)"

definition findLongestPrefixMatch :: "(('f, 'p) nte \<Rightarrow> bool) \<Rightarrow> name \<Rightarrow> ('f, 'p) name_tree \<Rightarrow> name option" where
  "findLongestPrefixMatch sel n t = lpm_loop sel t n (min (length n) getMaxDepth)"

text \<open>The overload for a node walks up the parents.\<close>

function lpm_from_node :: "(('f, 'p) nte \<Rightarrow> bool) \<Rightarrow> name \<Rightarrow> ('f, 'p) name_tree \<Rightarrow> name option" where
  "lpm_from_node sel n t =
     (if selects sel t n then Some n
      else (case getParent n t of None \<Rightarrow> None | Some m \<Rightarrow> lpm_from_node sel m t))"
  by pat_completeness auto
termination
  by (relation "measure (\<lambda>(_, n, _). length n)") (auto simp: getParent_def split: if_splits)

declare lpm_from_node.simps [simp del]

text \<open>
  The overload for a PIT entry with the name \<open>n\<close>, attached to the node \<open>at\<close>: when the entry's name is longer than
  the node's, existing deeper nodes are tried first.
\<close>

fun descend :: "('f, 'p) name_tree \<Rightarrow> name \<Rightarrow> nat list \<Rightarrow> name \<Rightarrow> name" where
  "descend t n [] at = at"
| "descend t n (i # is) at = (case nt_findExactMatch n i t of None \<Rightarrow> at | Some m \<Rightarrow> descend t n is m)"

definition lpm_pit :: "(('f, 'p) nte \<Rightarrow> bool) \<Rightarrow> name \<Rightarrow> name \<Rightarrow> ('f, 'p) name_tree \<Rightarrow> name option" where
  "lpm_pit sel n at t =
     (let depth = min (length n) getMaxDepth in
      lpm_from_node sel (if length at < length n then descend t n [length at + 1..<Suc depth] at else at) t)"

text \<open>\<open>findAllMatches\<close>: the iterator starts at the longest match and goes up the parents.\<close>

function matches_above :: "(('f, 'p) nte \<Rightarrow> bool) \<Rightarrow> name \<Rightarrow> ('f, 'p) name_tree \<Rightarrow> name list" where
  "matches_above sel n t =
     (case getParent n t of None \<Rightarrow> []
      | Some m \<Rightarrow> if selects sel t m then m # matches_above sel m t else matches_above sel m t)"
  by pat_completeness auto
termination
  by (relation "measure (\<lambda>(_, n, _). length n)") (auto simp: getParent_def split: if_splits)

declare matches_above.simps [simp del]

definition findAllMatches :: "(('f, 'p) nte \<Rightarrow> bool) \<Rightarrow> name \<Rightarrow> ('f, 'p) name_tree \<Rightarrow> name list" where
  "findAllMatches sel n t =
     (case findLongestPrefixMatch sel n t of None \<Rightarrow> [] | Some m \<Rightarrow> m # matches_above sel m t)"

section \<open>Well-formed trees\<close>

definition nt_ok :: "('f, 'p) name_tree \<Rightarrow> bool" where
  "nt_ok t \<longleftrightarrow> distinct (map fst t) \<and> (\<forall>n\<in>dom (map_of t). length n \<le> getMaxDepth) \<and>
     (\<forall>n\<in>dom (map_of t). n \<noteq> [] \<longrightarrow> butlast n \<in> dom (map_of t))"

lemma nt_ok_empty [simp]: "nt_ok []"
  by (simp add: nt_ok_def)

lemma nt_ok_up: "nt_ok t \<Longrightarrow> map_of t n \<noteq> None \<Longrightarrow> n \<noteq> [] \<Longrightarrow> map_of t (butlast n) \<noteq> None"
  unfolding nt_ok_def domIff [symmetric] by blast

lemma nt_ok_parent: "nt_ok t \<Longrightarrow> map_of t n = Some e \<Longrightarrow> getParent n t = (if n = [] then None else Some (butlast n))"
  using nt_ok_up [of t n] by (simp add: getParent_def)

lemma nt_ok_prefixes:
  assumes "nt_ok t" and "map_of t n \<noteq> None"
  shows "map_of t (take k n) \<noteq> None"
proof (induction "length n - k" arbitrary: k)
  case 0
  with assms(2) show ?case by simp
next
  case (Suc d)
  then have "map_of t (take (Suc k) n) \<noteq> None" by simp
  moreover have "butlast (take (Suc k) n) = take k n" "take (Suc k) n \<noteq> []" using Suc(2) by (auto simp: butlast_take)
  ultimately show ?case using nt_ok_up [OF assms(1), of "take (Suc k) n"] by simp
qed

lemma nt_ok_update:
  assumes "nt_ok t" and "n = [] \<or> map_of t (butlast n) \<noteq> None" and "length n \<le> getMaxDepth"
  shows "nt_ok (AList.update n e t)"
  using assms by (auto simp: nt_ok_def distinct_update update_conv')

text \<open>What \<open>lookup\<close> makes of the tree: the prefixes are there, every other node is as it was.\<close>

lemma ensure_node_get: "map_of (ensure_node n t) = (\<lambda>m. if m = n \<and> map_of t n = None then Some mkNte else map_of t m)"
  by (auto simp: ensure_node_def update_conv')

lemma ensure_fold:
  assumes "nt_ok t" and "k \<le> length n" and "k \<le> getMaxDepth"
  shows "nt_ok (fold (\<lambda>i. ensure_node (take i n)) [0..<Suc k] t) \<and>
    map_of (fold (\<lambda>i. ensure_node (take i n)) [0..<Suc k] t) =
      (\<lambda>m. if prefix m (take k n) \<and> map_of t m = None then Some mkNte else map_of t m)"
  using assms(2,3)
proof (induction k)
  case 0
  then show ?case using assms(1) by (auto simp: ensure_node_def nt_ok_update update_conv' fun_eq_iff)
next
  case (Suc k)
  define t' where "t' = fold (\<lambda>i. ensure_node (take i n)) [0..<Suc k] t"
  have IH: "nt_ok t'" "map_of t' = (\<lambda>m. if prefix m (take k n) \<and> map_of t m = None then Some mkNte else map_of t m)"
    using Suc by (simp_all add: t'_def)
  have step: "fold (\<lambda>i. ensure_node (take i n)) [0..<Suc (Suc k)] t = ensure_node (take (Suc k) n) t'" by (simp add: t'_def)
  have up: "butlast (take (Suc k) n) = take k n" using Suc.prems by (simp add: butlast_take)
  have "map_of t' (butlast (take (Suc k) n)) \<noteq> None" unfolding up IH(2) by simp
  then have "nt_ok (ensure_node (take (Suc k) n) t')"
    using IH(1) Suc.prems by (simp add: ensure_node_def nt_ok_update)
  moreover have "prefix m (take (Suc k) n) \<longleftrightarrow> m = take (Suc k) n \<or> prefix m (take k n)" for m
    using Suc.prems by (simp add: take_Suc_conv_app_nth)
  ultimately show ?case unfolding step by (auto simp: ensure_node_get IH(2) fun_eq_iff)
qed

lemma nt_lookup_ok:
  assumes "nt_ok t" and "k \<le> length n" and "k \<le> getMaxDepth"
  shows "\<exists>t'. nt_lookup n k t = Def t' \<and> nt_ok t' \<and>
    map_of t' = (\<lambda>m. if prefix m (take k n) \<and> map_of t m = None then Some mkNte else map_of t m)"
  using ensure_fold [OF assms] assms(2,3) by (auto simp: nt_lookup_def assertion_def simp del: upt_Suc)

lemma hasChildren_iff: "hasChildren n t \<longleftrightarrow> (\<exists>m\<in>dom (map_of t). m \<noteq> [] \<and> butlast m = n)"
  by (force simp: hasChildren_def list_ex_iff dom_map_of_conv_image_fst)

text \<open>Erasing keeps the tree well formed and removes nothing but nodes without table entries.\<close>

definition pruned :: "('f, 'p) name_tree \<Rightarrow> ('f, 'p) name_tree \<Rightarrow> bool" where
  "pruned t t' \<longleftrightarrow> (nt_ok t \<longrightarrow> nt_ok t') \<and> map_of t' \<subseteq>\<^sub>m map_of t \<and>
     (\<forall>m e. map_of t m = Some e \<and> hasTableEntries e \<longrightarrow> map_of t' m = Some e)"

lemma pruned_refl: "pruned t t"
  by (simp add: pruned_def)

lemma pruned_trans: "pruned t t' \<Longrightarrow> pruned t' t'' \<Longrightarrow> pruned t t''"
  unfolding pruned_def by (meson map_le_trans)

lemma pruned_delete:
  assumes "map_of t n = Some e" and "nte_isEmpty n e t"
  shows "pruned t (AList.delete n t)"
proof -
  have "\<forall>m\<in>dom (map_of t). m \<noteq> [] \<longrightarrow> butlast m \<noteq> n" using assms(2) unfolding nte_isEmpty_def hasChildren_iff by blast
  then have "nt_ok t \<longrightarrow> nt_ok (AList.delete n t)" by (simp add: nt_ok_def distinct_delete delete_conv')
  moreover have "\<not> hasTableEntries e" using assms(2) by (simp add: nte_isEmpty_def)
  ultimately show ?thesis using assms(1) by (auto simp: pruned_def delete_conv' map_le_def)
qed

lemma nt_eraseIfEmpty_pruned:
  fixes t :: "('f, 'p) name_tree"
  shows "pruned t (nt_eraseIfEmpty up n t)"
proof (induction "length n" arbitrary: n t)
  case 0
  then show ?case by (subst nt_eraseIfEmpty.simps) (auto simp: pruned_refl pruned_delete split: option.split)
next
  case (Suc k)
  then have "k = length (butlast n)" by simp
  then have IH: "pruned t' (nt_eraseIfEmpty up (butlast n) t')" for t' :: "('f, 'p) name_tree" using Suc.hyps(1) by blast
  show ?case
  proof (cases "\<exists>e. map_of t n = Some e \<and> nte_isEmpty n e t")
    case True
    then obtain e where e: "map_of t n = Some e" "nte_isEmpty n e t" by blast
    from pruned_delete [OF this] IH [of "AList.delete n t"] show ?thesis
      by (subst nt_eraseIfEmpty.simps, cases up) (auto simp: e intro: pruned_trans)
  next
    case False
    then show ?thesis by (subst nt_eraseIfEmpty.simps) (auto simp: pruned_refl split: option.split)
  qed
qed

section \<open>Longest prefix match\<close>

text \<open>The specification: the longest prefix of the name whose node is selected.\<close>

definition is_longest_match :: "(('f, 'p) nte \<Rightarrow> bool) \<Rightarrow> ('f, 'p) name_tree \<Rightarrow> name \<Rightarrow> name \<Rightarrow> bool" where
  "is_longest_match sel t n m \<longleftrightarrow> prefix m n \<and> selects sel t m \<and> (\<forall>m'. prefix m' n \<and> selects sel t m' \<longrightarrow> prefix m' m)"

lemma selects_node: "selects sel t n \<Longrightarrow> map_of t n \<noteq> None"
  by (cases "map_of t n") (simp_all add: selects_def)

lemma selects_depth: "nt_ok t \<Longrightarrow> selects sel t n \<Longrightarrow> length n \<le> getMaxDepth"
  by (auto simp: nt_ok_def dest!: selects_node)

lemma prefix_take_iff: "prefix m n \<longleftrightarrow> (\<exists>i\<le>length n. m = take i n)"
proof
  assume m: "prefix m n"
  then have "m = take (length m) n" by (auto simp: prefix_def)
  with prefix_length_le [OF m] show "\<exists>i\<le>length n. m = take i n" by blast
qed (auto simp: take_is_prefix)

lemma lpm_loop_Some:
  "lpm_loop sel t n k = Some m \<Longrightarrow> \<exists>i\<le>k. m = take i n \<and> selects sel t m \<and> (\<forall>j. i < j \<and> j \<le> k \<longrightarrow> \<not> selects sel t (take j n))"
proof (induction k)
  case 0
  then show ?case by (auto split: if_splits)
next
  case (Suc k)
  show ?case
  proof (cases "selects sel t (take (Suc k) n)")
    case True
    with Suc.prems show ?thesis by (intro exI [of _ "Suc k"]) auto
  next
    case False
    with Suc show ?thesis by (auto simp: le_Suc_eq)
  qed
qed

lemma lpm_loop_None: "lpm_loop sel t n k = None \<longleftrightarrow> (\<forall>i\<le>k. \<not> selects sel t (take i n))"
  by (induction k) (auto simp: le_Suc_eq)

lemma findLongestPrefixMatch_spec:
  assumes "nt_ok t"
  shows "findLongestPrefixMatch sel n t = Some m \<longleftrightarrow> is_longest_match sel t n m"
    and "findLongestPrefixMatch sel n t = None \<longleftrightarrow> (\<forall>m. prefix m n \<longrightarrow> \<not> selects sel t m)"
proof -
  let ?d = "min (length n) getMaxDepth"
  have short: "i \<le> ?d" if "selects sel t (take i n)" "i \<le> length n" for i
    using selects_depth [OF assms that(1)] that(2) by simp
  show none: "findLongestPrefixMatch sel n t = None \<longleftrightarrow> (\<forall>m. prefix m n \<longrightarrow> \<not> selects sel t m)"
    unfolding findLongestPrefixMatch_def lpm_loop_None prefix_take_iff using short by auto
  have longest: "is_longest_match sel t n m" if "findLongestPrefixMatch sel n t = Some m" for m
  proof -
    from lpm_loop_Some [OF that [unfolded findLongestPrefixMatch_def]] obtain i where
      i: "i \<le> ?d" "m = take i n" "selects sel t m" "\<forall>j. i < j \<and> j \<le> ?d \<longrightarrow> \<not> selects sel t (take j n)" by blast
    have "prefix (take j n) m" if "selects sel t (take j n)" "j \<le> length n" for j
    proof -
      have "j \<le> i" using short [OF that] i(4) that(1) by (meson not_le)
      then show ?thesis using i(2) by (metis take_is_prefix take_take min.absorb1)
    qed
    with i show ?thesis by (auto simp: is_longest_match_def prefix_take_iff [of _ n])
  qed
  show "findLongestPrefixMatch sel n t = Some m \<longleftrightarrow> is_longest_match sel t n m"
  proof
    assume m: "is_longest_match sel t n m"
    then obtain m' where m': "findLongestPrefixMatch sel n t = Some m'" using none by (auto simp: is_longest_match_def)
    with longest [OF m'] m have "m = m'" by (auto simp: is_longest_match_def intro: prefix_order.antisym)
    with m' show "findLongestPrefixMatch sel n t = Some m" by simp
  qed (rule longest)
qed

text \<open>The walk over the parents is the loop over the prefix lengths.\<close>

lemma parent_take:
  assumes "nt_ok t" and "map_of t (take k n) \<noteq> None" and "k \<le> length n"
  shows "getParent (take k n) t = (if k = 0 then None else Some (take (k - 1) n))"
proof -
  obtain e where "map_of t (take k n) = Some e" using assms(2) by blast
  from nt_ok_parent [OF assms(1) this] assms(3) show ?thesis by (cases k) (auto simp: butlast_take)
qed

lemma lpm_from_node_loop:
  assumes "nt_ok t" and "map_of t (take k n) \<noteq> None" and "k \<le> length n"
  shows "lpm_from_node sel (take k n) t = lpm_loop sel t n k"
  using assms(2,3)
proof (induction k)
  case 0
  then show ?case using parent_take [OF assms(1), of 0 n] by (simp add: lpm_from_node.simps [of sel "[]"])
next
  case (Suc k)
  have "map_of t (take k n) \<noteq> None" using nt_ok_prefixes [OF assms(1) Suc.prems(1), of k] Suc.prems(2) by (simp add: min_def)
  with Suc parent_take [OF assms(1) Suc.prems] show ?case by (simp add: lpm_from_node.simps [of sel "take (Suc k) n"])
qed

lemma matches_above_filter:
  assumes "nt_ok t" and "map_of t (take k n) \<noteq> None" and "k \<le> length n"
  shows "matches_above sel (take k n) t = filter (selects sel t) (map (\<lambda>i. take i n) (rev [0..<k]))"
  using assms(2,3)
proof (induction k)
  case 0
  then show ?case using parent_take [OF assms(1), of 0 n] by (simp add: matches_above.simps [of sel "[]"])
next
  case (Suc k)
  have "map_of t (take k n) \<noteq> None" using nt_ok_prefixes [OF assms(1) Suc.prems(1), of k] Suc.prems(2) by (simp add: min_def)
  with Suc parent_take [OF assms(1) Suc.prems] show ?case by (simp add: matches_above.simps [of sel "take (Suc k) n"])
qed

lemma filter_prefixes_none:
  "\<forall>j. i < j \<and> j \<le> d \<longrightarrow> \<not> P (take j n) \<Longrightarrow> i \<le> d \<Longrightarrow>
     filter P (map (\<lambda>i. take i n) (rev [0..<Suc d])) = filter P (map (\<lambda>i. take i n) (rev [0..<Suc i]))"
proof (induction d)
  case (Suc d)
  then show ?case by (cases "i = Suc d") auto
qed simp

lemma findAllMatches_eq:
  assumes "nt_ok t"
  shows "findAllMatches sel n t = filter (selects sel t) (map (\<lambda>i. take i n) (rev [0..<Suc (min (length n) getMaxDepth)]))"
proof (cases "findLongestPrefixMatch sel n t")
  case None
  then have "\<forall>i\<le>min (length n) getMaxDepth. \<not> selects sel t (take i n)" by (simp add: findLongestPrefixMatch_def lpm_loop_None)
  then have "filter (selects sel t) (map (\<lambda>i. take i n) (rev [0..<Suc (min (length n) getMaxDepth)])) = []"
    by (simp add: filter_empty_conv less_Suc_eq_le del: upt_Suc)
  with None show ?thesis by (simp add: findAllMatches_def)
next
  case (Some m)
  let ?d = "min (length n) getMaxDepth"
  from lpm_loop_Some [OF Some [unfolded findLongestPrefixMatch_def]] obtain i where
    i: "i \<le> ?d" "m = take i n" "selects sel t m" "\<forall>j. i < j \<and> j \<le> ?d \<longrightarrow> \<not> selects sel t (take j n)" by blast
  from matches_above_filter [OF assms, of i n sel] selects_node [OF i(3)] i(1,2)
  have "findAllMatches sel n t = filter (selects sel t) (map (\<lambda>i. take i n) (rev [0..<Suc i]))"
    using i(3) by (simp add: findAllMatches_def Some)
  with filter_prefixes_none [OF i(4,1)] show ?thesis by simp
qed

text \<open>The descent of the PIT overload ends at the deepest node on the path of the name.\<close>

lemma descend_deepest:
  assumes "nt_ok t" and "map_of t (take j n) \<noteq> None" and "j \<le> d" and "d \<le> length n" and "d \<le> getMaxDepth"
  shows "\<exists>k. j \<le> k \<and> k \<le> d \<and> descend t n [Suc j..<Suc d] (take j n) = take k n \<and> map_of t (take k n) \<noteq> None \<and>
    (\<forall>i. k < i \<and> i \<le> d \<longrightarrow> map_of t (take i n) = None)"
  using assms(2,3)
proof (induction "d - j" arbitrary: j)
  case 0
  then show ?case by (intro exI [of _ j]) auto
next
  case (Suc x)
  then have up: "[Suc j..<Suc d] = Suc j # [Suc (Suc j)..<Suc d]" by (simp add: upt_conv_Cons del: upt_Suc)
  have exact: "nt_findExactMatch n (Suc j) t = (if map_of t (take (Suc j) n) \<noteq> None then Some (take (Suc j) n) else None)"
  proof -
    have "Suc j \<le> length n" "Suc j \<le> getMaxDepth" using Suc.hyps(2) assms(4,5) by simp_all
    then show ?thesis by (simp add: nt_findExactMatch_def min_def Let_def)
  qed
  show ?case
  proof (cases "map_of t (take (Suc j) n) = None")
    case True
    have "map_of t (take i n) = None" if "j < i" "i \<le> d" for i
      using nt_ok_prefixes [OF assms(1), of "take i n" "Suc j"] True that assms(4)
      by (cases "map_of t (take i n)") (auto simp: min_def)
    with True Suc.prems show ?thesis by (intro exI [of _ j]) (auto simp: up exact simp del: upt_Suc)
  next
    case False
    have jd: "x = d - Suc j" "Suc j \<le> d" using Suc.hyps(2) by auto
    from Suc.hyps(1) [OF jd(1) False jd(2)] obtain k where
      "Suc j \<le> k" "k \<le> d" "descend t n [Suc (Suc j)..<Suc d] (take (Suc j) n) = take k n" "map_of t (take k n) \<noteq> None"
      "\<forall>i. k < i \<and> i \<le> d \<longrightarrow> map_of t (take i n) = None" by blast
    with False show ?thesis by (intro exI [of _ k]) (auto simp: up exact simp del: upt_Suc)
  qed
qed

lemma lpm_loop_skip:
  "\<forall>i. k < i \<and> i \<le> d \<longrightarrow> map_of t (take i n) = None \<Longrightarrow> k \<le> d \<Longrightarrow> lpm_loop sel t n d = lpm_loop sel t n k"
proof (induction d)
  case (Suc d)
  then show ?case by (cases "k = Suc d") (auto simp: selects_def)
qed simp

text \<open>Both overloads of the longest prefix match give the same node.\<close>

lemma lpm_pit_eq:
  assumes "nt_ok t" and "map_of t at \<noteq> None" and "prefix at n"
  shows "lpm_pit sel n at t = findLongestPrefixMatch sel n t"
proof -
  let ?d = "min (length n) getMaxDepth"
  obtain j where j: "j \<le> length n" "at = take j n" using assms(3) by (auto simp: prefix_take_iff)
  have len: "length at = j" using j by simp
  have "j \<le> getMaxDepth" using assms(1,2) len by (auto simp: nt_ok_def)
  with j(1) have "j \<le> ?d" by simp
  from descend_deepest [OF assms(1), of j n ?d] assms(2) j(2) this obtain k where
    k: "k \<le> ?d" "descend t n [Suc j..<Suc ?d] at = take k n" "map_of t (take k n) \<noteq> None"
      "\<forall>i. k < i \<and> i \<le> ?d \<longrightarrow> map_of t (take i n) = None" by auto
  show ?thesis
  proof (cases "j < length n")
    case True
    with k(2) len have "lpm_pit sel n at t = lpm_from_node sel (take k n) t" by (simp add: lpm_pit_def Let_def del: upt_Suc)
    also have "\<dots> = lpm_loop sel t n k" using lpm_from_node_loop [OF assms(1) k(3)] k(1) by simp
    finally show ?thesis using lpm_loop_skip [OF k(4,1)] by (simp add: findLongestPrefixMatch_def)
  next
    case False
    with j(1) len \<open>j \<le> ?d\<close> have "lpm_pit sel n at t = lpm_from_node sel (take j n) t" "?d = j" by (simp_all add: lpm_pit_def Let_def j(2))
    with lpm_from_node_loop [OF assms(1), of j n sel] assms(2) j show ?thesis by (simp add: findLongestPrefixMatch_def)
  qed
qed

section \<open>Properties\<close>

text \<open>
  C16: The longest prefix match is right and its two overloads agree. In a well-formed name tree the lookup by name returns
  the longest prefix of the name whose node the selector accepts, and nothing exactly when it accepts no prefix; the lookup by PIT
  entry, which starts at the node the entry is attached to, tries deeper nodes and then climbs the parents, returns the same node,
  also for names that are deeper than the tree may be.
\<close>

theorem longest_prefix_match:
  assumes "nt_ok t" and "map_of t node \<noteq> None" and "prefix node n"
  shows "(findLongestPrefixMatch sel n t = Some m \<longleftrightarrow> is_longest_match sel t n m) \<and>
    (findLongestPrefixMatch sel n t = None \<longleftrightarrow> (\<forall>m. prefix m n \<longrightarrow> \<not> selects sel t m)) \<and>
    lpm_pit sel n node t = findLongestPrefixMatch sel n t"
  using findLongestPrefixMatch_spec [OF assms(1)] lpm_pit_eq [OF assms] by blast

text \<open>A tree with a route at the root and at the first component, and a PIT entry two components deep.\<close>

definition example_tree :: "(nat, nat) name_tree" where
  "example_tree =
     [([], \<lparr> nt_fib = Some 0, nt_pits = [], nt_other = False \<rparr>),
      ([(8, [1])], \<lparr> nt_fib = Some 1, nt_pits = [], nt_other = False \<rparr>),
      ([(8, [1]), (8, [2])], \<lparr> nt_fib = None, nt_pits = [7], nt_other = False \<rparr>)]"

theorem longest_prefix_match_witness:
  "lpm_pit (\<lambda>e. nt_fib e \<noteq> None) [(8, [1]), (8, [2]), (8, [3])] [(8, [1]), (8, [2])] example_tree = Some [(8, [1])]"
proof -
  let ?n = "[(8, [1]), (8, [2]), (8, [3])] :: name"
  have ok: "nt_ok example_tree" by (auto simp: nt_ok_def example_tree_def getMaxDepth_def)
  have "map_of example_tree [(8, [1]), (8, [2])] \<noteq> None" "prefix [(8, [1]), (8, [2])] ?n" by (simp_all add: example_tree_def)
  from longest_prefix_match [OF ok this, of "\<lambda>e. nt_fib e \<noteq> None"] show ?thesis
    by (simp add: findLongestPrefixMatch_def getMaxDepth_def min_def selects_def example_tree_def numeral_eq_Suc)
qed

end
