(* ===== verification/Nfd_Tables.thy ===== *)
theory Nfd_Tables
  imports Nfd_Name_Tree Nfd_Face Doubles
begin

text \<open>
  FIB and PIT on the name tree, the algorithms on PIT entries, the clean-up after the removal of a face, and the
  dead nonce list (\<open>src/NFD/daemon/table/fib.cpp\<close>, \<open>fib-entry.cpp\<close>, \<open>pit.cpp\<close>, \<open>pit-entry.cpp\<close>, \<open>pit-face-record.cpp\<close>, \<open>cleanup.cpp\<close>,
  \<open>dead-nonce-list.cpp\<close>, \<open>fw/algorithm.cpp\<close>). A face is referred to by its id. PIT entries are objects
  with an identity, because timers and the pipelines hold pointers to them. Clock readings are integers, in nanoseconds.
  \<open>std::sort\<close> keeps next hops of equal cost in their order, as it does on lists as short as these.
\<close>

section \<open>Forwarding information base\<close>

record nexthop =
  nh_face :: face_id
  nh_endpointId :: u64
  nh_cost :: u64

record fib_entry =
  fe_prefix :: name
  fe_nextHops :: "nexthop list"

definition mkFibEntry :: "name \<Rightarrow> fib_entry" where
  "mkFibEntry pfx = \<lparr> fe_prefix = pfx, fe_nextHops = [] \<rparr>"

definition hasNextHop :: "face_id \<Rightarrow> u64 \<Rightarrow> fib_entry \<Rightarrow> bool" where
  "hasNextHop face endpointId e = list_ex (\<lambda>h. nh_face h = face \<and> nh_endpointId h = endpointId) (fe_nextHops e)"

definition addOrUpdateNextHop :: "face_id \<Rightarrow> u64 \<Rightarrow> u64 \<Rightarrow> fib_entry \<Rightarrow> fib_entry" where
  "addOrUpdateNextHop face endpointId cost e =
     (let hops = (if hasNextHop face endpointId e then fe_nextHops e
                  else fe_nextHops e @ [\<lparr> nh_face = face, nh_endpointId = endpointId, nh_cost = 0 \<rparr>]) in
      e\<lparr> fe_nextHops := sort_key nh_cost
           (update_first (\<lambda>h. nh_face h = face \<and> nh_endpointId h = endpointId) (\<lambda>h. h\<lparr> nh_cost := cost \<rparr>) hops) \<rparr>)"

definition removeNextHop :: "face_id \<Rightarrow> u64 \<Rightarrow> fib_entry \<Rightarrow> fib_entry" where
  "removeNextHop face endpointId e =
     e\<lparr> fe_nextHops := erase_first (\<lambda>h. nh_face h = face \<and> nh_endpointId h = endpointId) (fe_nextHops e) \<rparr>"

definition removeNextHopByFace :: "face_id \<Rightarrow> fib_entry \<Rightarrow> fib_entry" where
  "removeNextHopByFace face e = e\<lparr> fe_nextHops := filter (\<lambda>h. nh_face h \<noteq> face) (fe_nextHops e) \<rparr>"

type_synonym tree = "(fib_entry, nat) name_tree"

definition has_fib :: "(fib_entry, nat) nte \<Rightarrow> bool" where
  "has_fib e \<longleftrightarrow> nt_fib e \<noteq> None"

text \<open>The entry at the node that a lookup found, the static empty entry when it found none.\<close>

definition fib_at :: "name option \<Rightarrow> tree \<Rightarrow> fib_entry" where
  "fib_at r t =
     (case r of None \<Rightarrow> mkFibEntry []
      | Some n \<Rightarrow> (case map_of t n of None \<Rightarrow> mkFibEntry []
                   | Some e \<Rightarrow> (case nt_fib e of None \<Rightarrow> mkFibEntry [] | Some f \<Rightarrow> f)))"

definition fib_lpm :: "name \<Rightarrow> tree \<Rightarrow> fib_entry" where
  "fib_lpm n t = fib_at (findLongestPrefixMatch has_fib n t) t"

definition fib_lpm_pit :: "name \<Rightarrow> name \<Rightarrow> tree \<Rightarrow> fib_entry" where
  "fib_lpm_pit n node t = fib_at (lpm_pit has_fib n node t) t"

text \<open>\<open>insert\<close>: whether the entry is new, and the tree.\<close>

definition fib_insert :: "name \<Rightarrow> tree \<Rightarrow> (bool \<times> tree) outcome" where
  "fib_insert pfx t =
     bindU (nt_lookup pfx (length pfx) t) (\<lambda>t'.
       case map_of t' pfx of None \<Rightarrow> Undef NullDereference
       | Some e \<Rightarrow> (case nt_fib e of Some f \<Rightarrow> Def (False, t')
                   | None \<Rightarrow> Def (True, AList.update pfx (e\<lparr> nt_fib := Some (mkFibEntry pfx) \<rparr>) t')))"

definition fib_modify :: "name \<Rightarrow> (fib_entry \<Rightarrow> fib_entry) \<Rightarrow> tree \<Rightarrow> tree" where
  "fib_modify pfx f t = AList.map_entry pfx (\<lambda>e. e\<lparr> nt_fib := map_option f (nt_fib e) \<rparr>) t"

section \<open>PIT entries\<close>

definition time_min :: int where "time_min = - (2 ^ 63)"

record face_record =
  fr_face :: face_id
  fr_lastNonce :: nonce
  fr_lastRenewed :: int
  fr_expiry :: int

record in_record = face_record +
  ir_interest :: "interest option"

record out_record = face_record +
  or_incomingNack :: "u64 option"

definition mkInRecord :: "face_id \<Rightarrow> in_record" where
  "mkInRecord face = \<lparr> fr_face = face, fr_lastNonce = 0, fr_lastRenewed = time_min, fr_expiry = time_min, ir_interest = None \<rparr>"

definition mkOutRecord :: "face_id \<Rightarrow> out_record" where
  "mkOutRecord face = \<lparr> fr_face = face, fr_lastNonce = 0, fr_lastRenewed = time_min, fr_expiry = time_min, or_incomingNack = None \<rparr>"

definition record_update :: "int \<Rightarrow> interest \<Rightarrow> 'a face_record_scheme \<Rightarrow> 'a face_record_scheme" where
  "record_update now i r =
     (let lifetime = (if in_lifetime i < 0 then DEFAULT_INTEREST_LIFETIME else in_lifetime i) in
      r\<lparr> fr_lastNonce := in_nonce i, fr_lastRenewed := now, fr_expiry := now + lifetime * 1000000 \<rparr>)"

definition in_update :: "int \<Rightarrow> interest \<Rightarrow> in_record \<Rightarrow> in_record" where
  "in_update now i r = (record_update now i r)\<lparr> ir_interest := Some i \<rparr>"

record nack =
  nk_interest :: interest
  nk_reason :: u64

definition setIncomingNack :: "nack \<Rightarrow> out_record \<Rightarrow> bool \<times> out_record" where
  "setIncomingNack n r =
     (if in_nonce (nk_interest n) \<noteq> fr_lastNonce r then (False, r) else (True, r\<lparr> or_incomingNack := Some (nk_reason n) \<rparr>))"

record pit_entry =
  pt_interest :: interest
  pt_isSatisfied :: bool
  pt_dataFreshnessPeriod :: int
  pt_inRecords :: "in_record list"
  pt_outRecords :: "out_record list"
  pt_nonceList :: "nonce list"
  pt_expiryTimer :: "nat option"
  pt_node :: name

definition add_nonce :: "nonce \<Rightarrow> nonce list \<Rightarrow> nonce list" where
  "add_nonce n ns = (if list_ex (\<lambda>x. x = n) ns then ns else ns @ [n])"

definition mkPitEntry :: "interest \<Rightarrow> name \<Rightarrow> pit_entry" where
  "mkPitEntry i node = \<lparr> pt_interest = i, pt_isSatisfied = False, pt_dataFreshnessPeriod = 0, pt_inRecords = [], pt_outRecords = [],
     pt_nonceList = add_nonce (in_nonce i) [], pt_expiryTimer = None, pt_node = node \<rparr>"

definition canMatch :: "interest \<Rightarrow> nat \<Rightarrow> pit_entry \<Rightarrow> bool outcome" where
  "canMatch i nEqualNameComps e =
     assertion (name_compare_loop (take nEqualNameComps (in_name (pt_interest e))) (take nEqualNameComps (in_name i)) = 0)
       (Def (name_compare_loop (drop nEqualNameComps (in_name (pt_interest e))) (drop nEqualNameComps (in_name i)) = 0 \<and>
             selectors_eq (in_selectors (pt_interest e)) (in_selectors i)))"

definition getInRecord :: "face_id \<Rightarrow> pit_entry \<Rightarrow> in_record option" where
  "getInRecord face e = List.find (\<lambda>r. fr_face r = face) (pt_inRecords e)"

definition insertOrUpdateInRecord :: "int \<Rightarrow> face_id \<Rightarrow> interest \<Rightarrow> pit_entry \<Rightarrow> pit_entry outcome" where
  "insertOrUpdateInRecord now face i e =
     bindU (canMatch i 0 e) (\<lambda>ok. assertion ok (Def
       (let rs = (if getInRecord face e = None then mkInRecord face # pt_inRecords e else pt_inRecords e) in
        e\<lparr> pt_inRecords := update_first (\<lambda>r. fr_face r = face) (in_update now i) rs,
           pt_nonceList := add_nonce (in_nonce i) (pt_nonceList e) \<rparr>)))"

definition deleteInRecord :: "face_id \<Rightarrow> pit_entry \<Rightarrow> pit_entry" where
  "deleteInRecord face e =
     (case getInRecord face e of None \<Rightarrow> e
      | Some r \<Rightarrow>
          e\<lparr> pt_nonceList := (case ir_interest r of None \<Rightarrow> pt_nonceList e | Some i \<Rightarrow> erase_first (\<lambda>x. x = in_nonce i) (pt_nonceList e)),
             pt_inRecords := erase_first (\<lambda>r. fr_face r = face) (pt_inRecords e) \<rparr>)"

definition getOutRecord :: "face_id \<Rightarrow> pit_entry \<Rightarrow> out_record option" where
  "getOutRecord face e = List.find (\<lambda>r. fr_face r = face) (pt_outRecords e)"

definition insertOrUpdateOutRecord :: "int \<Rightarrow> face_id \<Rightarrow> interest \<Rightarrow> pit_entry \<Rightarrow> pit_entry outcome" where
  "insertOrUpdateOutRecord now face i e =
     bindU (canMatch i 0 e) (\<lambda>ok. assertion ok (Def
       (let rs = (if getOutRecord face e = None then mkOutRecord face # pt_outRecords e else pt_outRecords e) in
        e\<lparr> pt_outRecords := update_first (\<lambda>r. fr_face r = face) (record_update now i) rs \<rparr>)))"

definition deleteOutRecord :: "face_id \<Rightarrow> pit_entry \<Rightarrow> pit_entry" where
  "deleteOutRecord face e = e\<lparr> pt_outRecords := erase_first (\<lambda>r. fr_face r = face) (pt_outRecords e) \<rparr>"

section \<open>Algorithms on PIT entries\<close>

definition localhost :: name where
  "localhost = [(8, map of_char ''localhost'')]"

definition localhop :: name where
  "localhop = [(8, map of_char ''localhop'')]"

definition wouldViolateScope :: "face \<Rightarrow> interest \<Rightarrow> face \<Rightarrow> bool" where
  "wouldViolateScope inFace i outFace =
     (if fc_scope outFace = ScopeLocal then False
      else if isPrefixOf localhost (in_name i) then True
      else if isPrefixOf localhop (in_name i) then fc_scope inFace \<noteq> ScopeLocal
      else False)"

text \<open>The set of the bits that \<open>findDuplicateNonce\<close> returns.\<close>

datatype duplicate_nonce = InSame | InOther | OutSame | OutOther

definition findDuplicateNonce :: "pit_entry \<Rightarrow> nonce \<Rightarrow> face_id \<Rightarrow> duplicate_nonce list" where
  "findDuplicateNonce e nonce face =
     map (\<lambda>r. if fr_face r = face then InSame else InOther) (filter (\<lambda>r. fr_lastNonce r = nonce) (pt_inRecords e)) @
     map (\<lambda>r. if fr_face r = face then OutSame else OutOther) (filter (\<lambda>r. fr_lastNonce r = nonce) (pt_outRecords e))"

definition hasPendingOutRecords :: "int \<Rightarrow> pit_entry \<Rightarrow> bool" where
  "hasPendingOutRecords now e = list_ex (\<lambda>r. fr_expiry r \<ge> now \<and> or_incomingNack r = None) (pt_outRecords e)"

section \<open>Pending Interest table\<close>

record tables =
  tb_tree :: tree
  tb_pits :: "nat \<Rightarrow> pit_entry option"
  tb_next :: nat
  tb_pitItems :: u64
  tb_fibItems :: u64

definition mkTables :: tables where
  "mkTables = \<lparr> tb_tree = [], tb_pits = (\<lambda>_. None), tb_next = 0, tb_pitItems = 0, tb_fibItems = 0 \<rparr>"

text \<open>\<open>m_fib.insert(prefix).first->addOrUpdateNextHop(face, 0, 1)\<close>, as the pipelines use it.\<close>

definition add_route :: "name \<Rightarrow> face_id \<Rightarrow> tables \<Rightarrow> tables outcome" where
  "add_route pfx face tb =
     bindU (fib_insert pfx (tb_tree tb)) (\<lambda>(isNew, t).
       Def (tb\<lparr> tb_tree := fib_modify pfx (addOrUpdateNextHop face 0 1) t,
                tb_fibItems := tb_fibItems tb + (if isNew then 1 else 0) \<rparr>))"

definition pit_modify :: "nat \<Rightarrow> (pit_entry \<Rightarrow> pit_entry) \<Rightarrow> tables \<Rightarrow> tables" where
  "pit_modify p f tb = tb\<lparr> tb_pits := (tb_pits tb)(p := map_option f (tb_pits tb p)) \<rparr>"

definition nte_depth :: "name \<Rightarrow> nat" where
  "nte_depth n =
     (let hasDigest = (n \<noteq> [] \<and> isImplicitSha256Digest (last n)) in
      min (length n - (if hasDigest then 1 else 0)) getMaxDepth)"

text \<open>The \<open>find_if\<close> over the entries of a node.\<close>

primrec pit_scan :: "interest \<Rightarrow> nat \<Rightarrow> (nat \<Rightarrow> pit_entry option) \<Rightarrow> nat list \<Rightarrow> nat option outcome" where
  "pit_scan i depth pits [] = Def None"
| "pit_scan i depth pits (p # ps) =
     (case pits p of None \<Rightarrow> Undef NullDereference
      | Some e \<Rightarrow> bindU (canMatch i depth e) (\<lambda>ok. if ok then Def (Some p) else pit_scan i depth pits ps))"

definition pit_find :: "interest \<Rightarrow> tables \<Rightarrow> nat option outcome" where
  "pit_find i tb =
     (case nt_findExactMatch (in_name i) (nte_depth (in_name i)) (tb_tree tb) of
        None \<Rightarrow> Def None
      | Some n \<Rightarrow> (case map_of (tb_tree tb) n of None \<Rightarrow> Undef NullDereference
                   | Some e \<Rightarrow>
                       bindU (pit_scan i (nte_depth (in_name i)) (tb_pits tb) (nt_pits e)) (\<lambda>r.
                         case r of Some p \<Rightarrow> Def (Some p) | None \<Rightarrow> assertion (\<not> nte_isEmpty n e (tb_tree tb)) (Def None))))"

definition pit_insert :: "interest \<Rightarrow> tables \<Rightarrow> ((nat \<times> bool) \<times> tables) outcome" where
  "pit_insert i tb =
     (let depth = nte_depth (in_name i); node = take depth (in_name i) in
      bindU (nt_lookup (in_name i) depth (tb_tree tb)) (\<lambda>t.
        case map_of t node of None \<Rightarrow> Undef NullDereference
        | Some e \<Rightarrow>
            bindU (pit_scan i depth (tb_pits tb) (nt_pits e)) (\<lambda>r.
              case r of Some p \<Rightarrow> Def ((p, False), tb\<lparr> tb_tree := t \<rparr>)
              | None \<Rightarrow>
                  let p = tb_next tb in
                  Def ((p, True),
                    tb\<lparr> tb_tree := AList.update node (e\<lparr> nt_pits := nt_pits e @ [p] \<rparr>) t,
                        tb_pits := (tb_pits tb)(p \<mapsto> mkPitEntry i node), tb_next := Suc p, tb_pitItems := tb_pitItems tb + 1 \<rparr>))))"

definition has_pits :: "(fib_entry, nat) nte \<Rightarrow> bool" where
  "has_pits e \<longleftrightarrow> nt_pits e \<noteq> []"

definition pits_at :: "tree \<Rightarrow> name \<Rightarrow> nat list" where
  "pits_at t n = (case map_of t n of None \<Rightarrow> [] | Some e \<Rightarrow> nt_pits e)"

definition findAllDataMatches :: "component \<Rightarrow> data \<Rightarrow> tables \<Rightarrow> nat list" where
  "findAllDataMatches digest d tb =
     concat (map (\<lambda>n. filter (\<lambda>p. case tb_pits tb p of None \<Rightarrow> False | Some e \<Rightarrow> matchesData digest (pt_interest e) d) (pits_at (tb_tree tb) n))
       (findAllMatches has_pits (d_name d) (tb_tree tb)))"

text \<open>\<open>erasePitEntry\<close>: the last element takes the place of the erased one.\<close>

definition erase_swap :: "nat \<Rightarrow> nat list \<Rightarrow> nat list" where
  "erase_swap p ps = (let k = length (takeWhile (\<lambda>q. q \<noteq> p) ps) in butlast (ps[k := last ps]))"

definition pit_erase :: "nat \<Rightarrow> tables \<Rightarrow> tables outcome" where
  "pit_erase p tb =
     (case tb_pits tb p of None \<Rightarrow> Undef NullDereference
      | Some pe \<Rightarrow>
          (case map_of (tb_tree tb) (pt_node pe) of None \<Rightarrow> Undef AssertionFailed
           | Some e \<Rightarrow>
               assertion (p \<in> set (nt_pits e)) (Def
                 (tb\<lparr> tb_tree := nt_eraseIfEmpty True (pt_node pe) (AList.update (pt_node pe) (e\<lparr> nt_pits := erase_swap p (nt_pits e) \<rparr>) (tb_tree tb)),
                      tb_pits := (tb_pits tb)(p := None), tb_pitItems := tb_pitItems tb - 1 \<rparr>))))"

definition deleteInOutRecords :: "face_id \<Rightarrow> pit_entry \<Rightarrow> pit_entry" where
  "deleteInOutRecords face e = deleteOutRecord face (deleteInRecord face e)"

section \<open>Removal of a face\<close>

definition fib_without :: "face_id \<Rightarrow> (fib_entry, nat) nte \<Rightarrow> (fib_entry, nat) nte" where
  "fib_without face e =
     (case nt_fib e of None \<Rightarrow> e
      | Some f \<Rightarrow> (let f' = removeNextHopByFace face f in e\<lparr> nt_fib := (if fe_nextHops f' = [] then None else Some f') \<rparr>))"

definition cleanupOnFaceRemoval_tables :: "face_id \<Rightarrow> tables \<Rightarrow> tables outcome" where
  "cleanupOnFaceRemoval_tables face tb =
     (let t1 = map (\<lambda>(n, e). (n, fib_without face e)) (tb_tree tb);
          attached = concat (map (\<lambda>(n, e). nt_pits e) (tb_tree tb));
          maybeEmpty = rev (sort_key length (map fst (filter (\<lambda>(n, e). \<not> hasTableEntries e) t1)));
          t2 = fold (nt_eraseIfEmpty False) maybeEmpty t1;
          erased = length (filter (\<lambda>(n, e). nt_fib e \<noteq> None \<and> nt_fib (fib_without face e) = None) (tb_tree tb)) in
      assertion (list_all (\<lambda>(n, e). \<not> nte_isEmpty n e t2) t2)
        (Def (tb\<lparr> tb_tree := t2,
                  tb_pits := (\<lambda>p. if p \<in> set attached then map_option (deleteInOutRecords face) (tb_pits tb p) else tb_pits tb p),
                  tb_fibItems := tb_fibItems tb - of_nat erased \<rparr>)))"

section \<open>Dead nonce list\<close>

definition EXPECTED_MARK_COUNT :: nat where "EXPECTED_MARK_COUNT = 5"
definition INITIAL_CAPACITY :: nat where "INITIAL_CAPACITY = 128"
definition MIN_CAPACITY :: nat where "MIN_CAPACITY = 8"
definition MAX_CAPACITY :: nat where "MAX_CAPACITY = 16777216"
definition EVICT_LIMIT :: nat where "EVICT_LIMIT = 64"
definition DNL_DEFAULT_LIFETIME :: int where "DNL_DEFAULT_LIFETIME = 6000000000"
definition MIN_LIFETIME :: int where "MIN_LIFETIME = 1000000"
definition MARK :: u64 where "MARK = 0"

text \<open>The hashed index on the queue is the membership in it; \<open>dn_actualMarkCounts\<close> is the multiset of counts.\<close>

record dnl =
  dn_lifetime :: int
  dn_queue :: "u64 list"
  dn_capacity :: nat
  dn_actualMarkCounts :: "nat list"

text \<open>The constructor throws for a lifetime below the minimum.\<close>

definition mkDnl :: "int \<Rightarrow> dnl option" where
  "mkDnl lifetime =
     (if lifetime < MIN_LIFETIME then None
      else Some \<lparr> dn_lifetime = lifetime, dn_queue = replicate EXPECTED_MARK_COUNT MARK, dn_capacity = INITIAL_CAPACITY, dn_actualMarkCounts = [] \<rparr>)"

definition makeEntry :: "(byte list \<Rightarrow> u64 \<Rightarrow> u64) \<Rightarrow> name \<Rightarrow> nonce \<Rightarrow> u64" where
  "makeEntry city n nonce = city (blk_wire (name_block n)) (ucast nonce)"

definition dnl_has :: "(byte list \<Rightarrow> u64 \<Rightarrow> u64) \<Rightarrow> name \<Rightarrow> nonce \<Rightarrow> dnl \<Rightarrow> bool" where
  "dnl_has city n nonce d \<longleftrightarrow> makeEntry city n nonce \<in> set (dn_queue d)"

definition countMarks :: "dnl \<Rightarrow> nat" where
  "countMarks d = length (filter (\<lambda>x. x = MARK) (dn_queue d))"

definition dnl_evictEntries :: "dnl \<Rightarrow> dnl outcome" where
  "dnl_evictEntries d =
     (if length (dn_queue d) \<le> dn_capacity d then Def d
      else let q = drop (min (length (dn_queue d) - dn_capacity d) EVICT_LIMIT) (dn_queue d) in
           assertion (length q \<ge> dn_capacity d) (Def (d\<lparr> dn_queue := q \<rparr>)))"

definition dnl_add :: "(byte list \<Rightarrow> u64 \<Rightarrow> u64) \<Rightarrow> name \<Rightarrow> nonce \<Rightarrow> dnl \<Rightarrow> dnl outcome" where
  "dnl_add city n nonce d = dnl_evictEntries (d\<lparr> dn_queue := dn_queue d @ [makeEntry city n nonce] \<rparr>)"

definition dnl_mark :: "dnl \<Rightarrow> dnl" where
  "dnl_mark d =
     (let d' = d\<lparr> dn_queue := dn_queue d @ [MARK] \<rparr> in
      d'\<lparr> dn_actualMarkCounts := countMarks d' # dn_actualMarkCounts d' \<rparr>)"

definition scaled :: "double \<Rightarrow> nat \<Rightarrow> nat" where
  "scaled factor capacity = nat (d_trunc (d_mul (of_nat capacity) factor))"

definition dnl_adjustCapacity :: "dnl \<Rightarrow> dnl outcome" where
  "dnl_adjustCapacity d =
     (let capacity = (if list_all (\<lambda>c. c > EXPECTED_MARK_COUNT) (dn_actualMarkCounts d) then max MIN_CAPACITY (scaled (fl (9 / 10)) (dn_capacity d))
                      else if list_all (\<lambda>c. c < EXPECTED_MARK_COUNT) (dn_actualMarkCounts d) then min MAX_CAPACITY (scaled (fl (12 / 10)) (dn_capacity d))
                      else dn_capacity d) in
      dnl_evictEntries (d\<lparr> dn_capacity := capacity, dn_actualMarkCounts := [] \<rparr>))"

end
