(* ===== verification/Nfd_Cs_Table.thy ===== *)
theory Nfd_Cs_Table
  imports Ndn_Order
begin

text \<open>
  The table of the content store and the lookup in it (\<open>src/NFD/daemon/table/cs-entry.cpp\<close>,
  \<open>cs-entry-impl.cpp\<close>, \<open>cs.cpp\<close>). The \<open>std::set\<close> of entries is the list of its elements in order, an iterator the
  position in that list. The implicit digest of a Data packet is a parameter \<open>dg\<close>; clock readings are
  integers, in nanoseconds.
\<close>

section \<open>Entries\<close>

record cs_entry =
  ce_data :: data
  ce_isUnsolicited :: bool
  ce_staleTime :: int

definition updateStaleTime :: "int \<Rightarrow> cs_entry \<Rightarrow> cs_entry" where
  "updateStaleTime now e = e\<lparr> ce_staleTime := now + d_freshness (ce_data e) * 1000000 \<rparr>"

definition mkEntryImpl :: "int \<Rightarrow> data \<Rightarrow> bool \<Rightarrow> cs_entry" where
  "mkEntryImpl now d isUnsolicited = updateStaleTime now \<lparr> ce_data = d, ce_isUnsolicited = isUnsolicited, ce_staleTime = 0 \<rparr>"

definition unsetUnsolicited :: "int \<Rightarrow> cs_entry \<Rightarrow> cs_entry" where
  "unsetUnsolicited now e = updateStaleTime now (e\<lparr> ce_isUnsolicited := False \<rparr>)"

definition isStale :: "int \<Rightarrow> cs_entry \<Rightarrow> bool" where
  "isStale now e \<longleftrightarrow> ce_staleTime e < now"

definition canSatisfy :: "(data \<Rightarrow> component) \<Rightarrow> int \<Rightarrow> interest \<Rightarrow> cs_entry \<Rightarrow> bool" where
  "canSatisfy dg now i e =
     (if \<not> matchesData (dg (ce_data e)) i (ce_data e) then False
      else if sel_mustBeFresh (in_selectors i) \<and> isStale now e then False
      else True)"

definition compareQueryWithData :: "(data \<Rightarrow> component) \<Rightarrow> name \<Rightarrow> data \<Rightarrow> int" where
  "compareQueryWithData dg q d =
     (let queryIsFullName = (q \<noteq> [] \<and> isImplicitSha256Digest (last q));
          cmp = (if queryIsFullName then name_compare_loop (butlast q) (d_name d) else name_compare_loop q (d_name d)) in
      if cmp \<noteq> 0 then cmp
      else if queryIsFullName then component_compare_wire (last q) (dg d)
      else - 1)"

definition compareDataWithData :: "(data \<Rightarrow> component) \<Rightarrow> data \<Rightarrow> data \<Rightarrow> int" where
  "compareDataWithData dg a b =
     (let cmp = name_compare_loop (d_name a) (d_name b) in if cmp \<noteq> 0 then cmp else component_compare_wire (dg a) (dg b))"

section \<open>Lookup\<close>

text \<open>The entry is inserted at its place unless the table has an equivalent one; its position, and whether it is new.\<close>

fun emplace :: "(data \<Rightarrow> component) \<Rightarrow> cs_entry \<Rightarrow> cs_entry list \<Rightarrow> cs_entry list \<times> nat \<times> bool" where
  "emplace dg e [] = ([e], 0, True)"
| "emplace dg e (x # xs) =
     (if compareDataWithData dg (ce_data e) (ce_data x) < 0 then (e # x # xs, 0, True)
      else if compareDataWithData dg (ce_data x) (ce_data e) < 0 then (case emplace dg e xs of (ys, i, isNew) \<Rightarrow> (x # ys, Suc i, isNew))
      else (x # xs, 0, False))"

definition lower_bound :: "(data \<Rightarrow> component) \<Rightarrow> name \<Rightarrow> cs_entry list \<Rightarrow> nat" where
  "lower_bound dg q table = length (takeWhile (\<lambda>e. compareQueryWithData dg q (ce_data e) > 0) table)"

definition segment :: "nat \<Rightarrow> nat \<Rightarrow> 'a list \<Rightarrow> 'a list" where
  "segment first stop xs = take (stop - first) (drop first xs)"

definition find_if :: "('a \<Rightarrow> bool) \<Rightarrow> nat \<Rightarrow> nat \<Rightarrow> 'a list \<Rightarrow> nat" where
  "find_if P first stop xs = first + length (takeWhile (\<lambda>x. \<not> P x) (segment first stop xs))"

definition find_last_if :: "('a \<Rightarrow> bool) \<Rightarrow> nat \<Rightarrow> nat \<Rightarrow> 'a list \<Rightarrow> nat" where
  "find_last_if P first stop xs =
     (let found = length (takeWhile (\<lambda>x. \<not> P x) (rev (segment first stop xs))) in
      if found = stop - first then stop else stop - 1 - found)"

text \<open>
  \<open>findRightmost\<close>: the loop over the namespaces one component below the Interest name, from the last one.
  The step back from the begin of the table is undefined.
\<close>

partial_function (option) findRightmost ::
    "(data \<Rightarrow> component) \<Rightarrow> int \<Rightarrow> interest \<Rightarrow> cs_entry list \<Rightarrow> nat \<Rightarrow> nat \<Rightarrow> nat \<Rightarrow> nat outcome option" where
  "findRightmost dg now i table first stop right =
     (if right = first then Some (Def stop)
      else if right = 0 then Some (Undef EndDereference)
      else
        let prev = ce_data (table ! (right - 1)); interestNameLength = length (in_name i) in
        if length (d_name prev) = interestNameLength then
          let matchExact = find_last_if (canSatisfy dg now i) first right table in
          Some (Def (if matchExact = right then stop else matchExact))
        else
          let left = lower_bound dg (getPrefix (int interestNameLength + 1) (d_name prev)) table;
              match = find_if (canSatisfy dg now i) left right table in
          if match \<noteq> right then Some (Def match)
          else findRightmost dg now i table first stop left)"

declare findRightmost.simps [code]

text \<open>The position that \<open>find\<close> chooses, the end of the range when there is none; the range comes first.\<close>

definition find_range :: "(data \<Rightarrow> component) \<Rightarrow> name \<Rightarrow> cs_entry list \<Rightarrow> nat \<times> nat" where
  "find_range dg prefix table =
     (lower_bound dg prefix table,
      if length prefix > 0 then lower_bound dg (name_getSuccessor prefix) table else length table)"

definition find_match :: "(data \<Rightarrow> component) \<Rightarrow> int \<Rightarrow> interest \<Rightarrow> cs_entry list \<Rightarrow> nat option outcome option" where
  "find_match dg now i table =
     (let (first, stop) = find_range dg (in_name i) table;
          match = (if sel_childSelector (in_selectors i) = 1 then findRightmost dg now i table first stop stop
                   else Some (Def (find_if (canSatisfy dg now i) first stop table))) in
      map_option (\<lambda>m. bindU m (\<lambda>m. Def (if m = stop then None else Some m))) match)"

section \<open>The order of the table\<close>

definition entry_key :: "(data \<Rightarrow> component) \<Rightarrow> data \<Rightarrow> (u32 \<times> nat \<times> byte list) list \<times> (u32 \<times> nat \<times> byte list)" where
  "entry_key dg d = (name_key (d_name d), component_key (dg d))"

definition name_fits :: "name \<Rightarrow> bool" where
  "name_fits n \<longleftrightarrow> (\<forall>c\<in>set n. length (snd c) < 2 ^ 63) \<and> length n < 2 ^ 63"

lemma name_fits_ok: "name_fits n \<Longrightarrow> name_ok n"
  by (auto simp: name_fits_def list_all_iff component_ok_def)

definition data_fits :: "(data \<Rightarrow> component) \<Rightarrow> data \<Rightarrow> bool" where
  "data_fits dg d \<longleftrightarrow> name_fits (d_name d) \<and> component_ok (dg d)"

definition digest_ended :: "name \<Rightarrow> bool" where
  "digest_ended q \<longleftrightarrow> q \<noteq> [] \<and> isImplicitSha256Digest (last q)"

text \<open>The entries below a query.\<close>

definition below :: "(data \<Rightarrow> component) \<Rightarrow> name \<Rightarrow> data \<Rightarrow> bool" where
  "below dg q d \<longleftrightarrow>
     (if digest_ended q then entry_key dg d < (name_key (butlast q), component_key (last q)) else name_key (d_name d) < name_key q)"

lemma name_ok_butlast: "name_ok q \<Longrightarrow> name_ok (butlast q)" "q \<noteq> [] \<Longrightarrow> name_ok q \<Longrightarrow> component_ok (last q)"
  by (auto simp: list_all_iff dest: in_set_butlastD)

lemma compareQueryWithData_below:
  assumes "name_ok q" and "data_fits dg d"
  shows "compareQueryWithData dg q d > 0 \<longleftrightarrow> below dg q d"
proof -
  have ok: "name_ok (d_name d)" "component_ok (dg d)" using assms(2) by (simp_all add: data_fits_def name_fits_ok)
  show ?thesis
  proof (cases "digest_ended q")
    case True
    then have q: "q \<noteq> []" "name_ok (butlast q)" "component_ok (last q)" using assms(1) name_ok_butlast by (auto simp: digest_ended_def)
    have "compareQueryWithData dg q d = (let cmp = name_compare_loop (butlast q) (d_name d) in
        if cmp \<noteq> 0 then cmp else component_compare_wire (last q) (dg d))"
      using True by (simp add: compareQueryWithData_def digest_ended_def Let_def)
    with True show ?thesis
      using name_compare_order [OF q(2) ok(1)] compare_greater(2) [OF q(2) ok(1)] compare_greater(1) [OF q(3) ok(2)]
      by (simp add: below_def entry_key_def less_prod_def' Let_def)
  next
    case False
    then have "compareQueryWithData dg q d = (let cmp = name_compare_loop q (d_name d) in if cmp \<noteq> 0 then cmp else - 1)"
      by (auto simp: compareQueryWithData_def digest_ended_def Let_def)
    with False show ?thesis
      using name_compare_order [OF assms(1) ok(1)] compare_greater(2) [OF assms(1) ok(1)] by (simp add: below_def Let_def)
  qed
qed

lemma compareDataWithData_key:
  assumes "data_fits dg a" and "data_fits dg b"
  shows "compareDataWithData dg a b < 0 \<longleftrightarrow> entry_key dg a < entry_key dg b"
  using assms name_compare_order [of "d_name a" "d_name b"] component_compare_order [of "dg a" "dg b"]
  by (auto simp: compareDataWithData_def Let_def entry_key_def less_prod_def' data_fits_def name_fits_ok)

definition table_ok :: "(data \<Rightarrow> component) \<Rightarrow> cs_entry list \<Rightarrow> bool" where
  "table_ok dg t \<longleftrightarrow> sorted_wrt (\<lambda>x y. entry_key dg (ce_data x) < entry_key dg (ce_data y)) t \<and> (\<forall>e\<in>set t. data_fits dg (ce_data e))"

lemma below_down: "below dg q b \<Longrightarrow> entry_key dg a < entry_key dg b \<Longrightarrow> below dg q a"
  by (auto simp: below_def entry_key_def less_prod_def' split: if_splits)

lemma takeWhile_down:
  assumes "\<And>i j. i < j \<Longrightarrow> j < length xs \<Longrightarrow> P (xs ! j) \<Longrightarrow> P (xs ! i)" and "k < length xs"
  shows "k < length (takeWhile P xs) \<longleftrightarrow> P (xs ! k)"
  using assms
proof (induction xs arbitrary: k)
  case (Cons x xs)
  have down: "P (xs ! i)" if "i < j" "j < length xs" "P (xs ! j)" for i j using Cons.prems(1) [of "Suc i" "Suc j"] that by simp
  show ?case
  proof (cases k)
    case (Suc j)
    have "j < length (takeWhile P xs) \<longleftrightarrow> P (xs ! j)"
      by (rule Cons.IH) (use down Cons.prems(2) Suc in auto)
    with Suc show ?thesis using Cons.prems(1) [of 0 k] Cons.prems(2) by auto
  qed simp
qed simp

lemma lower_bound_le: "lower_bound dg q t \<le> length t"
  by (simp add: lower_bound_def length_takeWhile_le)

lemma lower_bound_iff:
  assumes "table_ok dg t" and "name_ok q" and "k < length t"
  shows "k < lower_bound dg q t \<longleftrightarrow> below dg q (ce_data (t ! k))"
proof -
  have eq: "compareQueryWithData dg q (ce_data (t ! j)) > 0 \<longleftrightarrow> below dg q (ce_data (t ! j))" if "j < length t" for j
    using assms(1,2) that by (intro compareQueryWithData_below) (simp_all add: table_ok_def)
  have "compareQueryWithData dg q (ce_data (t ! i)) > 0"
    if "i < j" "j < length t" "compareQueryWithData dg q (ce_data (t ! j)) > 0" for i j
    using that assms(1) eq [of i] eq [of j] below_down [of dg q "ce_data (t ! j)" "ce_data (t ! i)"]
    by (auto simp: table_ok_def sorted_wrt_iff_nth_less)
  from takeWhile_down [of t "\<lambda>e. compareQueryWithData dg q (ce_data e) > 0", OF this assms(3)] eq [OF assms(3)]
  show ?thesis by (simp add: lower_bound_def)
qed

section \<open>Search in a range\<close>

lemma segment_nth: "k < last' - first \<Longrightarrow> last' \<le> length xs \<Longrightarrow> segment first last' xs ! k = xs ! (first + k)"
  by (simp add: segment_def)

lemma segment_length: "stop \<le> length xs \<Longrightarrow> length (segment first stop xs) = stop - first"
  by (simp add: segment_def)

lemma find_if_ok:
  assumes "first \<le> stop" and "stop \<le> length xs"
  shows "first \<le> find_if P first stop xs" and "find_if P first stop xs \<le> stop"
    and "find_if P first stop xs \<noteq> stop \<Longrightarrow> P (xs ! find_if P first stop xs)"
    and "first \<le> k \<Longrightarrow> k < find_if P first stop xs \<Longrightarrow> \<not> P (xs ! k)"
proof -
  let ?seg = "segment first stop xs"
  let ?n = "length (takeWhile (\<lambda>x. \<not> P x) ?seg)"
  have len: "length ?seg = stop - first" using assms(2) by (rule segment_length)
  have n: "?n \<le> stop - first" using length_takeWhile_le [of "\<lambda>x. \<not> P x" ?seg] len by simp
  show "first \<le> find_if P first stop xs" by (simp add: find_if_def)
  show "find_if P first stop xs \<le> stop" using n assms(1) by (simp add: find_if_def)
  show "P (xs ! find_if P first stop xs)" if "find_if P first stop xs \<noteq> stop"
  proof -
    have "?n < stop - first" using that n assms(1) by (auto simp: find_if_def)
    with nth_length_takeWhile [of "\<lambda>x. \<not> P x" ?seg] segment_nth [of ?n stop first xs] len assms(2)
    show ?thesis by (simp add: find_if_def)
  qed
  show "\<not> P (xs ! k)" if "first \<le> k" "k < find_if P first stop xs"
  proof -
    have k: "k - first < ?n" using that by (simp add: find_if_def)
    then have "\<not> P (?seg ! (k - first))" using takeWhile_nth [OF k] set_takeWhileD nth_mem [OF k] by metis
    with segment_nth [of "k - first" stop first xs] k n that(1) assms(2) show ?thesis by simp
  qed
qed

lemma find_last_if_ok:
  assumes "first \<le> stop" and "stop \<le> length xs"
  shows "find_last_if P first stop xs \<noteq> stop \<Longrightarrow> first \<le> find_last_if P first stop xs \<and> find_last_if P first stop xs < stop \<and> P (xs ! find_last_if P first stop xs)"
    and "find_last_if P first stop xs = stop \<Longrightarrow> first \<le> k \<Longrightarrow> k < stop \<Longrightarrow> \<not> P (xs ! k)"
proof -
  let ?seg = "segment first stop xs"
  let ?n = "length (takeWhile (\<lambda>x. \<not> P x) (rev ?seg))"
  have len: "length ?seg = stop - first" using assms(2) by (rule segment_length)
  have n: "?n \<le> stop - first" using length_takeWhile_le [of "\<lambda>x. \<not> P x" "rev ?seg"] len by simp
  show "first \<le> find_last_if P first stop xs \<and> find_last_if P first stop xs < stop \<and> P (xs ! find_last_if P first stop xs)"
    if "find_last_if P first stop xs \<noteq> stop"
  proof -
    have "?n \<noteq> stop - first" using that by (auto simp: find_last_if_def Let_def)
    with n have lt: "?n < stop - first" by simp
    then have "P (rev ?seg ! ?n)" using nth_length_takeWhile [of "\<lambda>x. \<not> P x" "rev ?seg"] len by simp
    then have "P (xs ! (first + (stop - first - 1 - ?n)))"
      using lt len segment_nth [of "stop - first - 1 - ?n" stop first xs] assms(2) by (simp add: rev_nth)
    moreover have "first + (stop - first - 1 - ?n) = stop - 1 - ?n" using lt by linarith
    ultimately show ?thesis using lt by (auto simp: find_last_if_def Let_def)
  qed
  show "\<not> P (xs ! k)" if "find_last_if P first stop xs = stop" "first \<le> k" "k < stop"
  proof -
    have "?n = length (rev ?seg)" using that n len by (auto simp: find_last_if_def Let_def split: if_splits)
    then have "\<forall>x\<in>set ?seg. \<not> P x" using takeWhile_eq_all_conv [of "\<lambda>x. \<not> P x" "rev ?seg"]
      by (metis length_takeWhile_le set_rev takeWhile_eq_take take_all order_refl)
    moreover have "xs ! k \<in> set ?seg" using segment_nth [of "k - first" stop first xs] that(2,3) assms(2) len
      by (metis diff_less_mono le_add_diff_inverse nth_mem)
    ultimately show ?thesis by blast
  qed
qed

section \<open>The range of a prefix\<close>

text \<open>A name whose last component is not a digest, so that its successor is the end of the names under it.\<close>

definition plain_query :: "name \<Rightarrow> bool" where
  "plain_query q \<longleftrightarrow> q = [] \<or> \<not> isSha256Type (fst (last q))"

lemma successor_length: "length (snd (component_getSuccessor c)) \<le> max 32 (length (snd c) + 1)"
proof -
  obtain ov v where s: "getSuccessorImpl (snd c) = (ov, v)" by fastforce
  from getSuccessorImpl_ok [OF s] show ?thesis by (auto simp: component_getSuccessor_def s getMinValue_def split: if_splits)
qed

lemma name_ok_successor: "name_fits q \<Longrightarrow> name_ok (name_getSuccessor q)"
proof (cases "q = []")
  case False
  assume "name_fits q"
  then have "length (snd (last q)) < 2 ^ 63" "name_ok (butlast q)"
    using False name_ok_butlast(1) [OF name_fits_ok] by (auto simp: name_fits_def)
  with successor_length [of "last q"] False show ?thesis by (simp add: name_getSuccessor_def component_ok_def)
qed (simp add: name_getSuccessor_def component_ok_def)

lemma plain_not_digest: "plain_query q \<Longrightarrow> \<not> digest_ended q"
  by (auto simp: plain_query_def digest_ended_def isImplicitSha256Digest_def isSha256Type_def)

lemma plain_successor:
  assumes "plain_query q" and "q \<noteq> []"
  shows "\<not> digest_ended (name_getSuccessor q)"
proof -
  obtain ov v where s: "getSuccessorImpl (snd (last q)) = (ov, v)" by fastforce
  with assms show ?thesis
    by (auto simp: plain_query_def digest_ended_def name_getSuccessor_def component_getSuccessor_def isImplicitSha256Digest_def isSha256Type_def)
qed

lemma find_range_ok:
  assumes "table_ok dg t" and "name_fits q" and "plain_query q" and "find_range dg q t = (first, stop)"
  shows "first \<le> stop" and "stop \<le> length t"
    and "k < length t \<Longrightarrow> first \<le> k \<and> k < stop \<longleftrightarrow> (\<exists>r. d_name (ce_data (t ! k)) = q @ r)"
proof -
  have first: "first = lower_bound dg q t" using assms(4) by (simp add: find_range_def)
  note lb = lower_bound_iff [OF assms(1) name_fits_ok [OF assms(2)], folded first]
  have bq: "below dg q d \<longleftrightarrow> name_key (d_name d) < name_key q" for d using plain_not_digest [OF assms(3)] by (simp add: below_def)
  have le: "first \<le> length t" by (simp add: first lower_bound_le)
  have range: "first \<le> stop \<and> stop \<le> length t \<and>
    (\<forall>k<length t. first \<le> k \<and> k < stop \<longleftrightarrow> (\<exists>r. d_name (ce_data (t ! k)) = q @ r))"
  proof (cases "q = []")
    case True
    then have "stop = length t" using assms(4) by (simp add: find_range_def)
    moreover have "first = 0"
    proof (rule ccontr)
      assume "first \<noteq> 0"
      then have "0 < length t" using le by linarith
      with \<open>first \<noteq> 0\<close> lb [of 0] bq [of "ce_data (t ! 0)"] True show False by simp
    qed
    ultimately show ?thesis using True by simp
  next
    case False
    then have stop: "stop = lower_bound dg (name_getSuccessor q) t" using assms(4) by (simp add: find_range_def)
    note lb' = lower_bound_iff [OF assms(1) name_ok_successor [OF assms(2)], folded stop]
    have bs: "below dg (name_getSuccessor q) d \<longleftrightarrow> name_key (d_name d) < name_key (name_getSuccessor q)" for d
      using plain_successor [OF assms(3) False] by (simp add: below_def)
    have up: "name_key q < name_key (name_getSuccessor q)" using under_prefix_less [OF False, of "[]"] by simp
    have iff: "first \<le> k \<and> k < stop \<longleftrightarrow> (\<exists>r. d_name (ce_data (t ! k)) = q @ r)" if "k < length t" for k
    proof
      assume "first \<le> k \<and> k < stop"
      then have "name_key q \<le> name_key (d_name (ce_data (t ! k)))" "name_key (d_name (ce_data (t ! k))) < name_key (name_getSuccessor q)"
        using lb [OF that] lb' [OF that] bq bs by auto
      with between_prefix [OF False] assms(3) False show "\<exists>r. d_name (ce_data (t ! k)) = q @ r" by (simp add: plain_query_def)
    next
      assume "\<exists>r. d_name (ce_data (t ! k)) = q @ r"
      then obtain r where r: "d_name (ce_data (t ! k)) = q @ r" by blast
      have "\<not> k < first" unfolding lb [OF that] bq r using prefix_le [of q r] by (rule leD)
      moreover have "k < stop" unfolding lb' [OF that] bs r by (rule under_prefix_less [OF False])
      ultimately show "first \<le> k \<and> k < stop" by simp
    qed
    have "first \<le> stop"
    proof (rule ccontr)
      assume "\<not> first \<le> stop"
      then have "stop < first" "stop < length t" using le by simp_all
      with lb [of stop] lb' [of stop] bq bs up show False by (auto dest: order.strict_trans)
    qed
    with iff show ?thesis by (simp add: stop lower_bound_le)
  qed
  then show "first \<le> stop" "stop \<le> length t" "k < length t \<Longrightarrow> first \<le> k \<and> k < stop \<longleftrightarrow> (\<exists>r. d_name (ce_data (t ! k)) = q @ r)"
    by blast+
qed

lemma canSatisfy_prefix:
  assumes "canSatisfy dg now i e" and "plain_query (in_name i)"
  shows "\<exists>r. d_name (ce_data e) = in_name i @ r"
proof -
  have m: "matchesData (dg (ce_data e)) i (ce_data e)" using assms(1) by (simp add: canSatisfy_def split: if_splits)
  have "length (in_name i) \<noteq> length (d_name (ce_data e)) + 1"
  proof
    assume len: "length (in_name i) = length (d_name (ce_data e)) + 1"
    then have "in_name i \<noteq> []" by auto
    with assms(2) have "fst (last (in_name i)) \<noteq> tlv_ImplicitSha256Digest" by (auto simp: plain_query_def isSha256Type_def)
    with m len show False by (auto simp: matchesData_def Let_def split: if_splits)
  qed
  with m have "isPrefixOf (in_name i) (d_name (ce_data e))" by (auto simp: matchesData_def Let_def split: if_splits)
  then show ?thesis by (simp add: isPrefixOf_iff)
qed

section \<open>The lookup\<close>

lemma getPrefix_take:
  assumes "k < 2 ^ 63"
  shows "getPrefix (int k + 1) n = take (k + 1) n"
proof -
  define x :: u64 where "x = of_int (int k + 1)"
  have "x = of_nat (k + 1)" by (simp add: x_def)
  then have u: "unat x = k + 1" using assms by (simp only: unat_of_nat) simp
  then have "x \<noteq> npos" using assms by (auto simp: npos_def)
  moreover have "getPrefix (int k + 1) n = getSubName 0 x n" by (simp add: getPrefix_def x_def)
  ultimately show ?thesis using u by (simp add: getSubName_def Let_def min_def)
qed

text \<open>The names one component below the query start inside the range and end before its last entry.\<close>

lemma left_ok:
  assumes "table_ok dg t" and "name_fits q" and "plain_query q" and "find_range dg q t = (first, stop)"
    and "first < right" and "right \<le> stop" and "length (d_name (ce_data (t ! (right - 1)))) \<noteq> length q"
  shows "first \<le> lower_bound dg (getPrefix (int (length q) + 1) (d_name (ce_data (t ! (right - 1))))) t \<and>
    lower_bound dg (getPrefix (int (length q) + 1) (d_name (ce_data (t ! (right - 1))))) t < right"
proof -
  let ?prev = "ce_data (t ! (right - 1))"
  note range = find_range_ok [OF assms(1-4)]
  have prev: "right - 1 < length t" using assms(5,6) range(2) by linarith
  then obtain r where r: "d_name ?prev = q @ r" using range(3) [OF prev] assms(5,6) by auto
  then have "r \<noteq> []" using assms(7) by auto
  then obtain c r' where c: "r = c # r'" by (cases r) auto
  have fits: "name_fits (d_name ?prev)" using assms(1) prev by (simp add: table_ok_def data_fits_def)
  have len: "length q < 2 ^ 63" using assms(2) by (simp add: name_fits_def)
  have p: "getPrefix (int (length q) + 1) (d_name ?prev) = q @ [c]" using getPrefix_take [OF len] r c by simp
  have ok: "name_ok (q @ [c])" using name_fits_ok [OF fits] r c by simp
  have "\<not> below dg (q @ [c]) ?prev"
    using r c prefix_le [of "q @ [c]" r'] prefix_le [of q "c # r'"] by (auto simp: below_def entry_key_def less_prod_def' not_less)
  then have "lower_bound dg (q @ [c]) t < right" using lower_bound_iff [OF assms(1) ok prev] assms(5) by linarith
  moreover have "first \<le> lower_bound dg (q @ [c]) t"
  proof (rule ccontr)
    let ?k = "lower_bound dg (q @ [c]) t"
    assume "\<not> first \<le> ?k"
    then have k: "?k < first" "?k < length t" using range(1,2) by auto
    have "below dg q (ce_data (t ! ?k))"
      using lower_bound_iff [OF assms(1) name_fits_ok [OF assms(2)] k(2)] k(1) assms(4) by (simp add: find_range_def)
    then have "below dg (q @ [c]) (ce_data (t ! ?k))"
      using plain_not_digest [OF assms(3)] order.strict_trans2 [OF _ prefix_le [of q "[c]"]]
      by (auto simp: below_def entry_key_def less_prod_def')
    with lower_bound_iff [OF assms(1) ok k(2)] show False by simp
  qed
  ultimately show ?thesis unfolding p by blast
qed

lemma findRightmost_ok:
  assumes "table_ok dg t" and "name_fits (in_name i)" and "plain_query (in_name i)" and "find_range dg (in_name i) t = (first, stop)"
    and "first \<le> right" and "right \<le> stop" and "\<And>k. right \<le> k \<Longrightarrow> k < stop \<Longrightarrow> \<not> canSatisfy dg now i (t ! k)"
  shows "\<exists>m. findRightmost dg now i t first stop right = Some (Def m) \<and>
    (m \<noteq> stop \<longrightarrow> first \<le> m \<and> m < stop \<and> canSatisfy dg now i (t ! m)) \<and>
    (m = stop \<longrightarrow> (\<forall>k. first \<le> k \<and> k < stop \<longrightarrow> \<not> canSatisfy dg now i (t ! k)))"
  using assms(5-7)
proof (induction right rule: less_induct)
  case (less right)
  note range = find_range_ok [OF assms(1-4)]
  let ?prev = "ce_data (t ! (right - 1))"
  let ?left = "lower_bound dg (getPrefix (int (length (in_name i)) + 1) (d_name ?prev)) t"
  have right: "right \<le> length t" using less.prems(2) range(2) by simp
  consider "right = first" | "right \<noteq> first" "length (d_name ?prev) = length (in_name i)"
    | "right \<noteq> first" "length (d_name ?prev) \<noteq> length (in_name i)" by blast
  then show ?case
  proof cases
    case 1
    then show ?thesis using less.prems(3) by (subst findRightmost.simps) auto
  next
    case 2
    then have "right \<noteq> 0" using less.prems(1) by simp
    note exact = find_last_if_ok [OF less.prems(1) right, where P = "canSatisfy dg now i"]
    show ?thesis
      using 2 \<open>right \<noteq> 0\<close> exact less.prems(2,3) by (subst findRightmost.simps) (auto simp: Let_def not_less dest: leI)
  next
    case 3
    then have "right \<noteq> 0" "first < right" using less.prems(1) by simp_all
    have left: "first \<le> ?left" "?left < right" using left_ok [OF assms(1-4) \<open>first < right\<close> less.prems(2)] 3(2) by blast+
    note found = find_if_ok [OF less_imp_le [OF left(2)] right, where P = "canSatisfy dg now i"]
    let ?m = "find_if (canSatisfy dg now i) ?left right t"
    have run: "findRightmost dg now i t first stop right = (if ?m \<noteq> right then Some (Def ?m) else findRightmost dg now i t first stop ?left)"
      using 3 \<open>right \<noteq> 0\<close> by (subst findRightmost.simps) (simp add: Let_def)
    show ?thesis
    proof (cases "?m = right")
      case True
      have none: "\<not> canSatisfy dg now i (t ! k)" if "?left \<le> k" "k < stop" for k
        using found(4) [of k] less.prems(3) [of k] that True by (cases "k < right") auto
      from less.IH [OF left(2,1) _ none] left(2) less.prems(2) show ?thesis unfolding run using True by auto
    next
      case False
      then show ?thesis unfolding run using found left less.prems(2) by auto
    qed
  qed
qed

text \<open>The store serves an Interest exactly when it holds Data that can satisfy it.\<close>

lemma find_match_ok:
  assumes "table_ok dg t" and "name_fits (in_name i)" and "plain_query (in_name i)"
  shows "\<exists>m. find_match dg now i t = Some (Def m) \<and>
    (case m of None \<Rightarrow> \<forall>e\<in>set t. \<not> canSatisfy dg now i e | Some k \<Rightarrow> k < length t \<and> canSatisfy dg now i (t ! k))"
proof -
  obtain first stop where fs: "find_range dg (in_name i) t = (first, stop)" by fastforce
  note range = find_range_ok [OF assms fs]
  have all: "\<forall>e\<in>set t. \<not> canSatisfy dg now i e" if "\<forall>k. first \<le> k \<and> k < stop \<longrightarrow> \<not> canSatisfy dg now i (t ! k)"
  proof
    fix e assume "e \<in> set t"
    then obtain k where k: "k < length t" "e = t ! k" by (auto simp: in_set_conv_nth)
    show "\<not> canSatisfy dg now i e"
      using that canSatisfy_prefix [OF _ assms(3), of dg now e] range(3) [OF k(1)] k(2) by blast
  qed
  have "\<exists>m. (if sel_childSelector (in_selectors i) = 1 then findRightmost dg now i t first stop stop
        else Some (Def (find_if (canSatisfy dg now i) first stop t))) = Some (Def m) \<and>
      (m \<noteq> stop \<longrightarrow> first \<le> m \<and> m < stop \<and> canSatisfy dg now i (t ! m)) \<and>
      (m = stop \<longrightarrow> (\<forall>k. first \<le> k \<and> k < stop \<longrightarrow> \<not> canSatisfy dg now i (t ! k)))"
  proof (cases "sel_childSelector (in_selectors i) = 1")
    case True
    then show ?thesis using findRightmost_ok [OF assms fs range(1) order_refl, where now = now] by simp
  next
    case False
    then show ?thesis using find_if_ok [OF range(1,2), where P = "canSatisfy dg now i"] by (simp add: le_less) blast
  qed
  then obtain m where m: "(if sel_childSelector (in_selectors i) = 1 then findRightmost dg now i t first stop stop
        else Some (Def (find_if (canSatisfy dg now i) first stop t))) = Some (Def m)"
    "m \<noteq> stop \<longrightarrow> first \<le> m \<and> m < stop \<and> canSatisfy dg now i (t ! m)"
    "m = stop \<longrightarrow> (\<forall>k. first \<le> k \<and> k < stop \<longrightarrow> \<not> canSatisfy dg now i (t ! k))" by blast
  have "find_match dg now i t = Some (Def (if m = stop then None else Some m))"
    unfolding find_match_def fs Let_def prod.case m(1) by simp
  moreover have "case (if m = stop then None else Some m) of None \<Rightarrow> \<forall>e\<in>set t. \<not> canSatisfy dg now i e
      | Some k \<Rightarrow> k < length t \<and> canSatisfy dg now i (t ! k)"
    using m(2,3) range(2) all by auto
  ultimately show ?thesis by blast
qed

section \<open>Insertion\<close>

lemma emplace_ok:
  assumes "table_ok dg t" and "data_fits dg (ce_data e)" and "emplace dg e t = (t', k, isNew)"
  shows "table_ok dg t' \<and> k < length t' \<and>
    (if isNew then set t' = insert e (set t) \<and> length t' = length t + 1 \<and> t' ! k = e \<and> entry_key dg (ce_data e) \<notin> (\<lambda>x. entry_key dg (ce_data x)) ` set t
     else t' = t \<and> entry_key dg (ce_data (t ! k)) = entry_key dg (ce_data e))"
  using assms
proof (induction t arbitrary: t' k)
  case Nil
  then show ?case by (auto simp: table_ok_def)
next
  case (Cons x xs)
  have fits: "data_fits dg (ce_data x)" "data_fits dg (ce_data e)" using Cons.prems(1,2) by (simp_all add: table_ok_def)
  note cmp = compareDataWithData_key [OF fits(2,1)] compareDataWithData_key [OF fits]
  have xs: "table_ok dg xs" "\<forall>y\<in>set xs. entry_key dg (ce_data x) < entry_key dg (ce_data y)"
    using Cons.prems(1) by (simp_all add: table_ok_def)
  consider "entry_key dg (ce_data e) < entry_key dg (ce_data x)" | "entry_key dg (ce_data x) < entry_key dg (ce_data e)"
    | "entry_key dg (ce_data x) = entry_key dg (ce_data e)" by fastforce
  then show ?case
  proof cases
    case 1
    then have "t' = e # x # xs" "k = 0" "isNew" using Cons.prems(3) cmp by auto
    with 1 Cons.prems(1) fits xs(2) show ?thesis by (auto simp: table_ok_def)
  next
    case 2
    then obtain ys j where ys: "emplace dg e xs = (ys, j, isNew)" "t' = x # ys" "k = Suc j"
      using Cons.prems(3) cmp by (auto split: prod.splits)
    from Cons.IH [OF xs(1) fits(2) ys(1)] 2 ys(2,3) fits xs(2) show ?thesis
      by (auto simp: table_ok_def split: if_splits)
  next
    case 3
    then have "t' = x # xs" "k = 0" "\<not> isNew" using Cons.prems(3) cmp by auto
    with 3 Cons.prems(1) show ?thesis by simp
  qed
qed

end
