(* ===== verification/Nfd_Cs.thy ===== *)
theory Nfd_Cs
  imports Nfd_Cs_Table Nfd_Scheduler
begin

text \<open>
  The content store and its replacement policies (\<open>src/NFD/daemon/table/cs.cpp\<close>, \<open>cs-policy.cpp\<close>,
  \<open>cs-policy-lru.cpp\<close>, \<open>cs-policy-priority-fifo.cpp\<close>). The virtual methods of \<open>Policy\<close> are a record of
  functions; a policy refers to a table entry by its full name, which identifies the entry. A failed
  assertion and the use of an erased iterator are values of \<open>outcome\<close>. The locale \<open>cs_replacement\<close> states what
  the store relies on in a policy; the operations of the store are verified once, against those laws.
\<close>

section \<open>The store and the interface of a policy\<close>

record 'p cs =
  cs_table :: "cs_entry list"
  cs_policy :: 'p
  cs_limit :: nat
  cs_shouldAdmit :: bool
  cs_shouldServe :: bool
  cs_now :: int

record 'p policy_ops =
  doAfterInsert :: "name \<Rightarrow> 'p cs \<Rightarrow> 'p cs outcome"
  doAfterRefresh :: "name \<Rightarrow> 'p cs \<Rightarrow> 'p cs outcome"
  doBeforeErase :: "name \<Rightarrow> 'p cs \<Rightarrow> 'p cs outcome"
  doBeforeUse :: "name \<Rightarrow> 'p cs \<Rightarrow> 'p cs outcome"
  evictEntries :: "'p cs \<Rightarrow> 'p cs outcome"
  runTimer :: "'p cs \<Rightarrow> 'p cs outcome"

definition getFullName :: "(data \<Rightarrow> component) \<Rightarrow> cs_entry \<Rightarrow> name" where
  "getFullName dg e = d_name (ce_data e) @ [dg (ce_data e)]"

text \<open>The handler of \<open>beforeEvict\<close> installed by \<open>setPolicyImpl\<close>.\<close>

definition eraseEntry :: "(data \<Rightarrow> component) \<Rightarrow> name \<Rightarrow> 'p cs \<Rightarrow> 'p cs outcome" where
  "eraseEntry dg i s =
     (if list_ex (\<lambda>e. getFullName dg e = i) (cs_table s)
      then Def (s\<lparr> cs_table := filter (\<lambda>e. getFullName dg e \<noteq> i) (cs_table s) \<rparr>)
      else Undef InvalidatedIterator)"

definition cs_setLimit :: "'p policy_ops \<Rightarrow> nat \<Rightarrow> 'p cs \<Rightarrow> 'p cs outcome" where
  "cs_setLimit pol nMaxEntries s = evictEntries pol (s\<lparr> cs_limit := nMaxEntries \<rparr>)"

definition mkCs :: "'p policy_ops \<Rightarrow> 'p \<Rightarrow> nat \<Rightarrow> int \<Rightarrow> 'p cs outcome" where
  "mkCs pol p nMaxPackets now =
     cs_setLimit pol nMaxPackets
       \<lparr> cs_table = [], cs_policy = p, cs_limit = 0, cs_shouldAdmit = True, cs_shouldServe = True, cs_now = now \<rparr>"

text \<open>\<open>setPolicy\<close>: the new policy keeps the limit; whatever the old policy knew is dropped with it.\<close>

definition cs_setPolicy :: "'q policy_ops \<Rightarrow> 'q \<Rightarrow> 'p cs \<Rightarrow> 'q cs outcome" where
  "cs_setPolicy pol q s =
     cs_setLimit pol (cs_limit s)
       \<lparr> cs_table = cs_table s, cs_policy = q, cs_limit = 0, cs_shouldAdmit = cs_shouldAdmit s,
          cs_shouldServe = cs_shouldServe s, cs_now = cs_now s \<rparr>"

definition cs_enableAdmit :: "bool \<Rightarrow> 'p cs \<Rightarrow> 'p cs" where
  "cs_enableAdmit b s = (if cs_shouldAdmit s = b then s else s\<lparr> cs_shouldAdmit := b \<rparr>)"

definition cs_enableServe :: "bool \<Rightarrow> 'p cs \<Rightarrow> 'p cs" where
  "cs_enableServe b s = (if cs_shouldServe s = b then s else s\<lparr> cs_shouldServe := b \<rparr>)"

section \<open>Operations of the store\<close>

definition cs_insert :: "(data \<Rightarrow> component) \<Rightarrow> 'p policy_ops \<Rightarrow> data \<Rightarrow> bool \<Rightarrow> 'p cs \<Rightarrow> 'p cs outcome" where
  "cs_insert dg pol d isUnsolicited s =
     (if \<not> cs_shouldAdmit s \<or> cs_limit s = 0 then Def s
      else if d_cachePolicy d = Some 1 then Def s
      else
        let (table, it, isNewEntry) = emplace dg (mkEntryImpl (cs_now s) d isUnsolicited) (cs_table s);
            entry = updateStaleTime (cs_now s) (table ! it) in
        if \<not> isNewEntry then
          let entry' = (if ce_isUnsolicited entry \<and> \<not> isUnsolicited then unsetUnsolicited (cs_now s) entry else entry) in
          doAfterRefresh pol (getFullName dg entry') (s\<lparr> cs_table := table[it := entry'] \<rparr>)
        else doAfterInsert pol (getFullName dg entry) (s\<lparr> cs_table := table[it := entry] \<rparr>))"

text \<open>The loop of \<open>erase\<close>: \<open>n\<close> entries are removed, starting at position \<open>first\<close>.\<close>

primrec erase_loop :: "(data \<Rightarrow> component) \<Rightarrow> 'p policy_ops \<Rightarrow> nat \<Rightarrow> nat \<Rightarrow> 'p cs \<Rightarrow> 'p cs outcome" where
  "erase_loop dg pol first 0 s = Def s"
| "erase_loop dg pol first (Suc n) s =
     bindU (doBeforeErase pol (getFullName dg (cs_table s ! first)) s)
       (\<lambda>s'. erase_loop dg pol first n (s'\<lparr> cs_table := take first (cs_table s') @ drop (Suc first) (cs_table s') \<rparr>))"

definition cs_erase :: "(data \<Rightarrow> component) \<Rightarrow> 'p policy_ops \<Rightarrow> name \<Rightarrow> nat \<Rightarrow> 'p cs \<Rightarrow> (nat \<times> 'p cs) outcome" where
  "cs_erase dg pol prefix limit s =
     (let (first, stop) = find_range dg prefix (cs_table s); n = min (stop - first) limit in
      bindU (erase_loop dg pol first n s) (\<lambda>s'. Def (n, s')))"

text \<open>\<open>find\<close>: the Data given to the hit callback, or \<open>None\<close> for the miss callback.\<close>

definition cs_find :: "(data \<Rightarrow> component) \<Rightarrow> 'p policy_ops \<Rightarrow> interest \<Rightarrow> 'p cs \<Rightarrow> (data option \<times> 'p cs) outcome option" where
  "cs_find dg pol i s =
     (if \<not> cs_shouldServe s \<or> cs_limit s = 0 then Some (Def (None, s))
      else map_option (\<lambda>m. bindU m (\<lambda>m. case m of None \<Rightarrow> Def (None, s)
             | Some k \<Rightarrow> bindU (doBeforeUse pol (getFullName dg (cs_table s ! k)) s)
                 (\<lambda>s'. Def (Some (ce_data (cs_table s ! k)), s'))))
             (find_match dg (cs_now s) i (cs_table s)))"

section \<open>Least recently used\<close>

definition insertToQueue :: "name \<Rightarrow> bool \<Rightarrow> name list \<Rightarrow> name list outcome" where
  "insertToQueue i isNewEntry q =
     (let isNew = (i \<notin> set q); q' = (if isNew then q @ [i] else q) in
      assertion (isNew = isNewEntry) (Def (if \<not> isNewEntry then remove1 i q' @ [i] else q')))"

function (sequential) lru_evictEntries :: "(data \<Rightarrow> component) \<Rightarrow> name list cs \<Rightarrow> name list cs outcome" where
  "lru_evictEntries dg s =
     (if length (cs_table s) > cs_limit s then
        case cs_policy s of [] \<Rightarrow> Undef AssertionFailed
        | i # q \<Rightarrow> bindU (eraseEntry dg i (s\<lparr> cs_policy := q \<rparr>)) (lru_evictEntries dg)
      else Def s)"
  by pat_completeness auto
termination
  by (relation "measure (\<lambda>(dg, s). length (cs_policy s))") (auto simp: eraseEntry_def split: if_splits)

declare lru_evictEntries.simps [simp del]

definition lru_requeue :: "bool \<Rightarrow> name \<Rightarrow> name list cs \<Rightarrow> name list cs outcome" where
  "lru_requeue isNewEntry i s = bindU (insertToQueue i isNewEntry (cs_policy s)) (\<lambda>q. Def (s\<lparr> cs_policy := q \<rparr>))"

definition lruPolicy :: "(data \<Rightarrow> component) \<Rightarrow> name list policy_ops" where
  "lruPolicy dg =
     \<lparr> doAfterInsert = (\<lambda>i s. bindU (lru_requeue True i s) (lru_evictEntries dg)),
        doAfterRefresh = lru_requeue False,
        doBeforeErase = (\<lambda>i s. Def (s\<lparr> cs_policy := remove1 i (cs_policy s) \<rparr>)),
        doBeforeUse = lru_requeue False,
        evictEntries = lru_evictEntries dg,
        runTimer = Def \<rparr>"

section \<open>Priority FIFO\<close>

datatype queue_type = QUEUE_UNSOLICITED | QUEUE_STALE | QUEUE_FIFO

record entry_info =
  ei_queueType :: queue_type
  ei_moveStaleEventId :: "nat option"

record pfifo =
  pf_queues :: "queue_type \<Rightarrow> name list"
  pf_entryInfoMap :: "name \<Rightarrow> entry_info option"
  pf_scheduler :: "name scheduler"

definition mkPfifo :: pfifo where
  "mkPfifo = \<lparr> pf_queues = (\<lambda>_. []), pf_entryInfoMap = (\<lambda>_. None), pf_scheduler = mkScheduler \<rparr>"

definition attachQueue :: "int \<Rightarrow> name \<Rightarrow> cs_entry \<Rightarrow> pfifo \<Rightarrow> pfifo outcome" where
  "attachQueue now i e p =
     assertion (pf_entryInfoMap p i = None)
       (let (info, sch) =
              (if ce_isUnsolicited e then (\<lparr> ei_queueType = QUEUE_UNSOLICITED, ei_moveStaleEventId = None \<rparr>, pf_scheduler p)
               else if isStale now e then (\<lparr> ei_queueType = QUEUE_STALE, ei_moveStaleEventId = None \<rparr>, pf_scheduler p)
               else (case scheduleEvent (d_freshness (ce_data e) * 1000000) i (sc_advance now (pf_scheduler p)) of
                       (eid, sch) \<Rightarrow> (\<lparr> ei_queueType = QUEUE_FIFO, ei_moveStaleEventId = Some eid \<rparr>, sch)))
        in Def (p\<lparr> pf_queues := (pf_queues p)(ei_queueType info := pf_queues p (ei_queueType info) @ [i]),
                   pf_entryInfoMap := (pf_entryInfoMap p)(i \<mapsto> info), pf_scheduler := sch \<rparr>))"

definition detachQueue :: "name \<Rightarrow> pfifo \<Rightarrow> pfifo outcome" where
  "detachQueue i p =
     (case pf_entryInfoMap p i of None \<Rightarrow> Undef AssertionFailed
      | Some info \<Rightarrow>
          if i \<in> set (pf_queues p (ei_queueType info)) then
            Def (p\<lparr> pf_queues := (pf_queues p)(ei_queueType info := remove1 i (pf_queues p (ei_queueType info))),
                     pf_entryInfoMap := (pf_entryInfoMap p)(i := None),
                     pf_scheduler := (if ei_queueType info = QUEUE_FIFO
                                      then cancelEvent (ei_moveStaleEventId info) (pf_scheduler p) else pf_scheduler p) \<rparr>)
          else Undef InvalidatedIterator)"

definition moveToStaleQueue :: "name \<Rightarrow> pfifo \<Rightarrow> pfifo outcome" where
  "moveToStaleQueue i p =
     (case pf_entryInfoMap p i of None \<Rightarrow> Undef AssertionFailed
      | Some info \<Rightarrow> assertion (ei_queueType info = QUEUE_FIFO)
          (if i \<in> set (pf_queues p QUEUE_FIFO) then
             Def (p\<lparr> pf_queues := (pf_queues p)(QUEUE_FIFO := remove1 i (pf_queues p QUEUE_FIFO),
                                                 QUEUE_STALE := pf_queues p QUEUE_STALE @ [i]),
                      pf_entryInfoMap := (pf_entryInfoMap p)(i \<mapsto> info\<lparr> ei_queueType := QUEUE_STALE \<rparr>) \<rparr>)
           else Undef InvalidatedIterator))"

text \<open>The entry \<open>evictOne\<close> chooses: unsolicited ones first, then stale ones, then the oldest.\<close>

definition evict_choice :: "pfifo \<Rightarrow> name option" where
  "evict_choice p =
     (case pf_queues p QUEUE_UNSOLICITED of i # _ \<Rightarrow> Some i
      | [] \<Rightarrow> (case pf_queues p QUEUE_STALE of i # _ \<Rightarrow> Some i
      | [] \<Rightarrow> (case pf_queues p QUEUE_FIFO of i # _ \<Rightarrow> Some i | [] \<Rightarrow> None)))"

definition evictOne :: "(data \<Rightarrow> component) \<Rightarrow> pfifo cs \<Rightarrow> pfifo cs outcome" where
  "evictOne dg s =
     (case evict_choice (cs_policy s) of None \<Rightarrow> Undef AssertionFailed
      | Some i \<Rightarrow> bindU (detachQueue i (cs_policy s)) (\<lambda>p. eraseEntry dg i (s\<lparr> cs_policy := p \<rparr>)))"

definition pf_queued :: "pfifo \<Rightarrow> nat" where
  "pf_queued p = length (pf_queues p QUEUE_UNSOLICITED) + length (pf_queues p QUEUE_STALE) + length (pf_queues p QUEUE_FIFO)"

lemma length_remove1_less: "x \<in> set xs \<Longrightarrow> length (remove1 x xs) < length xs"
  using length_pos_if_in_set [of x xs] by (simp add: length_remove1)

lemma detachQueue_queued: "detachQueue i p = Def p' \<Longrightarrow> pf_queued p' < pf_queued p"
  by (cases "ei_queueType (the (pf_entryInfoMap p i))")
    (auto simp: detachQueue_def pf_queued_def length_remove1_less split: option.splits if_splits)

lemma evictOne_queued: "evictOne dg s = Def s' \<Longrightarrow> pf_queued (cs_policy s') < pf_queued (cs_policy s)"
  by (auto simp: evictOne_def bindU_eq_Def eraseEntry_def detachQueue_queued split: option.splits if_splits)

function (sequential) pf_evictEntries :: "(data \<Rightarrow> component) \<Rightarrow> pfifo cs \<Rightarrow> pfifo cs outcome" where
  "pf_evictEntries dg s =
     (if length (cs_table s) > cs_limit s then bindU (evictOne dg s) (pf_evictEntries dg) else Def s)"
  by pat_completeness auto
termination
  by (relation "measure (\<lambda>(dg, s). pf_queued (cs_policy s))") (auto simp: evictOne_queued)

declare pf_evictEntries.simps [simp del]

definition pf_attach :: "(data \<Rightarrow> component) \<Rightarrow> name \<Rightarrow> pfifo cs \<Rightarrow> pfifo cs outcome" where
  "pf_attach dg i s =
     (case List.find (\<lambda>e. getFullName dg e = i) (cs_table s) of None \<Rightarrow> Undef InvalidatedIterator
      | Some e \<Rightarrow> bindU (attachQueue (cs_now s) i e (cs_policy s)) (\<lambda>p. Def (s\<lparr> cs_policy := p \<rparr>)))"

definition pf_detach :: "name \<Rightarrow> pfifo cs \<Rightarrow> pfifo cs outcome" where
  "pf_detach i s = bindU (detachQueue i (cs_policy s)) (\<lambda>p. Def (s\<lparr> cs_policy := p \<rparr>))"

definition pf_runTimer :: "pfifo cs \<Rightarrow> pfifo cs outcome" where
  "pf_runTimer s =
     (case takeExpired (sc_advance (cs_now s) (pf_scheduler (cs_policy s))) of
        None \<Rightarrow> Def s
      | Some ((eid, i), sch) \<Rightarrow>
          bindU (moveToStaleQueue i ((cs_policy s)\<lparr> pf_scheduler := sch \<rparr>)) (\<lambda>p. Def (s\<lparr> cs_policy := p \<rparr>)))"

definition pfifoPolicy :: "(data \<Rightarrow> component) \<Rightarrow> pfifo policy_ops" where
  "pfifoPolicy dg =
     \<lparr> doAfterInsert = (\<lambda>i s. bindU (pf_attach dg i s) (pf_evictEntries dg)),
        doAfterRefresh = (\<lambda>i s. bindU (pf_detach i s) (pf_attach dg i)),
        doBeforeErase = pf_detach,
        doBeforeUse = (\<lambda>i s. assertion (pf_entryInfoMap (cs_policy s) i \<noteq> None) (Def s)),
        evictEntries = pf_evictEntries dg,
        runTimer = pf_runTimer \<rparr>"

section \<open>Sequences of operations\<close>

datatype cs_op =
    CsInsert data bool
  | CsErase name nat
  | CsFind interest
  | CsSetLimit nat
  | CsEnableAdmit bool
  | CsEnableServe bool
  | CsAdvance int
  | CsTimer

primrec cs_step :: "(data \<Rightarrow> component) \<Rightarrow> 'p policy_ops \<Rightarrow> cs_op \<Rightarrow> 'p cs \<Rightarrow> 'p cs outcome option" where
  "cs_step dg pol (CsInsert d u) s = Some (cs_insert dg pol d u s)"
| "cs_step dg pol (CsErase prefix limit) s = Some (bindU (cs_erase dg pol prefix limit s) (\<lambda>r. Def (snd r)))"
| "cs_step dg pol (CsFind i) s = map_option (\<lambda>r. bindU r (\<lambda>r. Def (snd r))) (cs_find dg pol i s)"
| "cs_step dg pol (CsSetLimit n) s = Some (cs_setLimit pol n s)"
| "cs_step dg pol (CsEnableAdmit b) s = Some (Def (cs_enableAdmit b s))"
| "cs_step dg pol (CsEnableServe b) s = Some (Def (cs_enableServe b s))"
| "cs_step dg pol (CsAdvance t) s = Some (Def (s\<lparr> cs_now := max (cs_now s) t \<rparr>))"
| "cs_step dg pol CsTimer s = Some (runTimer pol s)"

primrec cs_run :: "(data \<Rightarrow> component) \<Rightarrow> 'p policy_ops \<Rightarrow> cs_op list \<Rightarrow> 'p cs outcome \<Rightarrow> 'p cs outcome option" where
  "cs_run dg pol [] r = Some r"
| "cs_run dg pol (op # ops) r =
     (case r of Undef u \<Rightarrow> Some (Undef u)
      | Def s \<Rightarrow> (case cs_step dg pol op s of None \<Rightarrow> None | Some r' \<Rightarrow> cs_run dg pol ops r'))"

text \<open>Packets whose lengths fit the machine, and Interests whose name does not end in a digest.\<close>

primrec cs_op_ok :: "(data \<Rightarrow> component) \<Rightarrow> cs_op \<Rightarrow> bool" where
  "cs_op_ok dg (CsInsert d u) = data_fits dg d"
| "cs_op_ok dg (CsErase prefix limit) = True"
| "cs_op_ok dg (CsFind i) = (name_fits (in_name i) \<and> plain_query (in_name i))"
| "cs_op_ok dg (CsSetLimit n) = True"
| "cs_op_ok dg (CsEnableAdmit b) = True"
| "cs_op_ok dg (CsEnableServe b) = True"
| "cs_op_ok dg (CsAdvance t) = True"
| "cs_op_ok dg CsTimer = True"

section \<open>What the store relies on\<close>

definition cs_keys :: "(data \<Rightarrow> component) \<Rightarrow> 'p cs \<Rightarrow> name set" where
  "cs_keys dg s = getFullName dg ` set (cs_table s)"

text \<open>The store after some entries were evicted.\<close>

definition evicted :: "'p cs \<Rightarrow> 'p cs \<Rightarrow> bool" where
  "evicted s s' \<longleftrightarrow> (\<exists>P p. s' = s\<lparr> cs_table := filter P (cs_table s), cs_policy := p \<rparr>)"

text \<open>
  \<open>tracks p K\<close>: the policy state \<open>p\<close> knows exactly the entries named in \<open>K\<close>. No method fails when it is called
  as the store calls it, and each leaves a policy that knows the entries of the table.
\<close>

locale cs_replacement =
  fixes dg :: "data \<Rightarrow> component"
    and pol :: "'p policy_ops"
    and tracks :: "'p \<Rightarrow> name set \<Rightarrow> bool"
  assumes after_insert: "table_ok dg (cs_table s) \<Longrightarrow> k \<in> cs_keys dg s \<Longrightarrow> tracks (cs_policy s) (cs_keys dg s - {k}) \<Longrightarrow>
      \<exists>s'. doAfterInsert pol k s = Def s' \<and> evicted s s' \<and> tracks (cs_policy s') (cs_keys dg s') \<and> length (cs_table s') \<le> cs_limit s"
    and after_refresh: "table_ok dg (cs_table s) \<Longrightarrow> k \<in> cs_keys dg s \<Longrightarrow> tracks (cs_policy s) (cs_keys dg s) \<Longrightarrow>
      \<exists>p. doAfterRefresh pol k s = Def (s\<lparr> cs_policy := p \<rparr>) \<and> tracks p (cs_keys dg s)"
    and before_erase: "table_ok dg (cs_table s) \<Longrightarrow> k \<in> cs_keys dg s \<Longrightarrow> tracks (cs_policy s) (cs_keys dg s) \<Longrightarrow>
      \<exists>p. doBeforeErase pol k s = Def (s\<lparr> cs_policy := p \<rparr>) \<and> tracks p (cs_keys dg s - {k})"
    and before_use: "table_ok dg (cs_table s) \<Longrightarrow> k \<in> cs_keys dg s \<Longrightarrow> tracks (cs_policy s) (cs_keys dg s) \<Longrightarrow>
      \<exists>p. doBeforeUse pol k s = Def (s\<lparr> cs_policy := p \<rparr>) \<and> tracks p (cs_keys dg s)"
    and evict: "table_ok dg (cs_table s) \<Longrightarrow> tracks (cs_policy s) (cs_keys dg s) \<Longrightarrow>
      \<exists>s'. evictEntries pol s = Def s' \<and> evicted s s' \<and> tracks (cs_policy s') (cs_keys dg s') \<and> length (cs_table s') \<le> cs_limit s"
    and timer: "table_ok dg (cs_table s) \<Longrightarrow> tracks (cs_policy s) (cs_keys dg s) \<Longrightarrow>
      \<exists>p. runTimer pol s = Def (s\<lparr> cs_policy := p \<rparr>) \<and> tracks p (cs_keys dg s)"

text \<open>What holds between the operations of the store.\<close>

definition cs_inv :: "(data \<Rightarrow> component) \<Rightarrow> ('p \<Rightarrow> name set \<Rightarrow> bool) \<Rightarrow> 'p cs \<Rightarrow> bool" where
  "cs_inv dg tracks s \<longleftrightarrow> table_ok dg (cs_table s) \<and> tracks (cs_policy s) (cs_keys dg s) \<and> length (cs_table s) \<le> cs_limit s"

lemma getFullName_eq: "getFullName dg a = getFullName dg b \<longleftrightarrow> d_name (ce_data a) = d_name (ce_data b) \<and> dg (ce_data a) = dg (ce_data b)"
  by (simp add: getFullName_def)

lemma table_ok_distinct:
  assumes "table_ok dg t"
  shows "distinct (map (getFullName dg) t)"
proof -
  have "sorted_wrt (\<lambda>x y. getFullName dg x \<noteq> getFullName dg y) t"
    using assms unfolding table_ok_def
    by (elim conjE sorted_wrt_mono_rel [rotated]) (auto simp: getFullName_eq entry_key_def)
  then show ?thesis by (induction t) auto
qed

lemma table_ok_filter: "table_ok dg t \<Longrightarrow> table_ok dg (filter P t)"
  by (auto simp: table_ok_def sorted_wrt_filter)

lemma table_ok_update:
  assumes "ce_data e = ce_data (t ! k)" and "k < length t"
  shows "table_ok dg (t[k := e]) \<longleftrightarrow> table_ok dg t" and "getFullName dg ` set (t[k := e]) = getFullName dg ` set t"
proof -
  have ok: "table_ok dg u \<longleftrightarrow> sorted_wrt (\<lambda>a b. entry_key dg a < entry_key dg b) (map ce_data u) \<and> (\<forall>d\<in>set (map ce_data u). data_fits dg d)" for u
    by (simp add: table_ok_def sorted_wrt_map)
  have names: "getFullName dg ` set u = (\<lambda>d. d_name d @ [dg d]) ` set (map ce_data u)" for u
    by (auto simp: getFullName_def)
  have m: "map ce_data (t[k := e]) = map ce_data t"
    using assms by (simp add: map_update) (metis list_update_id nth_map)
  show "table_ok dg (t[k := e]) \<longleftrightarrow> table_ok dg t" by (simp only: ok m)
  show "getFullName dg ` set (t[k := e]) = getFullName dg ` set t" by (simp only: names m)
qed

lemma cs_keys_table [simp]: "cs_keys dg (s\<lparr> cs_table := t \<rparr>) = getFullName dg ` set t"
  by (simp add: cs_keys_def)

lemma cs_keys_policy [simp]: "cs_keys dg (s\<lparr> cs_policy := p \<rparr>) = cs_keys dg s" "cs_keys dg (s\<lparr> cs_limit := n \<rparr>) = cs_keys dg s"
  by (simp_all add: cs_keys_def)

lemma nth_in_keys: "k < length (cs_table s) \<Longrightarrow> getFullName dg (cs_table s ! k) \<in> cs_keys dg s"
  by (simp add: cs_keys_def)

lemma refreshed_data [simp]:
  "ce_data (updateStaleTime now e) = ce_data e" "ce_data (unsetUnsolicited now e) = ce_data e" "ce_data (mkEntryImpl now d u) = d"
  by (simp_all add: updateStaleTime_def unsetUnsolicited_def mkEntryImpl_def)

lemma evicted_ok: "evicted s s' \<Longrightarrow> table_ok dg (cs_table s) \<Longrightarrow> table_ok dg (cs_table s') \<and> cs_limit s' = cs_limit s"
  by (auto simp: evicted_def table_ok_filter)

lemma entry_key_full: "entry_key dg (ce_data a) = entry_key dg (ce_data b) \<longleftrightarrow> getFullName dg a = getFullName dg b"
  by (simp add: getFullName_eq entry_key_def)

text \<open>The table after \<open>erase(first)\<close>.\<close>

lemma erase_nth_ok:
  assumes "table_ok dg t" and "k < length t"
  shows "table_ok dg (take k t @ drop (Suc k) t)"
    and "getFullName dg ` set (take k t @ drop (Suc k) t) = getFullName dg ` set t - {getFullName dg (t ! k)}"
proof -
  have t: "t = take k t @ t ! k # drop (Suc k) t" using assms(2) by (simp add: id_take_nth_drop)
  show "table_ok dg (take k t @ drop (Suc k) t)"
    using assms(1) by (subst (asm) t) (auto simp: table_ok_def sorted_wrt_append simp del: append_take_drop_id)
  have names: "map (getFullName dg) t = map (getFullName dg) (take k t) @ getFullName dg (t ! k) # map (getFullName dg) (drop (Suc k) t)"
    by (subst t) simp
  have "set (xs @ ys) = set (xs @ x # ys) - {x}" if "distinct (xs @ x # ys)" for xs ys and x :: name using that by auto
  from this [of "map (getFullName dg) (take k t)" "getFullName dg (t ! k)" "map (getFullName dg) (drop (Suc k) t)"]
  show "getFullName dg ` set (take k t @ drop (Suc k) t) = getFullName dg ` set t - {getFullName dg (t ! k)}"
    using table_ok_distinct [OF assms(1)] unfolding names [symmetric] by (simp add: image_Un)
qed

text \<open>What \<open>insert\<close> makes of the table, for Data that is not in it yet and for Data that is.\<close>

lemma emplaced_new:
  assumes "table_ok dg (cs_table s)" and "data_fits dg d" and "emplace dg (mkEntryImpl (cs_now s) d u) (cs_table s) = (t, k, True)"
    and "ce_data e = ce_data (t ! k)"
  shows "table_ok dg (t[k := e])" and "getFullName dg ` set (t[k := e]) = insert (getFullName dg e) (cs_keys dg s)"
    and "getFullName dg e \<notin> cs_keys dg s" and "ce_data e = d" and "e \<in> set (t[k := e])" and "length (t[k := e]) = Suc (length (cs_table s))"
proof -
  from emplace_ok [OF assms(1) _ assms(3)] assms(2) have t: "table_ok dg t" "k < length t" "t ! k = mkEntryImpl (cs_now s) d u"
    "set t = insert (mkEntryImpl (cs_now s) d u) (set (cs_table s))"
    "entry_key dg d \<notin> (\<lambda>x. entry_key dg (ce_data x)) ` set (cs_table s)" "length t = Suc (length (cs_table s))"
    by auto
  show "table_ok dg (t[k := e])" using table_ok_update(1) [OF assms(4) t(2)] t(1) by simp
  have "getFullName dg (t ! k) = getFullName dg e" by (simp add: getFullName_eq assms(4))
  then show "getFullName dg ` set (t[k := e]) = insert (getFullName dg e) (cs_keys dg s)"
    using table_ok_update(2) [OF assms(4) t(2), of dg] t(3,4) by (simp add: cs_keys_def)
  show "getFullName dg e \<notin> cs_keys dg s"
    using t(3,5) entry_key_full [of dg e] assms(4) by (auto simp: cs_keys_def image_iff)
  show "ce_data e = d" "e \<in> set (t[k := e])" "length (t[k := e]) = Suc (length (cs_table s))"
    using assms(4) t(2,3,6) by (simp_all add: set_update_memI)
qed

lemma emplaced_old:
  assumes "table_ok dg (cs_table s)" and "data_fits dg d" and "emplace dg (mkEntryImpl (cs_now s) d u) (cs_table s) = (t, k, False)"
    and "ce_data e = ce_data (t ! k)"
  shows "table_ok dg (t[k := e])" and "getFullName dg ` set (t[k := e]) = cs_keys dg s"
    and "getFullName dg e \<in> cs_keys dg s" and "getFullName dg e = d_name d @ [dg d]" and "e \<in> set (t[k := e])" and "length (t[k := e]) = length (cs_table s)"
    and "t = cs_table s" and "k < length (cs_table s)"
proof -
  from emplace_ok [OF assms(1) _ assms(3)] assms(2) have t: "t = cs_table s" "k < length t" "table_ok dg t"
    "entry_key dg (ce_data (cs_table s ! k)) = entry_key dg (ce_data (mkEntryImpl (cs_now s) d u))" by auto
  have full: "getFullName dg e = getFullName dg (cs_table s ! k)" by (simp add: getFullName_eq assms(4) t(1))
  show "table_ok dg (t[k := e])" "getFullName dg ` set (t[k := e]) = cs_keys dg s"
    using table_ok_update [OF assms(4) t(2), of dg] t(1,3) by (simp_all add: cs_keys_def)
  show "getFullName dg e \<in> cs_keys dg s" using nth_in_keys [of k s dg] t(1,2) full by simp
  show "getFullName dg e = d_name d @ [dg d]" unfolding full using t(4) by (simp add: entry_key_def getFullName_def)
  show "e \<in> set (t[k := e])" "length (t[k := e]) = length (cs_table s)" "t = cs_table s" "k < length (cs_table s)"
    using t(1,2) by (simp_all add: set_update_memI)
qed

lemma insert_eq:
  assumes "emplace dg (mkEntryImpl (cs_now s) d u) (cs_table s) = (t, k, isNew)"
  shows "cs_insert dg pol d u s =
      (if \<not> cs_shouldAdmit s \<or> cs_limit s = 0 then Def s else if d_cachePolicy d = Some 1 then Def s
       else let e = updateStaleTime (cs_now s) (t ! k); e' = (if ce_isUnsolicited e \<and> \<not> u then unsetUnsolicited (cs_now s) e else e) in
         if isNew then doAfterInsert pol (getFullName dg e) (s\<lparr> cs_table := t[k := e] \<rparr>)
         else doAfterRefresh pol (getFullName dg e') (s\<lparr> cs_table := t[k := e'] \<rparr>))"
  by (simp add: cs_insert_def Let_def assms)

section \<open>The operations of the store, for every such policy\<close>

context cs_replacement
begin

lemma insert_new:
  assumes "cs_inv dg tracks s" and "data_fits dg d" and "emplace dg (mkEntryImpl (cs_now s) d u) (cs_table s) = (t, k, True)"
    and "ce_data e = ce_data (t ! k)"
  shows "\<exists>s'. doAfterInsert pol (getFullName dg e) (s\<lparr> cs_table := t[k := e] \<rparr>) = Def s' \<and> cs_inv dg tracks s'"
proof -
  let ?s = "s\<lparr> cs_table := t[k := e] \<rparr>"
  have inv: "table_ok dg (cs_table s)" "tracks (cs_policy s) (cs_keys dg s)" using assms(1) by (simp_all add: cs_inv_def)
  note new = emplaced_new [OF inv(1) assms(2-4)]
  then have "\<exists>s'. doAfterInsert pol (getFullName dg e) ?s = Def s' \<and> evicted ?s s' \<and> tracks (cs_policy s') (cs_keys dg s') \<and>
      length (cs_table s') \<le> cs_limit ?s"
    using inv(2) by (intro after_insert) simp_all
  with new(1) show ?thesis by (auto simp: cs_inv_def dest!: evicted_ok)
qed

lemma insert_old:
  assumes "cs_inv dg tracks s" and "data_fits dg d" and "emplace dg (mkEntryImpl (cs_now s) d u) (cs_table s) = (t, k, False)"
    and "ce_data e = ce_data (t ! k)"
  shows "\<exists>s'. doAfterRefresh pol (getFullName dg e) (s\<lparr> cs_table := t[k := e] \<rparr>) = Def s' \<and> cs_inv dg tracks s'"
proof -
  have inv: "table_ok dg (cs_table s)" "tracks (cs_policy s) (cs_keys dg s)" "length (cs_table s) \<le> cs_limit s"
    using assms(1) by (simp_all add: cs_inv_def)
  note old = emplaced_old [OF inv(1) assms(2-4)]
  with after_refresh [of "s\<lparr> cs_table := t[k := e] \<rparr>" "getFullName dg e"] inv obtain p where
    "doAfterRefresh pol (getFullName dg e) (s\<lparr> cs_table := t[k := e] \<rparr>) = Def (s\<lparr> cs_table := t[k := e], cs_policy := p \<rparr>)"
    "tracks p (cs_keys dg s)" by auto
  then show ?thesis using old inv(3) by (auto simp: cs_inv_def)
qed

lemma insert_inv:
  assumes "cs_inv dg tracks s" and "data_fits dg d"
  shows "\<exists>s'. cs_insert dg pol d u s = Def s' \<and> cs_inv dg tracks s'"
proof -
  obtain t k isNew where em: "emplace dg (mkEntryImpl (cs_now s) d u) (cs_table s) = (t, k, isNew)" by (metis prod_cases3)
  from insert_eq [OF em] insert_new [OF assms, of u t k] insert_old [OF assms, of u t k] em assms(1)
  show ?thesis by (cases isNew) (auto simp: Let_def)
qed

lemma erase_loop_inv:
  assumes "cs_inv dg tracks s" and "first + n \<le> length (cs_table s)"
  shows "\<exists>p. erase_loop dg pol first n s = Def (s\<lparr> cs_table := take first (cs_table s) @ drop (first + n) (cs_table s), cs_policy := p \<rparr>) \<and>
    cs_inv dg tracks (s\<lparr> cs_table := take first (cs_table s) @ drop (first + n) (cs_table s), cs_policy := p \<rparr>)"
  using assms
proof (induction n arbitrary: s)
  case 0
  then show ?case by (auto intro!: exI [of _ "cs_policy s"])
next
  case (Suc n)
  let ?t = "take first (cs_table s) @ drop (Suc first) (cs_table s)"
  have inv: "table_ok dg (cs_table s)" "tracks (cs_policy s) (cs_keys dg s)" "first < length (cs_table s)" "length (cs_table s) \<le> cs_limit s"
    using Suc.prems by (simp_all add: cs_inv_def)
  from before_erase [OF inv(1) nth_in_keys [OF inv(3)] inv(2)] obtain p where
    p: "doBeforeErase pol (getFullName dg (cs_table s ! first)) s = Def (s\<lparr> cs_policy := p \<rparr>)"
      "tracks p (cs_keys dg s - {getFullName dg (cs_table s ! first)})" by blast
  let ?s = "s\<lparr> cs_policy := p, cs_table := ?t \<rparr>"
  have "cs_inv dg tracks ?s"
    using erase_nth_ok [OF inv(1,3)] p(2) inv(3,4) by (simp add: cs_inv_def cs_keys_def)
  moreover have "first + n \<le> length (cs_table ?s)" using Suc.prems(2) by simp
  moreover have "take first (cs_table ?s) @ drop (first + n) (cs_table ?s) = take first (cs_table s) @ drop (first + Suc n) (cs_table s)"
    using inv(3) by (simp add: add.commute)
  ultimately show ?case using Suc.IH [of ?s] p(1) by simp
qed

lemma find_inv:
  assumes "cs_inv dg tracks s" and "name_fits (in_name i)" and "plain_query (in_name i)"
  shows "\<exists>r p. cs_find dg pol i s = Some (Def (r, s\<lparr> cs_policy := p \<rparr>)) \<and> cs_inv dg tracks (s\<lparr> cs_policy := p \<rparr>) \<and>
    (cs_shouldServe s \<and> cs_limit s > 0 \<longrightarrow> (case r of
       None \<Rightarrow> \<forall>e\<in>set (cs_table s). \<not> canSatisfy dg (cs_now s) i e
     | Some d \<Rightarrow> \<exists>e\<in>set (cs_table s). ce_data e = d \<and> canSatisfy dg (cs_now s) i e)) \<and>
    (\<not> cs_shouldServe s \<or> cs_limit s = 0 \<longrightarrow> r = None)"
proof (cases "\<not> cs_shouldServe s \<or> cs_limit s = 0")
  case True
  then have "cs_find dg pol i s = Some (Def (None, s\<lparr> cs_policy := cs_policy s \<rparr>))" by (auto simp: cs_find_def)
  with True assms(1) show ?thesis by (auto intro!: exI [of _ "cs_policy s"])
next
  case False
  have inv: "table_ok dg (cs_table s)" "tracks (cs_policy s) (cs_keys dg s)" using assms(1) by (simp_all add: cs_inv_def)
  from find_match_ok [OF inv(1) assms(2,3), of "cs_now s"] obtain m where m: "find_match dg (cs_now s) i (cs_table s) = Some (Def m)"
    "case m of None \<Rightarrow> \<forall>e\<in>set (cs_table s). \<not> canSatisfy dg (cs_now s) i e
     | Some k \<Rightarrow> k < length (cs_table s) \<and> canSatisfy dg (cs_now s) i (cs_table s ! k)" by blast
  show ?thesis
  proof (cases m)
    case None
    then have "cs_find dg pol i s = Some (Def (None, s\<lparr> cs_policy := cs_policy s \<rparr>))" using False m(1) by (auto simp: cs_find_def)
    with None m(2) False assms(1) show ?thesis by (auto intro!: exI [of _ "cs_policy s"])
  next
    case (Some k)
    with m(2) have k: "k < length (cs_table s)" "canSatisfy dg (cs_now s) i (cs_table s ! k)" by simp_all
    from before_use [OF inv(1) nth_in_keys [OF k(1)] inv(2)] obtain p where
      p: "doBeforeUse pol (getFullName dg (cs_table s ! k)) s = Def (s\<lparr> cs_policy := p \<rparr>)" "tracks p (cs_keys dg s)" by blast
    then have "cs_find dg pol i s = Some (Def (Some (ce_data (cs_table s ! k)), s\<lparr> cs_policy := p \<rparr>))"
      using False m(1) Some by (auto simp: cs_find_def)
    moreover have "cs_inv dg tracks (s\<lparr> cs_policy := p \<rparr>)" using assms(1) p(2) by (simp add: cs_inv_def)
    ultimately show ?thesis
      using k False by (intro exI [of _ "Some (ce_data (cs_table s ! k))"] exI [of _ p]) (auto intro!: bexI [of _ "cs_table s ! k"])
  qed
qed

lemma setLimit_inv:
  assumes "cs_inv dg tracks s"
  shows "\<exists>s'. cs_setLimit pol n s = Def s' \<and> cs_inv dg tracks s' \<and> cs_limit s' = n"
proof -
  let ?s = "s\<lparr> cs_limit := n \<rparr>"
  have ok: "table_ok dg (cs_table ?s)" "tracks (cs_policy ?s) (cs_keys dg ?s)" using assms by (simp_all add: cs_inv_def)
  from evict [OF this] ok show ?thesis by (auto simp: cs_setLimit_def cs_inv_def dest!: evicted_ok)
qed

lemma erase_inv:
  assumes "cs_inv dg tracks s"
  shows "\<exists>n s'. cs_erase dg pol prefix limit s = Def (n, s') \<and> cs_inv dg tracks s' \<and> n \<le> limit \<and> length (cs_table s') + n = length (cs_table s)"
proof -
  obtain first stop where fs: "find_range dg prefix (cs_table s) = (first, stop)" by fastforce
  have le: "first \<le> length (cs_table s)" "stop \<le> length (cs_table s)"
    using fs lower_bound_le [of dg _ "cs_table s"] by (auto simp: find_range_def split: if_splits)
  then have "first + min (stop - first) limit \<le> length (cs_table s)" by simp
  from erase_loop_inv [OF assms this] le show ?thesis by (auto simp: cs_erase_def fs Let_def)
qed

lemma step_inv:
  assumes "cs_inv dg tracks s" and "cs_op_ok dg op"
  shows "\<exists>s'. cs_step dg pol op s = Some (Def s') \<and> cs_inv dg tracks s'"
proof (cases op)
  case (CsInsert d u)
  with insert_inv [OF assms(1), of d u] assms(2) show ?thesis by auto
next
  case (CsErase prefix limit)
  with erase_inv [OF assms(1), of prefix limit] show ?thesis by auto
next
  case (CsFind i)
  with find_inv [OF assms(1), of i] assms(2) show ?thesis by auto
next
  case (CsSetLimit n)
  with setLimit_inv [OF assms(1), of n] show ?thesis by auto
next
  case CsTimer
  from assms(1) have "table_ok dg (cs_table s)" "tracks (cs_policy s) (cs_keys dg s)" by (simp_all add: cs_inv_def)
  from timer [OF this] CsTimer assms(1) show ?thesis by (auto simp: cs_inv_def)
qed (use assms(1) in \<open>simp_all add: cs_inv_def cs_enableAdmit_def cs_enableServe_def cs_keys_def\<close>)

lemma mkCs_inv:
  assumes "tracks p {}"
  shows "\<exists>s. mkCs pol p n now = Def s \<and> cs_inv dg tracks s"
  using setLimit_inv [of "\<lparr> cs_table = [], cs_policy = p, cs_limit = 0, cs_shouldAdmit = True, cs_shouldServe = True, cs_now = now \<rparr>" n] assms
  by (auto simp: mkCs_def cs_inv_def cs_keys_def table_ok_def)

lemma run_inv:
  assumes "cs_inv dg tracks s" and "list_all (cs_op_ok dg) ops"
  shows "\<exists>s'. cs_run dg pol ops (Def s) = Some (Def s') \<and> cs_inv dg tracks s'"
  using assms
proof (induction ops arbitrary: s)
  case (Cons op ops)
  with step_inv [OF Cons.prems(1), of op] show ?case by auto
qed simp

lemma run_from_start:
  assumes "tracks p {}" and "list_all (cs_op_ok dg) ops"
  shows "\<exists>s. cs_run dg pol ops (mkCs pol p n now) = Some (Def s) \<and> cs_inv dg tracks s"
  using mkCs_inv [OF assms(1), of n now] run_inv [OF _ assms(2)] by auto

end

section \<open>The least recently used policy\<close>

definition lru_tracks :: "name list \<Rightarrow> name set \<Rightarrow> bool" where
  "lru_tracks q K \<longleftrightarrow> distinct q \<and> set q = K"

lemma lru_queue_length: "table_ok dg (cs_table s) \<Longrightarrow> lru_tracks q (cs_keys dg s) \<Longrightarrow> length q = length (cs_table s)"
  using table_ok_distinct [of dg "cs_table s"] distinct_card [of q] distinct_card [of "map (getFullName dg) (cs_table s)"]
  by (simp add: lru_tracks_def cs_keys_def)

text \<open>Eviction drops the entries at the front of the queue, as many as there are too many.\<close>

lemma lru_evict_eq:
  assumes "table_ok dg (cs_table s)" and "lru_tracks (cs_policy s) (cs_keys dg s)"
  shows "lru_evictEntries dg s =
    (let q = drop (length (cs_table s) - cs_limit s) (cs_policy s) in
     Def (s\<lparr> cs_table := filter (\<lambda>e. getFullName dg e \<in> set q) (cs_table s), cs_policy := q \<rparr>))"
  using assms
proof (induction "cs_policy s" arbitrary: s)
  case Nil
  then have "cs_table s = []" using lru_queue_length [OF Nil.prems] by simp
  then show ?case using Nil.hyps by (simp add: lru_evictEntries.simps [of dg s])
next
  case (Cons i q)
  have len: "length (cs_table s) = Suc (length q)" using lru_queue_length [OF Cons.prems] Cons.hyps(2) by (metis length_Cons)
  have q: "distinct q" "i \<notin> set q" "insert i (set q) = cs_keys dg s"
    using Cons.prems(2) Cons.hyps(2) by (metis lru_tracks_def distinct.simps(2), metis lru_tracks_def distinct.simps(2), metis lru_tracks_def list.simps(15))
  show ?case
  proof (cases "length (cs_table s) > cs_limit s")
    case False
    then have "filter (\<lambda>e. getFullName dg e \<in> set (cs_policy s)) (cs_table s) = cs_table s"
      using Cons.prems(2) by (auto simp: lru_tracks_def cs_keys_def filter_id_conv)
    with False show ?thesis by (simp add: lru_evictEntries.simps [of dg s])
  next
    case True
    let ?s = "s\<lparr> cs_policy := q, cs_table := filter (\<lambda>e. getFullName dg e \<noteq> i) (cs_table s) \<rparr>"
    have tracks: "lru_tracks (cs_policy ?s) (cs_keys dg ?s)" using q by (auto simp: lru_tracks_def cs_keys_def)
    have ok: "table_ok dg (cs_table ?s)" using table_ok_filter Cons.prems(1) by simp
    have "list_ex (\<lambda>e. getFullName dg e = i) (cs_table s)" using q(3) by (simp add: list_ex_iff cs_keys_def) (metis image_iff insertI1)
    then have step: "lru_evictEntries dg s = lru_evictEntries dg ?s"
      using True Cons.hyps(2) [symmetric] by (simp add: lru_evictEntries.simps [of dg s] eraseEntry_def)
    define n where "n = length q - cs_limit s"
    have n: "length (cs_table ?s) - cs_limit ?s = n" "length (cs_table s) - cs_limit s = Suc n"
      using lru_queue_length [OF ok tracks] True len by (simp_all add: n_def)
    have "getFullName dg e \<in> set (drop n q) \<Longrightarrow> getFullName dg e \<noteq> i" for e using q(2) by (meson in_set_dropD)
    then have "filter (\<lambda>e. getFullName dg e \<noteq> i \<and> getFullName dg e \<in> set (drop n q)) (cs_table s) =
        filter (\<lambda>e. getFullName dg e \<in> set (drop n q)) (cs_table s)" by (intro filter_cong) auto
    then show ?thesis
      using Cons.hyps(1) [of ?s] ok tracks n Cons.hyps(2) [symmetric] step by (simp add: Let_def conj_commute)
  qed
qed

lemma lru_evict_ok:
  assumes "table_ok dg (cs_table s)" and "lru_tracks (cs_policy s) (cs_keys dg s)"
  shows "\<exists>s'. lru_evictEntries dg s = Def s' \<and> evicted s s' \<and> lru_tracks (cs_policy s') (cs_keys dg s') \<and> length (cs_table s') \<le> cs_limit s"
proof -
  define q where "q = drop (length (cs_table s) - cs_limit s) (cs_policy s)"
  define s' where "s' = s\<lparr> cs_table := filter (\<lambda>e. getFullName dg e \<in> set q) (cs_table s), cs_policy := q \<rparr>"
  have "set q \<subseteq> cs_keys dg s" "distinct q" using assms(2) by (auto simp: q_def lru_tracks_def dest: in_set_dropD)
  then have tracks: "lru_tracks (cs_policy s') (cs_keys dg s')" by (auto simp: s'_def lru_tracks_def cs_keys_def)
  have ok: "table_ok dg (cs_table s')" using assms(1) by (simp add: s'_def table_ok_filter)
  have "length (cs_table s') = length q" using lru_queue_length [OF ok tracks] by (simp add: s'_def)
  then have "length (cs_table s') \<le> cs_limit s" using lru_queue_length [OF assms] by (simp add: q_def)
  moreover have "lru_evictEntries dg s = Def s'" using lru_evict_eq [OF assms] by (simp add: Let_def s'_def q_def)
  ultimately show ?thesis using tracks by (auto simp: evicted_def s'_def)
qed

lemma lru_requeue_old:
  assumes "k \<in> cs_keys dg s" and "lru_tracks (cs_policy s) (cs_keys dg s)"
  shows "\<exists>p. lru_requeue False k s = Def (s\<lparr> cs_policy := p \<rparr>) \<and> lru_tracks p (cs_keys dg s)"
  using assms by (auto simp: lru_requeue_def insertToQueue_def assertion_def lru_tracks_def Let_def)

interpretation lru: cs_replacement dg "lruPolicy dg" lru_tracks
proof unfold_locales
  fix s :: "name list cs" and k assume ok: "table_ok dg (cs_table s)" and k: "k \<in> cs_keys dg s"
    and tracks: "lru_tracks (cs_policy s) (cs_keys dg s - {k})"
  let ?s = "s\<lparr> cs_policy := cs_policy s @ [k] \<rparr>"
  have "lru_requeue True k s = Def ?s" using tracks by (auto simp: lru_requeue_def insertToQueue_def assertion_def lru_tracks_def)
  moreover have "lru_tracks (cs_policy ?s) (cs_keys dg ?s)" using tracks k by (auto simp: lru_tracks_def)
  ultimately show "\<exists>s'. doAfterInsert (lruPolicy dg) k s = Def s' \<and> evicted s s' \<and> lru_tracks (cs_policy s') (cs_keys dg s') \<and>
      length (cs_table s') \<le> cs_limit s"
    using lru_evict_ok [of dg ?s] ok by (auto simp: lruPolicy_def evicted_def)
next
  fix s :: "name list cs" and k assume "lru_tracks (cs_policy s) (cs_keys dg s)"
  then show "\<exists>p. doBeforeErase (lruPolicy dg) k s = Def (s\<lparr> cs_policy := p \<rparr>) \<and> lru_tracks p (cs_keys dg s - {k})"
    by (auto simp: lruPolicy_def lru_tracks_def set_remove1_eq)
next
  fix s :: "name list cs" assume "lru_tracks (cs_policy s) (cs_keys dg s)"
  then show "\<exists>p. runTimer (lruPolicy dg) s = Def (s\<lparr> cs_policy := p \<rparr>) \<and> lru_tracks p (cs_keys dg s)"
    by (auto simp: lruPolicy_def intro!: exI [of _ "cs_policy s"])
qed (simp_all add: lruPolicy_def lru_requeue_old lru_evict_ok)

section \<open>The priority FIFO policy\<close>

text \<open>
  Every entry is in the queue its record names, and in no other; a pending timer belongs to an entry of
  the FIFO queue whose record names that timer.
\<close>

definition pf_ok :: "pfifo \<Rightarrow> bool" where
  "pf_ok p \<longleftrightarrow> (\<forall>t. distinct (pf_queues p t)) \<and>
     (\<forall>t i. i \<in> set (pf_queues p t) \<longleftrightarrow> map_option ei_queueType (pf_entryInfoMap p i) = Some t) \<and>
     sc_inv (pf_scheduler p) \<and>
     (\<forall>e\<in>set (sc_queue (pf_scheduler p)). pf_entryInfoMap p (ev_callback e) = Some \<lparr> ei_queueType = QUEUE_FIFO, ei_moveStaleEventId = Some (ev_id e) \<rparr>)"

definition pf_tracks :: "pfifo \<Rightarrow> name set \<Rightarrow> bool" where
  "pf_tracks p K \<longleftrightarrow> pf_ok p \<and> dom (pf_entryInfoMap p) = K"

lemma sc_inv_advance [simp]: "sc_inv (sc_advance t s) = sc_inv s" "sc_queue (sc_advance t s) = sc_queue s"
  by (simp_all add: sc_inv_def sc_advance_def)

lemma set_cancel:
  assumes "sc_inv s"
  shows "set (sc_queue (cancelEvent (Some i) s)) = {e \<in> set (sc_queue s). ev_id e \<noteq> i}"
  using assms erase_first_eq_filter [of "sc_queue s" "\<lambda>e. ev_id e = i" ev_id]
  by (auto simp: cancelEvent_eq sc_inv_def)

lemma attachQueue_ok:
  assumes "pf_ok p" and "pf_entryInfoMap p i = None"
  shows "\<exists>p'. attachQueue now i e p = Def p' \<and> pf_ok p' \<and> dom (pf_entryInfoMap p') = insert i (dom (pf_entryInfoMap p))"
proof -
  have notin: "i \<notin> set (pf_queues p t)" for t using assms by (auto simp: pf_ok_def)
  have others: "\<forall>x\<in>set (sc_queue (pf_scheduler p)). ev_callback x \<noteq> i" using assms by (force simp: pf_ok_def)
  obtain eid sch where sch: "scheduleEvent (d_freshness (ce_data e) * 1000000) i (sc_advance now (pf_scheduler p)) = (eid, sch)" by fastforce
  have inv: "sc_inv sch" using scheduler.schedule_pending [OF _ sch] assms(1) by (simp add: pf_ok_def)
  have queue: "set (sc_queue sch) = insert \<lparr> ev_id = eid, ev_expireTime = sc_now (sc_advance now (pf_scheduler p)) + d_freshness (ce_data e) * 1000000, ev_callback = i \<rparr>
      (set (sc_queue (pf_scheduler p)))"
    using sch by (auto simp: scheduleEvent_def)
  show ?thesis
    using assms notin others inv queue by (auto simp: attachQueue_def assertion_def sch pf_ok_def)
qed

lemma detachQueue_ok:
  assumes "pf_ok p" and "i \<in> dom (pf_entryInfoMap p)"
  shows "\<exists>p'. detachQueue i p = Def p' \<and> pf_ok p' \<and> dom (pf_entryInfoMap p') = dom (pf_entryInfoMap p) - {i}"
proof -
  obtain info where info: "pf_entryInfoMap p i = Some info" using assms(2) by blast
  have ok: "distinct (pf_queues p t)" "i \<in> set (pf_queues p t) \<longleftrightarrow> ei_queueType info = t" for t
    using assms(1) info by (auto simp: pf_ok_def)
  define sch where "sch = (if ei_queueType info = QUEUE_FIFO then cancelEvent (ei_moveStaleEventId info) (pf_scheduler p) else pf_scheduler p)"
  have sinv: "sc_inv (pf_scheduler p)" using assms(1) by (simp add: pf_ok_def)
  have mine: "ei_queueType info = QUEUE_FIFO" "ei_moveStaleEventId info = Some (ev_id e)" if "e \<in> set (sc_queue (pf_scheduler p))" "ev_callback e = i" for e
    using assms(1) info that by (force simp: pf_ok_def)+
  have sch: "sc_inv sch" "set (sc_queue sch) \<subseteq> set (sc_queue (pf_scheduler p)) \<inter> {e. ev_callback e \<noteq> i}"
  proof -
    consider "ei_queueType info \<noteq> QUEUE_FIFO \<or> ei_moveStaleEventId info = None"
      | eid where "ei_queueType info = QUEUE_FIFO" "ei_moveStaleEventId info = Some eid" by blast
    then have "sc_inv sch \<and> set (sc_queue sch) \<subseteq> set (sc_queue (pf_scheduler p)) \<inter> {e. ev_callback e \<noteq> i}"
    proof cases
      case 1
      then have "sch = pf_scheduler p" by (auto simp: sch_def scheduler.cancel_default)
      with 1 sinv mine show ?thesis by auto
    next
      case 2
      then have "sch = cancelEvent (Some eid) (pf_scheduler p)" by (simp add: sch_def)
      with 2 mine(2) scheduler.cancel_pending [OF sinv, of eid] set_cancel [OF sinv, of eid] show ?thesis by auto
    qed
    then show "sc_inv sch" "set (sc_queue sch) \<subseteq> set (sc_queue (pf_scheduler p)) \<inter> {e. ev_callback e \<noteq> i}" by simp_all
  qed
  define p' where "p' = p\<lparr> pf_queues := (pf_queues p)(ei_queueType info := remove1 i (pf_queues p (ei_queueType info))),
      pf_entryInfoMap := (pf_entryInfoMap p)(i := None), pf_scheduler := sch \<rparr>"
  have "pf_ok p'"
    using sch assms(1) ok unfolding pf_ok_def p'_def by (intro conjI) (auto simp: set_remove1_eq)
  moreover have "detachQueue i p = Def p'" by (simp add: detachQueue_def info ok(2) p'_def sch_def)
  ultimately show ?thesis by (auto simp: p'_def)
qed

lemma moveToStaleQueue_ok:
  assumes "pf_ok p" and "takeExpired (sc_advance now (pf_scheduler p)) = Some ((eid, i), sch)"
  shows "\<exists>p'. moveToStaleQueue i (p\<lparr> pf_scheduler := sch \<rparr>) = Def p' \<and> pf_ok p' \<and> dom (pf_entryInfoMap p') = dom (pf_entryInfoMap p)"
proof -
  obtain x rest where x: "sc_queue (pf_scheduler p) = x # rest" "ev_callback x = i" "ev_id x = eid" "sc_queue sch = rest"
    using assms(2) by (auto simp: takeExpired_def split: list.splits if_splits)
  have inv: "sc_inv sch" using scheduler.fire_pending [OF _ assms(2)] assms(1) by (simp add: pf_ok_def)
  have info: "pf_entryInfoMap p i = Some \<lparr> ei_queueType = QUEUE_FIFO, ei_moveStaleEventId = Some eid \<rparr>"
    using assms(1) x by (auto simp: pf_ok_def)
  have fresh: "eid \<notin> ev_id ` set rest" using assms(1) x by (auto simp: pf_ok_def sc_inv_def)
  have rest: "pf_entryInfoMap p (ev_callback y) = Some \<lparr> ei_queueType = QUEUE_FIFO, ei_moveStaleEventId = Some (ev_id y) \<rparr>" "ev_callback y \<noteq> i"
    if "y \<in> set rest" for y
    using that assms(1) x(1) info fresh by (auto simp: pf_ok_def)
  have ok: "distinct (pf_queues p t)" "j \<in> set (pf_queues p t) \<longleftrightarrow> map_option ei_queueType (pf_entryInfoMap p j) = Some t" for t j
    using assms(1) by (auto simp: pf_ok_def)
  show ?thesis using info ok rest inv x(4) by (auto simp: moveToStaleQueue_def assertion_def pf_ok_def set_remove1_eq)
qed

lemma evict_choice_dom:
  assumes "pf_ok p" and "dom (pf_entryInfoMap p) \<noteq> {}"
  shows "\<exists>i. evict_choice p = Some i \<and> i \<in> dom (pf_entryInfoMap p)"
proof -
  have q: "i \<in> set (pf_queues p t) \<longleftrightarrow> map_option ei_queueType (pf_entryInfoMap p i) = Some t" for i t
    using assms(1) by (simp add: pf_ok_def)
  obtain i info where i: "pf_entryInfoMap p i = Some info" using assms(2) by blast
  then have "i \<in> set (pf_queues p (ei_queueType info))" by (simp add: q)
  then have "pf_queues p (ei_queueType info) \<noteq> []" by auto
  then have "evict_choice p \<noteq> None" by (cases "ei_queueType info") (simp_all add: evict_choice_def split: list.split)
  then obtain j where j: "evict_choice p = Some j" by blast
  then have "j \<in> set (pf_queues p QUEUE_UNSOLICITED) \<or> j \<in> set (pf_queues p QUEUE_STALE) \<or> j \<in> set (pf_queues p QUEUE_FIFO)"
    by (simp add: evict_choice_def split: list.splits)
  then obtain t where "j \<in> set (pf_queues p t)" by blast
  then have "j \<in> dom (pf_entryInfoMap p)" using q [of j t] by auto
  with j show ?thesis by blast
qed

lemma evictOne_ok:
  assumes "table_ok dg (cs_table s)" and "pf_tracks (cs_policy s) (cs_keys dg s)" and "cs_table s \<noteq> []"
  shows "\<exists>s'. evictOne dg s = Def s' \<and> evicted s s' \<and> pf_tracks (cs_policy s') (cs_keys dg s') \<and> length (cs_table s') < length (cs_table s)"
proof -
  have p: "pf_ok (cs_policy s)" "dom (pf_entryInfoMap (cs_policy s)) = cs_keys dg s" using assms(2) by (simp_all add: pf_tracks_def)
  have "cs_keys dg s \<noteq> {}" using assms(3) by (simp add: cs_keys_def)
  from evict_choice_dom [OF p(1), unfolded p(2), OF this] obtain i where i: "evict_choice (cs_policy s) = Some i" "i \<in> cs_keys dg s" by (elim exE conjE)
  from detachQueue_ok [OF p(1), unfolded p(2), OF i(2)] obtain p' where
    p': "detachQueue i (cs_policy s) = Def p'" "pf_ok p'" "dom (pf_entryInfoMap p') = cs_keys dg s - {i}" by (elim exE conjE)
  obtain e where e: "e \<in> set (cs_table s)" "getFullName dg e = i" using i(2) by (auto simp: cs_keys_def)
  let ?s = "s\<lparr> cs_policy := p', cs_table := filter (\<lambda>e. getFullName dg e \<noteq> i) (cs_table s) \<rparr>"
  have "evictOne dg s = Def ?s" using i(1) p'(1) e by (auto simp: evictOne_def eraseEntry_def list_ex_iff)
  moreover have "evicted s ?s"
    unfolding evicted_def by (rule exI [of _ "\<lambda>e. getFullName dg e \<noteq> i"], rule exI [of _ p']) simp
  moreover have "cs_keys dg ?s = cs_keys dg s - {i}" by (auto simp: cs_keys_def)
  moreover have "length (cs_table ?s) < length (cs_table s)" using length_filter_less [OF e(1)] e(2) by simp
  ultimately show ?thesis using p'(2,3) by (auto simp: pf_tracks_def)
qed

lemma evicted_trans: "evicted s s' \<Longrightarrow> evicted s' s'' \<Longrightarrow> evicted s s''"
  unfolding evicted_def
proof (elim exE)
  fix P p Q q assume "s' = s\<lparr> cs_table := filter P (cs_table s), cs_policy := p \<rparr>" "s'' = s'\<lparr> cs_table := filter Q (cs_table s'), cs_policy := q \<rparr>"
  then have "s'' = s\<lparr> cs_table := filter (\<lambda>x. Q x \<and> P x) (cs_table s), cs_policy := q \<rparr>" by (simp add: conj_commute)
  then show "\<exists>P p. s'' = s\<lparr> cs_table := filter P (cs_table s), cs_policy := p \<rparr>" by blast
qed

lemma evicted_refl: "evicted s s"
  by (auto simp: evicted_def intro!: exI [of _ "\<lambda>_. True"] exI [of _ "cs_policy s"])

lemma pf_evict_ok:
  assumes "table_ok dg (cs_table s)" and "pf_tracks (cs_policy s) (cs_keys dg s)"
  shows "\<exists>s'. pf_evictEntries dg s = Def s' \<and> evicted s s' \<and> pf_tracks (cs_policy s') (cs_keys dg s') \<and> length (cs_table s') \<le> cs_limit s"
  using assms
proof (induction "length (cs_table s)" arbitrary: s rule: less_induct)
  case less
  show ?case
  proof (cases "length (cs_table s) > cs_limit s")
    case False
    then show ?thesis using less.prems(2) evicted_refl by (auto simp: pf_evictEntries.simps [of dg s])
  next
    case True
    then have "cs_table s \<noteq> []" by auto
    from evictOne_ok [OF less.prems this] obtain s' where
      s': "evictOne dg s = Def s'" "evicted s s'" "pf_tracks (cs_policy s') (cs_keys dg s')" "length (cs_table s') < length (cs_table s)" by blast
    have ok: "table_ok dg (cs_table s')" "cs_limit s' = cs_limit s" using evicted_ok [OF s'(2) less.prems(1)] by simp_all
    from less.hyps [OF s'(4) ok(1) s'(3)] obtain s'' where
      "pf_evictEntries dg s' = Def s''" "evicted s' s''" "pf_tracks (cs_policy s'') (cs_keys dg s'')" "length (cs_table s'') \<le> cs_limit s" using ok(2) by auto
    then show ?thesis using True s'(1,2) evicted_trans by (auto simp: pf_evictEntries.simps [of dg s])
  qed
qed

lemma pf_attach_ok:
  assumes "k \<in> cs_keys dg s" and "pf_tracks (cs_policy s) (cs_keys dg s - {k})"
  shows "\<exists>p. pf_attach dg k s = Def (s\<lparr> cs_policy := p \<rparr>) \<and> pf_tracks p (cs_keys dg s)"
proof -
  have p: "pf_ok (cs_policy s)" "pf_entryInfoMap (cs_policy s) k = None" using assms(2) by (auto simp: pf_tracks_def)
  obtain e where "List.find (\<lambda>e. getFullName dg e = k) (cs_table s) = Some e"
    using assms(1) by (cases "List.find (\<lambda>e. getFullName dg e = k) (cs_table s)") (auto simp: cs_keys_def find_None_iff)
  with attachQueue_ok [OF p, of "cs_now s" e] assms show ?thesis by (auto simp: pf_attach_def pf_tracks_def insert_absorb)
qed

lemma pf_detach_ok:
  assumes "k \<in> cs_keys dg s" and "pf_tracks (cs_policy s) (cs_keys dg s)"
  shows "\<exists>p. pf_detach k s = Def (s\<lparr> cs_policy := p \<rparr>) \<and> pf_tracks p (cs_keys dg s - {k})"
  using detachQueue_ok [of "cs_policy s" k] assms by (auto simp: pf_detach_def pf_tracks_def)

interpretation pfifo: cs_replacement dg "pfifoPolicy dg" pf_tracks
proof unfold_locales
  fix s :: "pfifo cs" and k
  assume ok: "table_ok dg (cs_table s)" and k: "k \<in> cs_keys dg s" and tracks: "pf_tracks (cs_policy s) (cs_keys dg s - {k})"
  from pf_attach_ok [OF k tracks] obtain p where p: "pf_attach dg k s = Def (s\<lparr> cs_policy := p \<rparr>)" "pf_tracks p (cs_keys dg s)" by blast
  have "evicted s s'" if "evicted (s\<lparr> cs_policy := p \<rparr>) s'" for s' using that by (auto simp: evicted_def)
  with pf_evict_ok [of dg "s\<lparr> cs_policy := p \<rparr>"] ok p
  show "\<exists>s'. doAfterInsert (pfifoPolicy dg) k s = Def s' \<and> evicted s s' \<and> pf_tracks (cs_policy s') (cs_keys dg s') \<and>
      length (cs_table s') \<le> cs_limit s"
    by (auto simp: pfifoPolicy_def)
next
  fix s :: "pfifo cs" and k assume k: "k \<in> cs_keys dg s" and tracks: "pf_tracks (cs_policy s) (cs_keys dg s)"
  from pf_detach_ok [OF this] obtain p where p: "pf_detach k s = Def (s\<lparr> cs_policy := p \<rparr>)" "pf_tracks p (cs_keys dg s - {k})" by blast
  with pf_attach_ok [of k dg "s\<lparr> cs_policy := p \<rparr>"] k
  show "\<exists>p. doAfterRefresh (pfifoPolicy dg) k s = Def (s\<lparr> cs_policy := p \<rparr>) \<and> pf_tracks p (cs_keys dg s)"
    by (auto simp: pfifoPolicy_def)
  show "\<exists>p. doBeforeUse (pfifoPolicy dg) k s = Def (s\<lparr> cs_policy := p \<rparr>) \<and> pf_tracks p (cs_keys dg s)"
    using k tracks by (auto simp: pfifoPolicy_def assertion_def pf_tracks_def intro!: exI [of _ "cs_policy s"])
next
  fix s :: "pfifo cs" assume tracks: "pf_tracks (cs_policy s) (cs_keys dg s)"
  show "\<exists>p. runTimer (pfifoPolicy dg) s = Def (s\<lparr> cs_policy := p \<rparr>) \<and> pf_tracks p (cs_keys dg s)"
  proof (cases "takeExpired (sc_advance (cs_now s) (pf_scheduler (cs_policy s)))")
    case None
    then show ?thesis using tracks by (auto simp: pfifoPolicy_def pf_runTimer_def intro!: exI [of _ "cs_policy s"])
  next
    case (Some r)
    obtain eid i sch where r: "r = ((eid, i), sch)" by (metis prod.exhaust)
    from moveToStaleQueue_ok [OF _ Some [unfolded r]] tracks Some show ?thesis
      by (auto simp: pfifoPolicy_def pf_runTimer_def pf_tracks_def r)
  qed
qed (simp_all add: pfifoPolicy_def pf_detach_ok pf_evict_ok)

section \<open>What the least recently used store keeps\<close>

text \<open>
  The abstract cache is the list of its keys, the most recently used last; using a key moves it to the
  end and the oldest keys give way.
\<close>

definition lru_touch :: "nat \<Rightarrow> name \<Rightarrow> name list \<Rightarrow> name list" where
  "lru_touch n k q = (let q' = filter (\<lambda>x. x \<noteq> k) q @ [k] in drop (length q' - n) q')"

lemma lru_inserted_new:
  assumes "cs_inv dg lru_tracks s" and "table_ok dg t" and "getFullName dg ` set t = insert k (cs_keys dg s)" and "k \<notin> cs_keys dg s"
    and "length t = Suc (length (cs_table s))"
  shows "doAfterInsert (lruPolicy dg) k (s\<lparr> cs_table := t \<rparr>) =
    (let q = lru_touch (cs_limit s) k (cs_policy s) in
     Def (s\<lparr> cs_table := filter (\<lambda>e. getFullName dg e \<in> set q) t, cs_policy := q \<rparr>))"
proof -
  have q: "distinct (cs_policy s)" "set (cs_policy s) = cs_keys dg s" using assms(1) by (simp_all add: cs_inv_def lru_tracks_def)
  let ?s = "s\<lparr> cs_table := t, cs_policy := cs_policy s @ [k] \<rparr>"
  have tracks: "lru_tracks (cs_policy ?s) (cs_keys dg ?s)" using q assms(3,4) by (simp add: lru_tracks_def)
  have "filter (\<lambda>x. x \<noteq> k) (cs_policy s) = cs_policy s" using q(2) assms(4) by (auto simp: filter_id_conv)
  moreover have "lru_requeue True k (s\<lparr> cs_table := t \<rparr>) = Def ?s"
    using q(2) assms(4) by (simp add: lru_requeue_def insertToQueue_def assertion_def)
  ultimately show ?thesis
    using lru_evict_eq [OF _ tracks] lru_queue_length [OF _ tracks] assms(2,5) by (simp add: lruPolicy_def lru_touch_def Let_def)
qed

lemma lru_inserted_old:
  assumes "cs_inv dg lru_tracks s" and "k \<in> cs_keys dg s"
  shows "doAfterRefresh (lruPolicy dg) k (s\<lparr> cs_table := t \<rparr>) = Def (s\<lparr> cs_table := t, cs_policy := lru_touch (cs_limit s) k (cs_policy s) \<rparr>)"
    and "set (lru_touch (cs_limit s) k (cs_policy s)) = cs_keys dg s"
proof -
  have q: "distinct (cs_policy s)" "set (cs_policy s) = cs_keys dg s" using assms(1) by (simp_all add: cs_inv_def lru_tracks_def)
  have "length (cs_policy s) \<le> cs_limit s" using lru_queue_length [of dg s] assms(1) by (simp add: cs_inv_def)
  moreover have r: "filter (\<lambda>x. x \<noteq> k) (cs_policy s) = remove1 k (cs_policy s)" using q(1) by (simp add: distinct_remove1_removeAll removeAll_filter_not_eq eq_commute)
  moreover have "length (remove1 k (cs_policy s)) < length (cs_policy s)" using length_remove1_less q(2) assms(2) by metis
  ultimately have touch: "lru_touch (cs_limit s) k (cs_policy s) = remove1 k (cs_policy s) @ [k]" by (simp add: lru_touch_def)
  show "doAfterRefresh (lruPolicy dg) k (s\<lparr> cs_table := t \<rparr>) = Def (s\<lparr> cs_table := t, cs_policy := lru_touch (cs_limit s) k (cs_policy s) \<rparr>)"
    using q(2) assms(2) by (simp add: touch lruPolicy_def lru_requeue_def insertToQueue_def assertion_def)
  show "set (lru_touch (cs_limit s) k (cs_policy s)) = cs_keys dg s" using q assms(2) by (auto simp: touch set_remove1_eq)
qed

lemma image_filter_set: "set q \<subseteq> f ` set t \<Longrightarrow> f ` set (filter (\<lambda>x. f x \<in> set q) t) = set q"
  by auto

text \<open>The store after an admitted insertion: its queue, its keys, and an entry for the Data that was just updated.\<close>

lemma lru_insert_result:
  assumes "cs_inv dg lru_tracks s" and "data_fits dg d" and "cs_shouldAdmit s" and "cs_limit s > 0" and "d_cachePolicy d \<noteq> Some 1"
  shows "\<exists>s' e. cs_insert dg (lruPolicy dg) d u s = Def s' \<and> cs_policy s' = lru_touch (cs_limit s) (d_name d @ [dg d]) (cs_policy s) \<and>
    cs_keys dg s' = set (cs_policy s') \<and> e \<in> set (cs_table s') \<and> getFullName dg e = d_name d @ [dg d] \<and>
    (ce_data e = d \<or> ce_data e \<in> ce_data ` set (cs_table s)) \<and> ce_staleTime e = cs_now s + d_freshness (ce_data e) * 1000000 \<and>
    s' = s\<lparr> cs_table := cs_table s', cs_policy := cs_policy s' \<rparr>"
proof -
  obtain t k isNew where em: "emplace dg (mkEntryImpl (cs_now s) d u) (cs_table s) = (t, k, isNew)" by (metis prod_cases3)
  define e where "e = updateStaleTime (cs_now s) (t ! k)"
  define e' where "e' = (if ce_isUnsolicited e \<and> \<not> u then unsetUnsolicited (cs_now s) e else e)"
  have data: "ce_data e = ce_data (t ! k)" "ce_data e' = ce_data (t ! k)" by (simp_all add: e_def e'_def)
  have stale: "ce_staleTime e = cs_now s + d_freshness (ce_data e) * 1000000" "ce_staleTime e' = cs_now s + d_freshness (ce_data e') * 1000000"
    by (simp_all add: e_def e'_def updateStaleTime_def unsetUnsolicited_def)
  have ok: "table_ok dg (cs_table s)" using assms(1) by (simp add: cs_inv_def)
  let ?q = "lru_touch (cs_limit s) (d_name d @ [dg d]) (cs_policy s)"
  show ?thesis
  proof (cases isNew)
    case True
    have "emplace dg (mkEntryImpl (cs_now s) d u) (cs_table s) = (t, k, True)" using em True by simp
    note new = emplaced_new [OF ok assms(2) this data(1)]
    have full: "getFullName dg e = d_name d @ [dg d]" using new(4) by (simp add: getFullName_def)
    have eq: "cs_insert dg (lruPolicy dg) d u s =
        Def (s\<lparr> cs_table := filter (\<lambda>e. getFullName dg e \<in> set ?q) (t[k := e]), cs_policy := ?q \<rparr>)"
      using lru_inserted_new [OF assms(1) new(1,2,3,6)] insert_eq [OF em] True assms(3-5) full by (simp add: Let_def e_def)
    have "set ?q \<subseteq> insert (d_name d @ [dg d]) (cs_keys dg s)"
      using assms(1) by (auto simp: lru_touch_def Let_def cs_inv_def lru_tracks_def dest!: in_set_dropD)
    then have keys: "getFullName dg ` set (filter (\<lambda>e. getFullName dg e \<in> set ?q) (t[k := e])) = set ?q"
      using image_filter_set [of ?q "getFullName dg" "t[k := e]"] new(2) full by (simp only:)
    have "d_name d @ [dg d] \<in> set ?q" using assms(4) by (simp add: lru_touch_def Let_def)
    then show ?thesis
      by (intro exI [of _ "s\<lparr> cs_table := filter (\<lambda>e. getFullName dg e \<in> set ?q) (t[k := e]), cs_policy := ?q \<rparr>"] exI [of _ e])
        (simp add: eq keys [unfolded set_filter] new(4,5) full stale(1) [unfolded new(4)] cs_keys_def)
  next
    case False
    have "emplace dg (mkEntryImpl (cs_now s) d u) (cs_table s) = (t, k, False)" using em False by simp
    note old = emplaced_old [OF ok assms(2) this data(2)]
    have "cs_insert dg (lruPolicy dg) d u s = Def (s\<lparr> cs_table := t[k := e'], cs_policy := ?q \<rparr>)"
      using lru_inserted_old(1) [OF assms(1) old(3)] insert_eq [OF em] False assms(3-5) old(4) by (simp add: Let_def e_def [symmetric] e'_def)
    moreover have "set ?q = cs_keys dg s" using lru_inserted_old(2) [OF assms(1) old(3)] old(4) by simp
    moreover have "ce_data e' \<in> ce_data ` set (cs_table s)" using data(2) old(7,8) by simp
    ultimately show ?thesis
      by (intro exI [of _ "s\<lparr> cs_table := t[k := e'], cs_policy := ?q \<rparr>"] exI [of _ e']) (simp add: old(2,4,5) stale(2))
  qed
qed

section \<open>Properties\<close>

text \<open>A digest that tells the example packets apart.\<close>

definition example_digest :: "data \<Rightarrow> component" where
  "example_digest d = (1, replicate 32 (hd (d_content d)))"

lemma example_fits: "data_fits example_digest (example_data b)" "name_fits (in_name (example_interest n))" "plain_query (in_name (example_interest n))"
  by (simp_all add: data_fits_def name_fits_def component_ok_def example_digest_def example_data_def example_interest_def plain_query_def isSha256Type_def
      tlv_ImplicitSha256Digest_def)





text \<open>
  C15: With the least recently used policy, an admitted insertion turns the store into the one of the abstract cache:
  the inserted Data becomes the most recently used, an entry with the same full name is not duplicated, and
  exactly the entries at the old end of the recency order give way when the limit is exceeded.
\<close>

theorem lru_insert_refines:
  assumes "cs_inv dg lru_tracks s" and "data_fits dg d" and "cs_shouldAdmit s" and "cs_limit s > 0" and "d_cachePolicy d \<noteq> Some 1"
  shows "\<exists>s'. cs_insert dg (lruPolicy dg) d u s = Def s' \<and> cs_policy s' = lru_touch (cs_limit s) (d_name d @ [dg d]) (cs_policy s) \<and>
    cs_keys dg s' = set (lru_touch (cs_limit s) (d_name d @ [dg d]) (cs_policy s))"
  using lru_insert_result [OF assms, of u] by metis

theorem lru_insert_refines_witness:
  "\<exists>s'. cs_insert example_digest (lruPolicy example_digest) (example_data 3) False
       \<lparr> cs_table = [], cs_policy = [], cs_limit = 2, cs_shouldAdmit = True, cs_shouldServe = True, cs_now = 0 \<rparr> = Def s' \<and>
     cs_policy s' = lru_touch 2 (d_name (example_data 3) @ [example_digest (example_data 3)]) []"
proof -
  let ?s = "\<lparr> cs_table = [], cs_policy = [], cs_limit = 2, cs_shouldAdmit = True, cs_shouldServe = True, cs_now = 0 \<rparr>"
  have inv: "cs_inv example_digest lru_tracks ?s" by (simp add: cs_inv_def table_ok_def lru_tracks_def cs_keys_def)
  have "d_cachePolicy (example_data 3) \<noteq> Some 1" by (simp add: example_data_def)
  from lru_insert_refines [OF inv example_fits(1) [of 3] _ _ this, of False] show ?thesis by auto
qed



section \<open>A full name with the rightmost child selector\<close>

text \<open>
  Two stale Data packets with one name, and an Interest with the full name of the second that asks for the
  rightmost fresh child: the search leaves its range to the left, compares with the wrong end and steps back
  from the begin of the table.
\<close>

lemma rightmost_full_name_undefined:
  "find_match example_digest 10
     ((example_interest 7)\<lparr> in_name := [(8, [1]), (8, [2]), (1, replicate 32 2)],
        in_selectors := mkSelectors\<lparr> sel_childSelector := 1, sel_mustBeFresh := True \<rparr> \<rparr>)
     [mkEntryImpl 0 (example_data 1) False, mkEntryImpl 0 (example_data 2) False] = Some (Undef EndDereference)"
  by code_simp

end
