(* ===== verification/Nfd_Pipelines.thy ===== *)
theory Nfd_Pipelines
  imports Nfd_Tables Nfd_Cs
begin

text \<open>
  The forwarding pipelines of NFD as VAL changed them (\<open>src/NFD/daemon/fw/forwarder.cpp\<close>) with the broadcast strategy
  (\<open>fw/broadcast-strategy.cpp\<close>, \<open>fw/strategy.cpp\<close>) as the strategy of every name, and the content store with its default LRU
  policy (the content stores of ndnSIM are not part of it). A pipeline returns the new state and the packets handed to faces. Tags are fields of the packets; where the
  code sets a tag on an object that is also held elsewhere, the other holders see it in the model too. The
  implicit digest, the hash function and the addresses of faces, which order a \<open>std::set\<close> of pointers, are parameters.
\<close>

section \<open>State\<close>

record nfd_env =
  ne_digest :: "data \<Rightarrow> component"
  ne_city :: "byte list \<Rightarrow> u64 \<Rightarrow> u64"
  ne_address :: "face_id \<Rightarrow> u64"

record nfd_counters =
  c_nInInterests :: u64
  c_nOutInterests :: u64
  c_nInData :: u64
  c_nOutData :: u64
  c_nInNacks :: u64
  c_nOutNacks :: u64
  c_nSatisfiedInterests :: u64
  c_nUnsatisfiedInterests :: u64
  c_nCsHits :: u64
  c_nCsMisses :: u64

record nfd =
  fw_tables :: tables
  fw_cs :: "name list cs"
  fw_dnl :: dnl
  fw_faces :: face_table
  fw_regions :: "name list"
  fw_sched :: "nat scheduler"
  fw_counters :: nfd_counters

definition count_fw :: "(nfd_counters \<Rightarrow> nfd_counters) \<Rightarrow> nfd \<Rightarrow> nfd" where
  "count_fw f s = s\<lparr> fw_counters := f (fw_counters s) \<rparr>"

definition fw_now :: "nfd \<Rightarrow> int" where "fw_now s = sc_now (fw_sched s)"

datatype nfd_action =
    SendInterest face_id interest
  | SendInterestToVal face_id interest
  | SendData face_id data
  | SendDataToVal face_id data "nonce list option" bool
  | SendNack face_id nack

type_synonym nfd_result = "(nfd \<times> nfd_action list) outcome"

definition NACK_DUPLICATE :: u64 where "NACK_DUPLICATE = 100"

definition appFace_uri :: string where "appFace_uri = ''appFace://''"

text \<open>The object behind a PIT entry pointer.\<close>

definition with_pit :: "nat \<Rightarrow> nfd \<Rightarrow> (pit_entry \<Rightarrow> 'a outcome) \<Rightarrow> 'a outcome" where
  "with_pit p s f = (case tb_pits (fw_tables s) p of None \<Rightarrow> Undef NullDereference | Some e \<Rightarrow> f e)"

definition set_pit :: "nat \<Rightarrow> (pit_entry \<Rightarrow> pit_entry) \<Rightarrow> nfd \<Rightarrow> nfd" where
  "set_pit p f s = s\<lparr> fw_tables := pit_modify p f (fw_tables s) \<rparr>"

text \<open>The reference \<open>nexthop.getFace()\<close>.\<close>

definition with_face :: "face_id \<Rightarrow> nfd \<Rightarrow> (face \<Rightarrow> 'a outcome) \<Rightarrow> 'a outcome" where
  "with_face fid s f = (case ft_get fid (fw_faces s) of None \<Rightarrow> Undef NullDereference | Some face \<Rightarrow> f face)"

definition route :: "name \<Rightarrow> face_id \<Rightarrow> nfd \<Rightarrow> nfd outcome" where
  "route pfx fid s =
     bindU (add_route pfx fid (fw_tables s)) (\<lambda>tb. Def (s\<lparr> fw_tables := tb \<rparr>))"

text \<open>
  The constructor, for a node with the given network regions: a name tree with the root, where the default strategy is, a
  content store for ten packets and the reserved face of the content store.
\<close>

definition csFace :: face where "csFace = mkFace ''contentstore://'' ScopeLocal LinkPointToPoint"

definition mkForwarder :: "nfd_env \<Rightarrow> name list \<Rightarrow> nfd outcome" where
  "mkForwarder env regions =
     bindU (mkCs (lruPolicy (ne_digest env)) [] 10 (sc_now (mkScheduler :: nat scheduler))) (\<lambda>c.
     bindU (ft_addReserved csFace FACEID_CONTENT_STORE mkFaceTable) (\<lambda>(sig, ft).
       case mkDnl DNL_DEFAULT_LIFETIME of None \<Rightarrow> Undef AssertionFailed
       | Some d \<Rightarrow> Def \<lparr> fw_tables = mkTables\<lparr> tb_tree := [([], mkNte\<lparr> nt_other := True \<rparr>)] \<rparr>, fw_cs = c, fw_dnl = d, fw_faces = ft, fw_regions = regions, fw_sched = mkScheduler,
           fw_counters = \<lparr> c_nInInterests = 0, c_nOutInterests = 0, c_nInData = 0, c_nOutData = 0, c_nInNacks = 0, c_nOutNacks = 0,
             c_nSatisfiedInterests = 0, c_nUnsatisfiedInterests = 0, c_nCsHits = 0, c_nCsMisses = 0 \<rparr> \<rparr>))"

section \<open>Timers and the dead nonce list\<close>

definition fw_setExpiryTimer :: "nat \<Rightarrow> int \<Rightarrow> nfd \<Rightarrow> nfd outcome" where
  "fw_setExpiryTimer p duration s =
     with_pit p s (\<lambda>e. assertion (duration \<ge> 0)
       (let (eid, sch) = scheduleEvent (duration * 1000000) p (cancelEvent (pt_expiryTimer e) (fw_sched s)) in
        Def (set_pit p (\<lambda>e. e\<lparr> pt_expiryTimer := Some eid \<rparr>) (s\<lparr> fw_sched := sch \<rparr>))))"

primrec dnl_add_all :: "(byte list \<Rightarrow> u64 \<Rightarrow> u64) \<Rightarrow> name \<Rightarrow> nonce list \<Rightarrow> dnl \<Rightarrow> dnl outcome" where
  "dnl_add_all city n [] d = Def d"
| "dnl_add_all city n (x # xs) d = bindU (dnl_add city n x d) (dnl_add_all city n xs)"

definition insertDeadNonceList :: "nfd_env \<Rightarrow> nat \<Rightarrow> face_id option \<Rightarrow> nfd \<Rightarrow> nfd outcome" where
  "insertDeadNonceList env p upstream s =
     with_pit p s (\<lambda>e.
       assertion (pt_isSatisfied e \<longrightarrow> pt_dataFreshnessPeriod e \<ge> 0)
       (let needDnl = (if pt_isSatisfied e
                       then sel_mustBeFresh (in_selectors (pt_interest e)) \<and> pt_dataFreshnessPeriod e * 1000000 < dn_lifetime (fw_dnl s)
                       else True);
            nonces = (case upstream of None \<Rightarrow> map fr_lastNonce (pt_outRecords e)
                      | Some face \<Rightarrow> (case getOutRecord face e of None \<Rightarrow> [] | Some r \<Rightarrow> [fr_lastNonce r])) in
        if \<not> needDnl then Def s
        else bindU (dnl_add_all (ne_city env) (in_name (pt_interest e)) nonces (fw_dnl s)) (\<lambda>d. Def (s\<lparr> fw_dnl := d \<rparr>))))"

section \<open>Outgoing pipelines\<close>

definition onOutgoingInterest :: "nat \<Rightarrow> face \<Rightarrow> interest \<Rightarrow> nfd \<Rightarrow> nfd_result" where
  "onOutgoingInterest p outFace i s =
     with_pit p s (\<lambda>e.
       bindU (insertOrUpdateOutRecord (fw_now s) (fc_id outFace) i e) (\<lambda>e'.
         Def (count_fw (\<lambda>c. c\<lparr> c_nOutInterests := c_nOutInterests c + 1 \<rparr>) (set_pit p (\<lambda>_. e') s),
              [if fc_isGeoFace outFace then SendInterestToVal (fc_id outFace) i else SendInterest (fc_id outFace) i])))"

definition onOutgoingData :: "data \<Rightarrow> face \<Rightarrow> nonce list option \<Rightarrow> bool \<Rightarrow> nfd \<Rightarrow> nfd \<times> nfd_action list" where
  "onOutgoingData d outFace nonceList isProducer s =
     (if fc_id outFace = INVALID_FACEID then (s, [])
      else if fc_scope outFace = ScopeNonLocal \<and> isPrefixOf localhost (d_name d) then (s, [])
      else (count_fw (\<lambda>c. c\<lparr> c_nOutData := c_nOutData c + 1 \<rparr>) s,
            [if fc_isGeoFace outFace then SendDataToVal (fc_id outFace) d nonceList isProducer else SendData (fc_id outFace) d]))"

definition onOutgoingNack :: "nat \<Rightarrow> face \<Rightarrow> u64 \<Rightarrow> nfd \<Rightarrow> nfd_result" where
  "onOutgoingNack p outFace reason s =
     with_pit p s (\<lambda>e.
       if fc_id outFace = INVALID_FACEID then Def (s, [])
       else case getInRecord (fc_id outFace) e of
         None \<Rightarrow> Def (s, [])
       | Some r \<Rightarrow>
           if fc_linkType outFace \<noteq> LinkPointToPoint then Def (s, [])
           else (case ir_interest r of None \<Rightarrow> Undef NullDereference
                 | Some i \<Rightarrow>
                     let s' = set_pit p (deleteInRecord (fc_id outFace)) s in
                     Def (if fc_isGeoFace outFace then (s', [])
                          else (count_fw (\<lambda>c. c\<lparr> c_nOutNacks := c_nOutNacks c + 1 \<rparr>) s',
                                [SendNack (fc_id outFace) \<lparr> nk_interest = i, nk_reason = reason \<rparr>]))))"

section \<open>Actions of a strategy\<close>

definition strategy_sendData :: "nfd_env \<Rightarrow> nat \<Rightarrow> data \<Rightarrow> face \<Rightarrow> nfd \<Rightarrow> nfd_result" where
  "strategy_sendData env p d outFace s =
     with_pit p s (\<lambda>e. assertion (matchesData (ne_digest env d) (pt_interest e) d)
       (Def (if \<not> fc_isGeoFace outFace
             then onOutgoingData d outFace None False (set_pit p (deleteInRecord (fc_id outFace)) s)
             else (s, []))))"

definition strategy_sendDataToVal :: "nfd_env \<Rightarrow> nat \<Rightarrow> data \<Rightarrow> face \<Rightarrow> nonce list option \<Rightarrow> bool \<Rightarrow> nfd \<Rightarrow> nfd_result" where
  "strategy_sendDataToVal env p d outFace nonceList isProducer s =
     with_pit p s (\<lambda>e. assertion (matchesData (ne_digest env d) (pt_interest e) d)
       (Def (onOutgoingData d outFace nonceList isProducer (set_pit p (deleteInRecord (fc_id outFace)) s))))"

definition isInProducerRegion :: "delegation list \<Rightarrow> nfd \<Rightarrow> bool" where
  "isInProducerRegion hint s = list_ex (\<lambda>region. list_ex (\<lambda>del. isPrefixOf (snd del) region) hint) (fw_regions s)"

text \<open>The loop of \<open>lookupFib\<close> over the delegations; \<open>last_found\<close> is the variable \<open>fibEntry\<close>.\<close>

fun lookup_delegations :: "tree \<Rightarrow> delegation list \<Rightarrow> fib_entry option \<Rightarrow> fib_entry outcome" where
  "lookup_delegations t [] last_found =
     (case last_found of None \<Rightarrow> Undef AssertionFailed | Some f \<Rightarrow> assertion (fe_prefix f = []) (Def f))"
| "lookup_delegations t (del # dels) last_found =
     (let f = fib_lpm (snd del) t in
      if fe_nextHops f \<noteq> [] then Def f else assertion (fe_prefix f = []) (lookup_delegations t dels (Some f)))"

definition lookupFib :: "nat \<Rightarrow> nfd \<Rightarrow> fib_entry outcome" where
  "lookupFib p s =
     with_pit p s (\<lambda>e.
       let hint = in_forwardingHint (pt_interest e); t = tb_tree (fw_tables s) in
       if hint = [] then Def (fib_lpm_pit (in_name (pt_interest e)) (pt_node e) t)
       else assertion (\<not> isInProducerRegion hint s) (lookup_delegations t hint None))"

section \<open>Broadcast strategy\<close>

text \<open>The loop over the next hops: an application face ends it, otherwise the first geo-face is taken.\<close>

primrec choose_face :: "face \<Rightarrow> interest \<Rightarrow> nfd \<Rightarrow> face option \<Rightarrow> nexthop list \<Rightarrow> face option outcome" where
  "choose_face inFace i s outFace [] = Def outFace"
| "choose_face inFace i s outFace (h # hs) =
     with_face (nh_face h) s (\<lambda>cand.
       if \<not> fc_isValNetFace cand \<and> \<not> wouldViolateScope inFace i cand then
         (if fc_localUri cand = appFace_uri then Def (Some cand)
          else choose_face inFace i s (if fc_isGeoFace cand \<and> outFace = None then Some cand else outFace) hs)
       else choose_face inFace i s outFace hs)"

definition broadcast_afterReceiveInterest :: "face \<Rightarrow> interest \<Rightarrow> nat \<Rightarrow> nfd \<Rightarrow> nfd_result" where
  "broadcast_afterReceiveInterest inFace i p s =
     bindU (lookupFib p s) (\<lambda>f.
     bindU (choose_face inFace i s None (fe_nextHops f)) (\<lambda>r.
       case r of None \<Rightarrow> bindU (fw_setExpiryTimer p 0 s) (\<lambda>s'. Def (s', []))
       | Some outFace \<Rightarrow> onOutgoingInterest p outFace i s))"

text \<open>The first geo-face among the next hops.\<close>

primrec first_geoFace :: "nfd \<Rightarrow> nexthop list \<Rightarrow> face option outcome" where
  "first_geoFace s [] = Def None"
| "first_geoFace s (h # hs) = with_face (nh_face h) s (\<lambda>f. if fc_isGeoFace f then Def (Some f) else first_geoFace s hs)"

definition broadcast_afterContentStoreHit :: "nfd_env \<Rightarrow> nat \<Rightarrow> face \<Rightarrow> data \<Rightarrow> nfd \<Rightarrow> nfd_result" where
  "broadcast_afterContentStoreHit env p inFace d s =
     (if fc_isGeoFace inFace then
        bindU (lookupFib p s) (\<lambda>f.
        bindU (first_geoFace s (fe_nextHops f)) (\<lambda>r.
          case r of None \<Rightarrow> Def (s, [])
          | Some outFace \<Rightarrow> with_pit p s (\<lambda>e. strategy_sendDataToVal env p d outFace (Some (pt_nonceList e)) False s)))
      else strategy_sendData env p d inFace s)"

text \<open>
  One round of the loop over the pending downstreams; \<open>d\<close> is the Data object, which gets a tag when an application face is
  served, and \<open>sent\<close> the variable \<open>sentToGeoFace\<close>.
\<close>

definition serve_downstream :: "nfd_env \<Rightarrow> nat \<Rightarrow> face \<Rightarrow> bool \<Rightarrow> face \<Rightarrow> (data \<times> bool) \<times> nfd \<Rightarrow> ((data \<times> bool) \<times> nfd \<times> nfd_action list) outcome" where
  "serve_downstream env p inFace isProducer f ds = (case ds of ((d, sent), s) \<Rightarrow>
     with_pit p s (\<lambda>e.
       if fc_isGeoFace f \<and> \<not> sent then
         bindU (strategy_sendDataToVal env p d f (Some (pt_nonceList e)) isProducer s) (\<lambda>(s', as). Def ((d, True), s', as))
       else if \<not> fc_isGeoFace f then
         bindU (strategy_sendData env p d f s) (\<lambda>(s', as).
           if fc_isGeoFace inFace \<and> fc_localUri f = appFace_uri then
             let d' = d\<lparr> d_congestionMark := Some 500 \<rparr> in
             Def ((d', sent), s', as @ [SendDataToVal (fc_id inFace) d' (Some (pt_nonceList e)) False])
           else Def ((d, sent), s', as))
       else Def ((d, sent), set_pit p (deleteInRecord (fc_id f)) s, [])))"

primrec serve_downstreams :: "nfd_env \<Rightarrow> nat \<Rightarrow> face \<Rightarrow> bool \<Rightarrow> face_id list \<Rightarrow> (data \<times> bool) \<times> nfd \<Rightarrow> (data \<times> nfd \<times> nfd_action list) outcome" where
  "serve_downstreams env p inFace isProducer [] ds = Def (fst (fst ds), snd ds, [])"
| "serve_downstreams env p inFace isProducer (fid # fids) ds =
     with_face fid (snd ds) (\<lambda>f.
       bindU (serve_downstream env p inFace isProducer f ds) (\<lambda>(dsent, s', as).
       bindU (serve_downstreams env p inFace isProducer fids (dsent, s')) (\<lambda>(d', s'', as'). Def (d', s'', as @ as'))))"

definition pending_downstreams :: "nfd_env \<Rightarrow> int \<Rightarrow> pit_entry \<Rightarrow> face_id list" where
  "pending_downstreams env now e =
     sort_key (ne_address env) (remdups (map fr_face (filter (\<lambda>r. fr_expiry r > now) (pt_inRecords e))))"

definition broadcast_afterReceiveData :: "nfd_env \<Rightarrow> nat \<Rightarrow> face \<Rightarrow> data \<Rightarrow> nfd \<Rightarrow> (data \<times> nfd \<times> nfd_action list) outcome" where
  "broadcast_afterReceiveData env p inFace d s =
     bindU (if fc_isGeoFace inFace then route (getPrefix (- 1) (d_name d)) (fc_id inFace) s else Def s) (\<lambda>s1.
       with_pit p s1 (\<lambda>e. serve_downstreams env p inFace (\<not> fc_isGeoFace inFace) (pending_downstreams env (fw_now s1) e) ((d, False), s1)))"

section \<open>Interest pipelines\<close>

definition onInterestLoop :: "face \<Rightarrow> interest \<Rightarrow> nfd \<Rightarrow> nfd \<times> nfd_action list" where
  "onInterestLoop inFace i s =
     (if fc_linkType inFace \<noteq> LinkPointToPoint then (s, [])
      else (s, if fc_isGeoFace inFace then [] else [SendNack (fc_id inFace) \<lparr> nk_interest = i, nk_reason = NACK_DUPLICATE \<rparr>]))"

definition millis_from :: "int \<Rightarrow> int" where
  "millis_from x = (if x \<ge> 0 then x div 1000000 else - ((- x) div 1000000))"

definition last_expiry :: "pit_entry \<Rightarrow> int" where
  "last_expiry e = fold max (map fr_expiry (pt_inRecords e)) time_min"

text \<open>The first application face among the next hops.\<close>

primrec first_appFace :: "nfd \<Rightarrow> nexthop list \<Rightarrow> face option outcome" where
  "first_appFace s [] = Def None"
| "first_appFace s (h # hs) = with_face (nh_face h) s (\<lambda>f. if fc_localUri f = appFace_uri then Def (Some f) else first_appFace s hs)"

text \<open>
  \<open>setForwardingHint({})\<close> on the Interest that the in-record of its face holds, and the PIT entry too when it was created
  for this Interest (\<open>owns\<close>).
\<close>

definition strip_hint :: "nat \<Rightarrow> bool \<Rightarrow> face_id \<Rightarrow> interest \<Rightarrow> nfd \<Rightarrow> nfd" where
  "strip_hint p owns face i s =
     (let i' = i\<lparr> in_forwardingHint := [], in_wire := None \<rparr> in
      set_pit p (\<lambda>e. e\<lparr> pt_inRecords := update_first (\<lambda>r. fr_face r = face) (\<lambda>r. r\<lparr> ir_interest := Some i' \<rparr>) (pt_inRecords e),
                        pt_interest := (if owns then i' else pt_interest e) \<rparr>) s)"

definition to_next_hop :: "face \<Rightarrow> nat \<Rightarrow> bool \<Rightarrow> interest \<Rightarrow> face \<Rightarrow> nfd \<Rightarrow> nfd_result" where
  "to_next_hop inFace p owns i nextHopFace s =
     with_pit p s (\<lambda>e.
       bindU (if fc_isGeoFace inFace then
                let f = fib_lpm_pit (in_name (pt_interest e)) (pt_node e) (tb_tree (fw_tables s)) in
                if fe_nextHops f \<noteq> [] then
                  bindU (first_appFace s (fe_nextHops f)) (\<lambda>r.
                    case r of None \<Rightarrow> Def (i, nextHopFace, s)
                    | Some outFace \<Rightarrow> Def (i\<lparr> in_forwardingHint := [], in_wire := None \<rparr>, outFace, strip_hint p owns (fc_id inFace) i s))
                else bindU (route (getPrefix (- 1) (in_name i)) (fc_id nextHopFace) s) (\<lambda>s1. Def (i, nextHopFace, s1))
              else Def (i, nextHopFace, s)) (\<lambda>(i1, nextHopFace1, s1).
       bindU (if fc_localUri inFace = appFace_uri then route (getPrefix (- 1) (in_name i1)) (fc_id nextHopFace1) s1 else Def s1) (\<lambda>s2.
         onOutgoingInterest p nextHopFace1 i1 s2)))"

definition onContentStoreMiss :: "face \<Rightarrow> nat \<Rightarrow> bool \<Rightarrow> interest \<Rightarrow> nfd \<Rightarrow> nfd_result" where
  "onContentStoreMiss inFace p owns i s0 =
     (let s = count_fw (\<lambda>c. c\<lparr> c_nCsMisses := c_nCsMisses c + 1 \<rparr>) s0 in
      with_pit p s (\<lambda>e.
      bindU (insertOrUpdateInRecord (fw_now s) (fc_id inFace) i e) (\<lambda>e'.
      bindU (fw_setExpiryTimer p (millis_from (last_expiry e' - fw_now s)) (set_pit p (\<lambda>_. e') s)) (\<lambda>s1.
        case in_nextHopFaceId i of
          Some fid \<Rightarrow> (case ft_get fid (fw_faces s1) of None \<Rightarrow> Def (s1, []) | Some nextHopFace \<Rightarrow> to_next_hop inFace p owns i nextHopFace s1)
        | None \<Rightarrow> broadcast_afterReceiveInterest inFace i p s1))))"

text \<open>The tag that the hit sets on the stored Data.\<close>

definition cs_retag :: "(data \<Rightarrow> component) \<Rightarrow> data \<Rightarrow> data \<Rightarrow> name list cs \<Rightarrow> name list cs" where
  "cs_retag dg d d' c =
     c\<lparr> cs_table := map (\<lambda>e. if getFullName dg e = d_name d @ [dg d] then e\<lparr> ce_data := d' \<rparr> else e) (cs_table c) \<rparr>"

definition onContentStoreHit :: "nfd_env \<Rightarrow> face \<Rightarrow> nat \<Rightarrow> interest \<Rightarrow> data \<Rightarrow> nfd \<Rightarrow> nfd_result" where
  "onContentStoreHit env inFace p i d s0 =
     (let d' = d\<lparr> d_incomingFaceId := Some FACEID_CONTENT_STORE \<rparr>;
          s1 = count_fw (\<lambda>c. c\<lparr> c_nCsHits := c_nCsHits c + 1 \<rparr>) s0;
          s2 = s1\<lparr> fw_cs := cs_retag (ne_digest env) d d' (fw_cs s1) \<rparr>;
          s3 = set_pit p (\<lambda>e. e\<lparr> pt_isSatisfied := True, pt_dataFreshnessPeriod := d_freshness d \<rparr>) s2 in
      bindU (fw_setExpiryTimer p 0 s3) (broadcast_afterContentStoreHit env p inFace d'))"

definition onIncomingInterest :: "nfd_env \<Rightarrow> face \<Rightarrow> interest \<Rightarrow> nfd \<Rightarrow> nfd_result option" where
  "onIncomingInterest env inFace i0 s0 =
     (let i1 = i0\<lparr> in_incomingFaceId := Some (fc_id inFace) \<rparr>;
          s = count_fw (\<lambda>c. c\<lparr> c_nInInterests := c_nInInterests c + 1 \<rparr>) s0 in
      if fc_scope inFace = ScopeNonLocal \<and> isPrefixOf localhost (in_name i1) then Some (Def (s, []))
      else if dnl_has (ne_city env) (in_name i1) (in_nonce i1) (fw_dnl s) then Some (Def (onInterestLoop inFace i1 s))
      else
        let i = (if in_forwardingHint i1 \<noteq> [] \<and> isInProducerRegion (in_forwardingHint i1) s
                 then i1\<lparr> in_forwardingHint := [], in_wire := None \<rparr> else i1) in
        case pit_insert i (fw_tables s) of Undef u \<Rightarrow> Some (Undef u)
        | Def ((p, isNew), tb) \<Rightarrow>
            let s1 = s\<lparr> fw_tables := tb \<rparr> in
            (case tb_pits tb p of None \<Rightarrow> Some (Undef NullDereference)
             | Some e \<Rightarrow>
                 let dnw = findDuplicateNonce e (in_nonce i) (fc_id inFace);
                     duplicate = dnw \<noteq> [] \<and>
                       \<not> (fc_linkType inFace = LinkPointToPoint \<and> \<not> fc_isGeoFace inFace \<and> InSame \<in> set dnw) in
                 if duplicate then Some (Def (onInterestLoop inFace i s1))
                 else if pt_inRecords e = [] then
                   (case cs_find (ne_digest env) (lruPolicy (ne_digest env)) i (fw_cs s1) of
                      None \<Rightarrow> None
                    | Some (Undef u) \<Rightarrow> Some (Undef u)
                    | Some (Def (None, c)) \<Rightarrow> Some (onContentStoreMiss inFace p isNew i (s1\<lparr> fw_cs := c \<rparr>))
                    | Some (Def (Some d, c)) \<Rightarrow> Some (onContentStoreHit env inFace p i d (s1\<lparr> fw_cs := c \<rparr>)))
                 else Some (onContentStoreMiss inFace p isNew i s1)))"

definition onInterestFinalize :: "nfd_env \<Rightarrow> nat \<Rightarrow> nfd \<Rightarrow> nfd outcome" where
  "onInterestFinalize env p s =
     bindU (insertDeadNonceList env p None s) (\<lambda>s1.
       with_pit p s1 (\<lambda>e.
         let s2 = count_fw (\<lambda>c. if pt_isSatisfied e then c\<lparr> c_nSatisfiedInterests := c_nSatisfiedInterests c + 1 \<rparr>
                                else c\<lparr> c_nUnsatisfiedInterests := c_nUnsatisfiedInterests c + 1 \<rparr>) s1;
             s3 = s2\<lparr> fw_sched := cancelEvent (pt_expiryTimer e) (fw_sched s2) \<rparr> in
         bindU (pit_erase p (fw_tables s3)) (\<lambda>tb. Def (s3\<lparr> fw_tables := tb \<rparr>))))"

section \<open>Data pipelines\<close>

definition onDataUnsolicited :: "nfd_env \<Rightarrow> face \<Rightarrow> data \<Rightarrow> nfd \<Rightarrow> nfd_result" where
  "onDataUnsolicited env inFace d s =
     (let cache = (fc_scope inFace = ScopeNonLocal) in
      bindU (if fc_isGeoFace inFace \<and> cache then
               bindU (first_appFace s (fe_nextHops (fib_lpm (d_name d) (tb_tree (fw_tables s))))) (\<lambda>r.
                 let isProducer = (r \<noteq> None); d' = d\<lparr> d_congestionMark := Some 501 \<rparr> in
                 bindU (if isProducer then Def s else route (getPrefix (- 1) (d_name d)) (fc_id inFace) s) (\<lambda>s1.
                   Def (\<not> isProducer, d', s1, [SendDataToVal (fc_id inFace) d' None isProducer])))
             else Def (cache, d, s, [])) (\<lambda>(cache', d', s1, as).
        if cache' then
          bindU (cs_insert (ne_digest env) (lruPolicy (ne_digest env)) d' True (fw_cs s1)) (\<lambda>c. Def (s1\<lparr> fw_cs := c \<rparr>, as))
        else Def (s1, as)))"

text \<open>The body of the loop over the matching PIT entries, and the loop; the Data object is threaded through.\<close>

definition satisfy_entry :: "nfd_env \<Rightarrow> face \<Rightarrow> nat \<Rightarrow> data \<Rightarrow> nfd \<Rightarrow> (data \<times> nfd \<times> nfd_action list) outcome" where
  "satisfy_entry env inFace p d s =
     bindU (fw_setExpiryTimer p 0 s) (\<lambda>s1.
     bindU (broadcast_afterReceiveData env p inFace d s1) (\<lambda>(d', s2, as).
     let s3 = set_pit p (\<lambda>e. e\<lparr> pt_isSatisfied := True, pt_dataFreshnessPeriod := d_freshness d' \<rparr>) s2 in
     bindU (insertDeadNonceList env p (Some (fc_id inFace)) s3) (\<lambda>s4.
       Def (d', set_pit p (deleteOutRecord (fc_id inFace)) s4, as))))"

primrec satisfy_entries :: "nfd_env \<Rightarrow> face \<Rightarrow> nat list \<Rightarrow> data \<Rightarrow> nfd \<Rightarrow> nfd_result" where
  "satisfy_entries env inFace [] d s = Def (s, [])"
| "satisfy_entries env inFace (p # ps) d s =
     bindU (satisfy_entry env inFace p d s) (\<lambda>(d', s1, as).
     bindU (satisfy_entries env inFace ps d' s1) (\<lambda>(s2, as'). Def (s2, as @ as')))"

definition onIncomingData :: "nfd_env \<Rightarrow> face \<Rightarrow> data \<Rightarrow> nfd \<Rightarrow> nfd_result" where
  "onIncomingData env inFace d0 s0 =
     (let d = d0\<lparr> d_incomingFaceId := Some (fc_id inFace) \<rparr>;
          s = count_fw (\<lambda>c. c\<lparr> c_nInData := c_nInData c + 1 \<rparr>) s0 in
      if fc_scope inFace = ScopeNonLocal \<and> isPrefixOf localhost (d_name d) then Def (s, [])
      else
        let matches = findAllDataMatches (ne_digest env d) d (fw_tables s) in
        if matches = [] then onDataUnsolicited env inFace d s
        else
          bindU (cs_insert (ne_digest env) (lruPolicy (ne_digest env)) (d\<lparr> d_hopCount := None \<rparr>) False (fw_cs s)) (\<lambda>c.
            satisfy_entries env inFace matches d (s\<lparr> fw_cs := c \<rparr>)))"

section \<open>Nack pipeline\<close>

definition onIncomingNack :: "face \<Rightarrow> nack \<Rightarrow> nfd \<Rightarrow> nfd_result" where
  "onIncomingNack inFace n s0 =
     (let s = count_fw (\<lambda>c. c\<lparr> c_nInNacks := c_nInNacks c + 1 \<rparr>) s0 in
      if fc_linkType inFace \<noteq> LinkPointToPoint then Def (s, [])
      else
        bindU (pit_find (nk_interest n) (fw_tables s)) (\<lambda>r.
          case r of None \<Rightarrow> Def (s, [])
          | Some p \<Rightarrow>
              with_pit p s (\<lambda>e.
                case getOutRecord (fc_id inFace) e of
                  None \<Rightarrow> Def (s, [])
                | Some rec \<Rightarrow>
                    if in_nonce (nk_interest n) \<noteq> fr_lastNonce rec then Def (s, [])
                    else
                      let s1 = set_pit p (\<lambda>e. e\<lparr> pt_outRecords := update_first (\<lambda>r. fr_face r = fc_id inFace) (snd \<circ> setIncomingNack n) (pt_outRecords e) \<rparr>) s in
                      with_pit p s1 (\<lambda>e1.
                        bindU (if \<not> hasPendingOutRecords (fw_now s1) e1 then fw_setExpiryTimer p 0 s1 else Def s1) (\<lambda>s2. Def (s2, []))))))"

section \<open>Events\<close>

datatype nfd_event =
    InInterest face_id interest
  | InData face_id data
  | InNack face_id nack
  | FaceAdded face
  | FaceRemoved face_id
  | ClockTick int
  | ExpiryTimer
  | DnlMark
  | DnlAdjust

text \<open>A face that is not VAL's network face is cleaned up by NFD before it is removed.\<close>

definition nfd_removeFace :: "face_id \<Rightarrow> nfd \<Rightarrow> nfd outcome" where
  "nfd_removeFace fid s =
     bindU (ft_remove fid (fw_faces s)) (\<lambda>(sig, ft).
       case sig of
         BeforeRemove _ \<Rightarrow> bindU (cleanupOnFaceRemoval_tables fid (fw_tables s)) (\<lambda>tb. Def (s\<lparr> fw_tables := tb, fw_faces := ft \<rparr>))
       | _ \<Rightarrow> Def (s\<lparr> fw_faces := ft \<rparr>))"

definition nfd_timer :: "nfd_env \<Rightarrow> nfd \<Rightarrow> nfd outcome" where
  "nfd_timer env s =
     (case takeExpired (fw_sched s) of None \<Rightarrow> Def s
      | Some ((eid, p), sch) \<Rightarrow> onInterestFinalize env p (s\<lparr> fw_sched := sch \<rparr>))"

definition nfd_tick :: "int \<Rightarrow> nfd \<Rightarrow> nfd" where
  "nfd_tick t s = s\<lparr> fw_sched := sc_advance t (fw_sched s), fw_cs := (fw_cs s)\<lparr> cs_now := sc_now (sc_advance t (fw_sched s)) \<rparr> \<rparr>"

text \<open>Only the faces that \<open>afterAdd\<close> announced are connected to the pipelines: VAL's network face is not.\<close>

definition connected_face :: "face_id \<Rightarrow> nfd \<Rightarrow> face option" where
  "connected_face fid s = (case ft_get fid (fw_faces s) of None \<Rightarrow> None | Some f \<Rightarrow> if fc_isValNetFace f then None else Some f)"

definition silent :: "nfd outcome \<Rightarrow> nfd_result" where
  "silent r = bindU r (\<lambda>s. Def (s, []))"

definition nfd_step :: "nfd_env \<Rightarrow> nfd_event \<Rightarrow> nfd \<Rightarrow> nfd_result option" where
  "nfd_step env ev s =
     (case ev of
        InInterest fid i \<Rightarrow> (case connected_face fid s of None \<Rightarrow> Some (Def (s, [])) | Some f \<Rightarrow> onIncomingInterest env f i s)
      | InData fid d \<Rightarrow> Some (case connected_face fid s of None \<Rightarrow> Def (s, []) | Some f \<Rightarrow> onIncomingData env f d s)
      | InNack fid n \<Rightarrow> Some (case connected_face fid s of None \<Rightarrow> Def (s, []) | Some f \<Rightarrow> onIncomingNack f n s)
      | FaceAdded f \<Rightarrow> Some (bindU (ft_add f (fw_faces s)) (\<lambda>(fid, sig, ft). Def (s\<lparr> fw_faces := ft \<rparr>, [])))
      | FaceRemoved fid \<Rightarrow> Some (if ft_get fid (fw_faces s) = None then Def (s, []) else silent (nfd_removeFace fid s))
      | ClockTick t \<Rightarrow> Some (Def (nfd_tick t s, []))
      | ExpiryTimer \<Rightarrow> Some (silent (nfd_timer env s))
      | DnlMark \<Rightarrow> Some (Def (s\<lparr> fw_dnl := dnl_mark (fw_dnl s) \<rparr>, []))
      | DnlAdjust \<Rightarrow> Some (bindU (dnl_adjustCapacity (fw_dnl s)) (\<lambda>d. Def (s\<lparr> fw_dnl := d \<rparr>, []))))"

primrec nfd_run :: "nfd_env \<Rightarrow> nfd_event list \<Rightarrow> nfd \<Rightarrow> nfd_result option" where
  "nfd_run env [] s = Some (Def (s, []))"
| "nfd_run env (ev # evs) s =
     (case nfd_step env ev s of None \<Rightarrow> None
      | Some (Undef u) \<Rightarrow> Some (Undef u)
      | Some (Def (s1, as)) \<Rightarrow>
          map_option (\<lambda>r. bindU r (\<lambda>(s2, as'). Def (s2, as @ as'))) (nfd_run env evs s1))"

end
