(* ===== verification/Nfd_Table_Laws.thy ===== *)
theory Nfd_Table_Laws
  imports Nfd_Tables Nfd_Cs_Table
begin

text \<open>
  The invariant of the name tree with its FIB and PIT entries, and that every operation of the tables keeps it: nodes
  are closed under prefixes and none is empty, next hops and in-records refer to live faces, and every PIT entry is attached to exactly
  the node of its name.
\<close>

section \<open>Comparing Interests\<close>

text \<open>Selectors as they are built locally or received: their encoding, when there is one, is that of their fields.\<close>

definition sel_plain :: "selectors \<Rightarrow> bool" where
  "sel_plain q \<longleftrightarrow> selectors_ok (q\<lparr> sel_wire := None \<rparr>) \<and> length (blk_value (selectors_block (q\<lparr> sel_wire := None \<rparr>))) < 2 ^ 64 \<and>
     (sel_wire q = None \<or> sel_wire q = Some (selectors_block (q\<lparr> sel_wire := None \<rparr>)))"

definition same_selectors :: "selectors \<Rightarrow> selectors \<Rightarrow> bool" where
  "same_selectors a b \<longleftrightarrow> a\<lparr> sel_wire := None \<rparr> = b\<lparr> sel_wire := None \<rparr>"

lemma sel_plain_encode:
  assumes "sel_plain q"
  shows "selectors_wireEncode q = Inr (selectors_block (q\<lparr> sel_wire := None \<rparr>))"
proof (cases "sel_wire q")
  case None
  then have q: "q\<lparr> sel_wire := None \<rparr> = q" by simp
  with assms have ok: "selectors_ok q" "length (blk_value (selectors_block q)) < 2 ^ 64" by (simp_all add: sel_plain_def)
  then have "encode_block (selectors_encode q) = Inr (selectors_block q)"
    unfolding selectors_block_def using prepends_selectors [of q]
    by (intro encode_block_eq) (simp_all add: selectors_ok_def selectors_block_def)
  with None ok show ?thesis unfolding q by (simp add: selectors_wireEncode_def selectors_ok_def)
qed (use assms in \<open>simp add: selectors_wireEncode_def sel_plain_def\<close>)

lemma selectors_block_inj:
  assumes "selectors_ok a" and "selectors_ok b" and "length (blk_value (selectors_block a)) < 2 ^ 64"
    and "blk_value (selectors_block a) = blk_value (selectors_block b)"
  shows "a = b"
proof -
  have ab: "selectors_block a = selectors_block b" using assms(4) by (simp add: selectors_block_def)
  have "a\<lparr> sel_wire := Some (selectors_block a) \<rparr> = b\<lparr> sel_wire := Some (selectors_block b) \<rparr>"
    using selectors_decode_block [OF assms(1,3)] selectors_decode_block [OF assms(2)] assms(3) ab by simp
  then have "a\<lparr> sel_wire := None \<rparr> = b\<lparr> sel_wire := None \<rparr>" by (metis selectors.update_convs(7) selectors.surjective selectors.ext_inject)
  then show ?thesis using assms(1,2) by (cases a, cases b) (simp add: selectors_ok_def)
qed

lemma sel_plain_eq:
  assumes "sel_plain a" and "sel_plain b"
  shows "selectors_eq a b \<longleftrightarrow> same_selectors a b"
proof
  let ?a = "a\<lparr> sel_wire := None \<rparr>" and ?b = "b\<lparr> sel_wire := None \<rparr>"
  assume "selectors_eq a b"
  then have "blk_value (selectors_block ?a) = blk_value (selectors_block ?b)"
    by (auto simp: selectors_eq_def sel_plain_encode [OF assms(1)] sel_plain_encode [OF assms(2)] blk_eq_def)
  then show "same_selectors a b"
    unfolding same_selectors_def using assms by (intro selectors_block_inj) (simp_all add: sel_plain_def)
qed (simp add: selectors_eq_def sel_plain_encode [OF assms(1)] sel_plain_encode [OF assms(2)] blk_eq_def same_selectors_def)

lemma same_selectors_fields:
  "same_selectors a b \<longleftrightarrow> sel_minSuffixComponents a = sel_minSuffixComponents b \<and> sel_maxSuffixComponents a = sel_maxSuffixComponents b \<and>
     sel_publisherPublicKeyLocator a = sel_publisherPublicKeyLocator b \<and> sel_exclude a = sel_exclude b \<and>
     sel_childSelector a = sel_childSelector b \<and> sel_mustBeFresh a = sel_mustBeFresh b"
  by (cases a, cases b) (simp add: same_selectors_def)

text \<open>The key of a PIT entry.\<close>

definition same_key :: "interest \<Rightarrow> interest \<Rightarrow> bool" where
  "same_key i j \<longleftrightarrow> in_name i = in_name j \<and> same_selectors (in_selectors i) (in_selectors j)"

lemma same_key_refl [simp]: "same_key i i"
  by (simp add: same_key_def same_selectors_def)

lemma same_key_sym: "same_key i j \<Longrightarrow> same_key j i"
  by (simp add: same_key_def same_selectors_def)

lemma same_key_trans: "same_key i j \<Longrightarrow> same_key j k \<Longrightarrow> same_key i k"
  by (simp add: same_key_def same_selectors_def)

lemma matchesData_same_key: "same_key i j \<Longrightarrow> matchesData digest i d = matchesData digest j d"
  unfolding same_key_def same_selectors_fields by (simp only: matchesData_def Let_def)

definition interest_plain :: "interest \<Rightarrow> bool" where
  "interest_plain i \<longleftrightarrow> name_fits (in_name i) \<and> sel_plain (in_selectors i)"

lemma canMatch_eq:
  assumes "interest_plain i" and "interest_plain (pt_interest e)" and "take k (in_name (pt_interest e)) = take k (in_name i)"
  shows "canMatch i k e = Def (same_key (pt_interest e) i)"
proof -
  let ?m = "in_name (pt_interest e)" and ?n = "in_name i"
  have ok: "name_ok ?m" "name_ok ?n" using assms(1,2) by (simp_all add: interest_plain_def name_fits_ok)
  then have "name_ok (take k ?m)" "name_ok (take k ?n)" "name_ok (drop k ?m)" "name_ok (drop k ?n)"
    by (auto simp: list_all_iff dest: in_set_takeD in_set_dropD)
  then have "name_compare_loop (take k ?m) (take k ?n) = 0" "name_compare_loop (drop k ?m) (drop k ?n) = 0 \<longleftrightarrow> drop k ?m = drop k ?n"
    using name_compare_order assms(3) by blast+
  moreover have "?m = ?n \<longleftrightarrow> drop k ?m = drop k ?n" using assms(3) by (metis append_take_drop_id)
  ultimately show ?thesis
    using assms(1,2) sel_plain_eq [of "in_selectors (pt_interest e)" "in_selectors i"]
    by (simp add: canMatch_def same_key_def interest_plain_def assertion_True)
qed

lemmas canMatch_whole = canMatch_eq [where k = 0, simplified]


section \<open>Invariant\<close>

definition no_empty :: "('f, 'p) name_tree \<Rightarrow> bool" where
  "no_empty t \<longleftrightarrow> (\<forall>n e. map_of t n = Some e \<longrightarrow> \<not> nte_isEmpty n e t)"

definition fib_ok :: "(face_id \<Rightarrow> bool) \<Rightarrow> tree \<Rightarrow> bool" where
  "fib_ok live t \<longleftrightarrow> (\<forall>n e f. map_of t n = Some e \<longrightarrow> nt_fib e = Some f \<longrightarrow>
     fe_prefix f = n \<and> fe_nextHops f \<noteq> [] \<and> (\<forall>h\<in>set (fe_nextHops f). live (nh_face h)))"

text \<open>The entries of a node are those PIT entries that name it as theirs.\<close>

definition pits_ok :: "tree \<Rightarrow> (nat \<Rightarrow> pit_entry option) \<Rightarrow> bool" where
  "pits_ok t pits \<longleftrightarrow> (\<forall>p pe. pits p = Some pe \<longrightarrow> map_of t (pt_node pe) \<noteq> None) \<and>
     (\<forall>n e. map_of t n = Some e \<longrightarrow> distinct (nt_pits e) \<and> set (nt_pits e) = {p. \<exists>pe. pits p = Some pe \<and> pt_node pe = n})"

definition entry_ok :: "(face_id \<Rightarrow> bool) \<Rightarrow> (delegation list \<Rightarrow> bool) \<Rightarrow> pit_entry \<Rightarrow> bool" where
  "entry_ok live hint_ok pe \<longleftrightarrow> interest_plain (pt_interest pe) \<and> pt_node pe = take (nte_depth (in_name (pt_interest pe))) (in_name (pt_interest pe)) \<and>
     hint_ok (in_forwardingHint (pt_interest pe)) \<and> 0 \<le> pt_dataFreshnessPeriod pe \<and> distinct (map fr_face (pt_inRecords pe)) \<and>
     (\<forall>r\<in>set (pt_inRecords pe). live (fr_face r) \<and> ir_interest r \<noteq> None)"

definition tables_ok :: "(face_id \<Rightarrow> bool) \<Rightarrow> (delegation list \<Rightarrow> bool) \<Rightarrow> tables \<Rightarrow> bool" where
  "tables_ok live hint_ok tb \<longleftrightarrow> nt_ok (tb_tree tb) \<and> no_empty (tb_tree tb) \<and> fib_ok live (tb_tree tb) \<and> pits_ok (tb_tree tb) (tb_pits tb) \<and>
     (\<forall>p pe. tb_pits tb p = Some pe \<longrightarrow> p < tb_next tb \<and> entry_ok live hint_ok pe)"

lemma tables_okD:
  assumes "tables_ok live hint_ok tb"
  shows "nt_ok (tb_tree tb)" "no_empty (tb_tree tb)" "fib_ok live (tb_tree tb)" "pits_ok (tb_tree tb) (tb_pits tb)"
    and "\<And>p pe. tb_pits tb p = Some pe \<Longrightarrow> p < tb_next tb" "\<And>p pe. tb_pits tb p = Some pe \<Longrightarrow> entry_ok live hint_ok pe"
  using assms by (simp_all add: tables_ok_def)

lemma pits_okD:
  assumes "pits_ok t pits"
  shows "pits p = Some pe \<Longrightarrow> \<exists>e. map_of t (pt_node pe) = Some e \<and> p \<in> set (nt_pits e)"
    and "map_of t n = Some e \<Longrightarrow> distinct (nt_pits e)"
    and "map_of t n = Some e \<Longrightarrow> p \<in> set (nt_pits e) \<longleftrightarrow> (\<exists>pe. pits p = Some pe \<and> pt_node pe = n)"
proof -
  show "\<exists>e. map_of t (pt_node pe) = Some e \<and> p \<in> set (nt_pits e)" if p: "pits p = Some pe"
  proof -
    have "map_of t (pt_node pe) \<noteq> None" using assms p unfolding pits_ok_def by blast
    then obtain e where e: "map_of t (pt_node pe) = Some e" by blast
    with assms have "set (nt_pits e) = {q. \<exists>pe'. pits q = Some pe' \<and> pt_node pe' = pt_node pe}" unfolding pits_ok_def by blast
    with e p show ?thesis by simp
  qed
qed (use assms in \<open>simp_all add: pits_ok_def\<close>)

lemma nte_depth_le: "nte_depth n \<le> length n" "nte_depth n \<le> getMaxDepth"
  by (simp_all add: nte_depth_def Let_def)

text \<open>A tree that differs from another one in that the prefixes of a name that now has an entry are there.\<close>

lemma hasChildren_cong: "dom (map_of t) \<subseteq> dom (map_of t') \<Longrightarrow> hasChildren n t \<Longrightarrow> hasChildren n t'"
  unfolding hasChildren_iff by blast

lemma no_empty_extend:
  assumes "nt_ok t" and "no_empty t"
    and t': "\<And>m. map_of t' m = (if m = n then Some e else if prefix m n \<and> map_of t m = None then Some mkNte else map_of t m)"
    and "hasTableEntries e"
  shows "no_empty t'"
  unfolding no_empty_def nte_isEmpty_def
proof (intro allI impI)
  fix m e' assume m: "map_of t' m = Some e'"
  have sub: "dom (map_of t) \<subseteq> dom (map_of t')" by (auto simp: dom_def t')
  consider "m = n" | "m \<noteq> n" "prefix m n" | "m \<noteq> n" "map_of t m = Some e'" using m by (auto simp: t' split: if_splits)
  then show "\<not> (\<not> hasChildren m t' \<and> \<not> hasTableEntries e')"
  proof cases
    case 1
    with m assms(4) show ?thesis by (simp add: t')
  next
    case 2
    then obtain c rest where n: "n = m @ c # rest" by (metis prefixE append_Nil2 neq_Nil_conv)
    then have "map_of t' (m @ [c]) \<noteq> None" by (simp add: t')
    then have "hasChildren m t'" unfolding hasChildren_iff by (intro bexI [of _ "m @ [c]"]) (auto simp: dom_def)
    then show ?thesis by simp
  next
    case 3
    with assms(2) have "hasChildren m t \<or> hasTableEntries e'" by (auto simp: no_empty_def nte_isEmpty_def)
    with hasChildren_cong [OF sub] show ?thesis by blast
  qed
qed

section \<open>Routes\<close>

lemma update_first_all: "\<forall>x\<in>set xs. Q x \<Longrightarrow> (\<And>x. Q x \<Longrightarrow> Q (g x)) \<Longrightarrow> \<forall>x\<in>set (update_first P g xs). Q x"
  by (induction xs) auto

lemma update_first_Nil [simp]: "update_first P g xs = [] \<longleftrightarrow> xs = []"
  by (cases xs) auto

lemma addOrUpdateNextHop_ok:
  assumes "\<forall>h\<in>set (fe_nextHops f). live (nh_face h)" and "live face"
  shows "fe_prefix (addOrUpdateNextHop face ep cost f) = fe_prefix f" "fe_nextHops (addOrUpdateNextHop face ep cost f) \<noteq> []"
    and "\<forall>h\<in>set (fe_nextHops (addOrUpdateNextHop face ep cost f)). live (nh_face h)"
proof -
  define hops where "hops = (if hasNextHop face ep f then fe_nextHops f else fe_nextHops f @ [\<lparr> nh_face = face, nh_endpointId = ep, nh_cost = 0 \<rparr>])"
  have eq: "fe_nextHops (addOrUpdateNextHop face ep cost f) =
      sort_key nh_cost (update_first (\<lambda>h. nh_face h = face \<and> nh_endpointId h = ep) (\<lambda>h. h\<lparr> nh_cost := cost \<rparr>) hops)"
    by (simp add: addOrUpdateNextHop_def hops_def Let_def)
  have "\<forall>h\<in>set hops. live (nh_face h)" using assms by (auto simp: hops_def)
  from update_first_all [OF this, of "\<lambda>h. h\<lparr> nh_cost := cost \<rparr>"]
  show "\<forall>h\<in>set (fe_nextHops (addOrUpdateNextHop face ep cost f)). live (nh_face h)" by (simp add: eq)
  have "hops \<noteq> []" by (auto simp: hops_def hasNextHop_def)
  moreover have "length (fe_nextHops (addOrUpdateNextHop face ep cost f)) = length hops" by (simp add: eq)
  ultimately show "fe_nextHops (addOrUpdateNextHop face ep cost f) \<noteq> []" by auto
  show "fe_prefix (addOrUpdateNextHop face ep cost f) = fe_prefix f" by (simp add: addOrUpdateNextHop_def)
qed

text \<open>The tree after the route was added: the prefixes are nodes, the last one has the route.\<close>

lemma add_route_tree:
  assumes "nt_ok t" and "fib_ok live t" and "live face" and "length pfx \<le> getMaxDepth"
  shows "\<exists>isNew t' e f. fib_insert pfx t = Def (isNew, t') \<and> nt_ok t' \<and> nt_fib e = Some f \<and>
      fe_prefix f = pfx \<and> (\<forall>h\<in>set (fe_nextHops f). live (nh_face h)) \<and>
      nt_pits e = (case map_of t pfx of None \<Rightarrow> [] | Some e' \<Rightarrow> nt_pits e') \<and>
      map_of t' = (\<lambda>m. if m = pfx then Some e else if prefix m pfx \<and> map_of t m = None then Some mkNte else map_of t m)"
proof -
  from nt_lookup_ok [OF assms(1) order_refl assms(4)] obtain t1 where
    t1: "nt_lookup pfx (length pfx) t = Def t1" "nt_ok t1"
      "map_of t1 = (\<lambda>m. if prefix m pfx \<and> map_of t m = None then Some mkNte else map_of t m)" by auto
  define e where "e = (case map_of t pfx of None \<Rightarrow> mkNte | Some e \<Rightarrow> e)"
  have e: "map_of t1 pfx = Some e" by (simp add: t1(3) e_def split: option.split)
  have pits: "nt_pits e = (case map_of t pfx of None \<Rightarrow> [] | Some e' \<Rightarrow> nt_pits e')" by (simp add: e_def mkNte_def split: option.split)
  show ?thesis
  proof (cases "nt_fib e")
    case None
    have "nt_ok (AList.update pfx (e\<lparr> nt_fib := Some (mkFibEntry pfx) \<rparr>) t1)"
      using nt_ok_up [OF t1(2), of pfx] e assms(4) by (intro nt_ok_update [OF t1(2)]) auto
    with None e pits show ?thesis
      by (intro exI [of _ True] exI [of _ "AList.update pfx (e\<lparr> nt_fib := Some (mkFibEntry pfx) \<rparr>) t1"]
          exI [of _ "e\<lparr> nt_fib := Some (mkFibEntry pfx) \<rparr>"] exI [of _ "mkFibEntry pfx"])
        (auto simp: fib_insert_def t1(1,3) update_conv' mkFibEntry_def fun_eq_iff)
  next
    case (Some f)
    then have "map_of t pfx = Some e" by (auto simp: e_def mkNte_def split: option.splits)
    with Some assms(2) have "fe_prefix f = pfx" "\<forall>h\<in>set (fe_nextHops f). live (nh_face h)" by (simp_all add: fib_ok_def)
    with Some e pits t1 show ?thesis
      by (intro exI [of _ False] exI [of _ t1] exI [of _ e] exI [of _ f]) (auto simp: fib_insert_def fun_eq_iff)
  qed
qed

lemma map_entry_conv: "map_of (AList.map_entry k g t) = (\<lambda>m. if m = k then map_option g (map_of t k) else map_of t m)"
  by (induction t) (auto simp: fun_eq_iff)

lemma nt_ok_map_entry: "nt_ok (AList.map_entry k g t) \<longleftrightarrow> nt_ok t"
proof -
  have "map fst (AList.map_entry k g t) = map fst t" by (induction t) auto
  then show ?thesis by (simp only: nt_ok_def dom_map_of_conv_image_fst set_map [symmetric])
qed

lemma add_route_ok:
  assumes "tables_ok live hint_ok tb" and "live face" and "length pfx \<le> getMaxDepth"
  shows "\<exists>tb'. add_route pfx face tb = Def tb' \<and> tables_ok live hint_ok tb' \<and> tb_pits tb' = tb_pits tb"
proof -
  note ok = tables_okD [OF assms(1)]
  from add_route_tree [OF ok(1,3) assms(2,3)] obtain isNew t e f where
    t: "fib_insert pfx (tb_tree tb) = Def (isNew, t)" "nt_ok t" "nt_fib e = Some f" "fe_prefix f = pfx" "\<forall>h\<in>set (fe_nextHops f). live (nh_face h)"
      "nt_pits e = (case map_of (tb_tree tb) pfx of None \<Rightarrow> [] | Some e' \<Rightarrow> nt_pits e')"
      "map_of t = (\<lambda>m. if m = pfx then Some e else if prefix m pfx \<and> map_of (tb_tree tb) m = None then Some mkNte else map_of (tb_tree tb) m)"
    by blast
  define e' where "e' = e\<lparr> nt_fib := Some (addOrUpdateNextHop face 0 1 f) \<rparr>"
  define t' where "t' = fib_modify pfx (addOrUpdateNextHop face 0 1) t"
  have get: "map_of t' m = (if m = pfx then Some e' else if prefix m pfx \<and> map_of (tb_tree tb) m = None then Some mkNte else map_of (tb_tree tb) m)" for m
    by (simp add: t'_def fib_modify_def map_entry_conv t(3,7) e'_def)
  have "nt_ok t'" using t(2) by (simp add: t'_def fib_modify_def nt_ok_map_entry)
  moreover have "no_empty t'" by (rule no_empty_extend [OF ok(1,2) get]) (simp add: e'_def hasTableEntries_def)
  moreover have "fib_ok live t'"
    unfolding fib_ok_def
  proof (intro allI impI)
    fix n e1 f1 assume e1: "map_of t' n = Some e1" "nt_fib e1 = Some f1"
    show "fe_prefix f1 = n \<and> fe_nextHops f1 \<noteq> [] \<and> (\<forall>h\<in>set (fe_nextHops f1). live (nh_face h))"
    proof (cases "n = pfx")
      case True
      with e1 have "f1 = addOrUpdateNextHop face 0 1 f" by (auto simp: get e'_def)
      with addOrUpdateNextHop_ok [OF t(5) assms(2), of 0 1] t(4) True show ?thesis by simp
    next
      case False
      with e1 have "map_of (tb_tree tb) n = Some e1" by (auto simp: get mkNte_def split: if_splits)
      with e1(2) ok(3) show ?thesis by (simp add: fib_ok_def)
    qed
  qed
  moreover have "pits_ok t' (tb_pits tb)"
  proof -
    have none: "\<not> (\<exists>pe. tb_pits tb p = Some pe \<and> pt_node pe = m)" if "map_of (tb_tree tb) m = None" for m p
      using pits_okD(1) [OF ok(4), of p] that by (metis option.distinct(1))
    have "map_of t' (pt_node pe) \<noteq> None" if "tb_pits tb p = Some pe" for p pe
      using pits_okD(1) [OF ok(4) that] by (auto simp: get)
    moreover have "distinct (nt_pits e1) \<and> set (nt_pits e1) = {p. \<exists>pe. tb_pits tb p = Some pe \<and> pt_node pe = n}" if "map_of t' n = Some e1" for n e1
    proof (cases "map_of (tb_tree tb) n")
      case None
      then have "nt_pits e1 = []" using that t(6) by (auto simp: get e'_def mkNte_def split: if_splits)
      with none [OF None] show ?thesis by simp
    next
      case (Some e2)
      then have "nt_pits e1 = nt_pits e2" using that t(6) by (auto simp: get e'_def split: if_splits)
      with Some pits_okD(2,3) [OF ok(4)] show ?thesis by auto
    qed
    ultimately show ?thesis by (simp add: pits_ok_def)
  qed
  ultimately show ?thesis
    using ok(5,6) by (auto simp: add_route_def t(1) tables_ok_def t'_def [symmetric])
qed

section \<open>Lookup and insertion of PIT entries\<close>

lemma pit_scan_ok:
  assumes "\<And>p. p \<in> set ps \<Longrightarrow> \<exists>pe. pits p = Some pe \<and> interest_plain (pt_interest pe) \<and> take k (in_name (pt_interest pe)) = take k (in_name i)"
    and "interest_plain i"
  shows "\<exists>r. pit_scan i k pits ps = Def r \<and>
    (case r of None \<Rightarrow> \<forall>p\<in>set ps. \<forall>pe. pits p = Some pe \<longrightarrow> \<not> same_key (pt_interest pe) i
     | Some p \<Rightarrow> p \<in> set ps \<and> (\<exists>pe. pits p = Some pe \<and> same_key (pt_interest pe) i))"
  using assms(1)
proof (induction ps)
  case (Cons p ps)
  from Cons.prems [of p] obtain pe where pe: "pits p = Some pe" "interest_plain (pt_interest pe)"
    "take k (in_name (pt_interest pe)) = take k (in_name i)" by auto
  from Cons.IH Cons.prems obtain r where r: "pit_scan i k pits ps = Def r"
    "case r of None \<Rightarrow> \<forall>p\<in>set ps. \<forall>pe. pits p = Some pe \<longrightarrow> \<not> same_key (pt_interest pe) i
     | Some p \<Rightarrow> p \<in> set ps \<and> (\<exists>pe. pits p = Some pe \<and> same_key (pt_interest pe) i)" by auto
  show ?case
  proof (cases "same_key (pt_interest pe) i")
    case True
    with canMatch_eq [OF assms(2) pe(2,3)] pe(1) show ?thesis by (intro exI [of _ "Some p"]) simp
  next
    case False
    with canMatch_eq [OF assms(2) pe(2,3)] pe(1) r show ?thesis by (intro exI [of _ r]) (simp split: option.splits)
  qed
qed simp

text \<open>The entries at the node of an Interest agree with it up to the depth of the node.\<close>

lemma node_entries:
  assumes "tables_ok live hint_ok tb" and "map_of (tb_tree tb) (take (nte_depth n) n) = Some e" and "p \<in> set (nt_pits e)"
  shows "\<exists>pe. tb_pits tb p = Some pe \<and> interest_plain (pt_interest pe) \<and> take (nte_depth n) (in_name (pt_interest pe)) = take (nte_depth n) n"
proof -
  note ok = tables_okD [OF assms(1)]
  from assms(3) pits_okD(3) [OF ok(4) assms(2)] obtain pe where pe: "tb_pits tb p = Some pe" "pt_node pe = take (nte_depth n) n" by blast
  let ?m = "in_name (pt_interest pe)"
  have "interest_plain (pt_interest pe)" "take (nte_depth ?m) ?m = take (nte_depth n) n"
    using ok(6) [OF pe(1)] pe(2) by (simp_all add: entry_ok_def)
  moreover from this(2) have "length (take (nte_depth ?m) ?m) = length (take (nte_depth n) n)" by simp
  then have "nte_depth ?m = nte_depth n" using nte_depth_le(1) by simp
  ultimately show ?thesis using pe(1) by auto
qed

lemma pit_find_ok:
  assumes "tables_ok live hint_ok tb" and "interest_plain i"
  shows "\<exists>r. pit_find i tb = Def r \<and> (case r of None \<Rightarrow> True | Some p \<Rightarrow> \<exists>pe. tb_pits tb p = Some pe \<and> same_key (pt_interest pe) i)"
proof (cases "nt_findExactMatch (in_name i) (nte_depth (in_name i)) (tb_tree tb)")
  case None
  then show ?thesis by (simp add: pit_find_def)
next
  case (Some n)
  let ?k = "nte_depth (in_name i)"
  have n: "n = take ?k (in_name i)" "map_of (tb_tree tb) n \<noteq> None"
    using Some nte_depth_le(1) [of "in_name i"] by (auto simp: nt_findExactMatch_def Let_def min_def split: if_splits)
  then obtain e where e: "map_of (tb_tree tb) n = Some e" by blast
  from pit_scan_ok [of "nt_pits e" "tb_pits tb", OF node_entries [OF assms(1) e [unfolded n(1)]] assms(2)] obtain r where
    r: "pit_scan i ?k (tb_pits tb) (nt_pits e) = Def r"
      "case r of None \<Rightarrow> \<forall>p\<in>set (nt_pits e). \<forall>pe. tb_pits tb p = Some pe \<longrightarrow> \<not> same_key (pt_interest pe) i
       | Some p \<Rightarrow> p \<in> set (nt_pits e) \<and> (\<exists>pe. tb_pits tb p = Some pe \<and> same_key (pt_interest pe) i)" by blast
  have "\<not> nte_isEmpty n e (tb_tree tb)" using tables_okD(2) [OF assms(1)] e by (simp add: no_empty_def)
  with r show ?thesis by (intro exI [of _ r]) (auto simp: pit_find_def Some e assertion_True split: option.splits)
qed

definition inserted :: "interest \<Rightarrow> nat \<Rightarrow> bool \<Rightarrow> tables \<Rightarrow> tables \<Rightarrow> bool" where
  "inserted i p isNew tb tb' \<longleftrightarrow> (\<exists>pe. tb_pits tb' p = Some pe \<and> same_key (pt_interest pe) i) \<and>
     (if isNew then tb_pits tb p = None \<and> (\<forall>q qe. tb_pits tb q = Some qe \<longrightarrow> \<not> same_key (pt_interest qe) i) \<and> tb_pits tb' = (tb_pits tb)(p \<mapsto> mkPitEntry i (take (nte_depth (in_name i)) (in_name i)))
      else tb_pits tb' = tb_pits tb)"

lemma entry_ok_new:
  "interest_plain i \<Longrightarrow> hint_ok (in_forwardingHint i) \<Longrightarrow> entry_ok live hint_ok (mkPitEntry i (take (nte_depth (in_name i)) (in_name i)))"
  by (simp add: entry_ok_def mkPitEntry_def)

lemma pits_insert:
  assumes "pits_ok t pits" and "pits p = None" and "pt_node pe = node"
    and "\<And>m. map_of t' m = (if m = node then Some (e\<lparr> nt_pits := nt_pits e @ [p] \<rparr>)
        else if prefix m node \<and> map_of t m = None then Some mkNte else map_of t m)"
    and "e = (case map_of t node of None \<Rightarrow> mkNte | Some e \<Rightarrow> e)"
  shows "pits_ok t' (pits(p \<mapsto> pe))"
proof -
  have none: "\<not> (\<exists>pe. pits q = Some pe \<and> pt_node pe = m)" if "map_of t m = None" for m q
    using pits_okD(1) [OF assms(1), of q] that by (metis option.distinct(1))
  have old: "distinct (nt_pits e1) \<and> set (nt_pits e1) = {q. \<exists>pe. pits q = Some pe \<and> pt_node pe = m}"
    if "e1 = (case map_of t m of None \<Rightarrow> mkNte | Some e \<Rightarrow> e)" for m e1
  proof (cases "map_of t m")
    case None
    with that none [OF None] show ?thesis by (simp add: mkNte_def)
  next
    case (Some e2)
    with that pits_okD(2,3) [OF assms(1) Some] show ?thesis by auto
  qed
  have "map_of t' (pt_node pe') \<noteq> None" if "(pits(p \<mapsto> pe)) q = Some pe'" for q pe'
    using pits_okD(1) [OF assms(1), of q] that assms(3) by (auto simp: assms(4) split: if_splits)
  moreover have "distinct (nt_pits e1) \<and> set (nt_pits e1) = {q. \<exists>pe'. (pits(p \<mapsto> pe)) q = Some pe' \<and> pt_node pe' = m}" if m: "map_of t' m = Some e1" for m e1
  proof (cases "m = node")
    case True
    then have e1: "nt_pits e1 = nt_pits e @ [p]" using m by (auto simp: assms(4))
    from old [OF assms(5)] have e: "distinct (nt_pits e)" "set (nt_pits e) = {q. \<exists>pe. pits q = Some pe \<and> pt_node pe = node}" by auto
    then have "p \<notin> set (nt_pits e)" using assms(2) by simp
    moreover have "{q. \<exists>pe'. (pits(p \<mapsto> pe)) q = Some pe' \<and> pt_node pe' = m} = insert p {q. \<exists>pe. pits q = Some pe \<and> pt_node pe = node}"
      using assms(2,3) True by auto
    ultimately show ?thesis using e e1 by simp
  next
    case False
    then have "e1 = (case map_of t m of None \<Rightarrow> mkNte | Some e \<Rightarrow> e)" using m by (auto simp: assms(4) split: if_splits)
    from old [OF this] False assms(2,3) show ?thesis by auto
  qed
  ultimately show ?thesis by (simp add: pits_ok_def)
qed

lemma pit_insert_ok:
  assumes "tables_ok live hint_ok tb" and "interest_plain i" and "hint_ok (in_forwardingHint i)"
  shows "\<exists>p isNew tb'. pit_insert i tb = Def ((p, isNew), tb') \<and> tables_ok live hint_ok tb' \<and> inserted i p isNew tb tb'"
proof -
  note ok = tables_okD [OF assms(1)]
  define k where "k = nte_depth (in_name i)"
  define node where "node = take k (in_name i)"
  from nt_lookup_ok [OF ok(1) nte_depth_le, of "in_name i"] obtain t where
    t: "nt_lookup (in_name i) k (tb_tree tb) = Def t" "nt_ok t"
      "map_of t = (\<lambda>m. if prefix m node \<and> map_of (tb_tree tb) m = None then Some mkNte else map_of (tb_tree tb) m)"
    by (auto simp: k_def node_def)
  define e where "e = (case map_of (tb_tree tb) node of None \<Rightarrow> mkNte | Some e \<Rightarrow> e)"
  have e: "map_of t node = Some e" by (simp add: t(3) e_def split: option.split)
  have members: "\<exists>pe. tb_pits tb p = Some pe \<and> interest_plain (pt_interest pe) \<and> take k (in_name (pt_interest pe)) = take k (in_name i)"
    if "p \<in> set (nt_pits e)" for p
    using that node_entries [OF assms(1), of "in_name i" _ p]
    by (auto simp: e_def k_def node_def mkNte_def split: option.splits)
  from pit_scan_ok [of "nt_pits e" "tb_pits tb", OF members assms(2)] obtain r where
    r: "pit_scan i k (tb_pits tb) (nt_pits e) = Def r"
      "case r of None \<Rightarrow> \<forall>p\<in>set (nt_pits e). \<forall>pe. tb_pits tb p = Some pe \<longrightarrow> \<not> same_key (pt_interest pe) i
       | Some p \<Rightarrow> p \<in> set (nt_pits e) \<and> (\<exists>pe. tb_pits tb p = Some pe \<and> same_key (pt_interest pe) i)" by blast
  show ?thesis
  proof (cases r)
    case (Some p)
    then have p: "p \<in> set (nt_pits e)" "\<exists>pe. tb_pits tb p = Some pe \<and> same_key (pt_interest pe) i" using r(2) by simp_all
    then have "map_of (tb_tree tb) node \<noteq> None" by (auto simp: e_def mkNte_def split: option.splits)
    then have "map_of (tb_tree tb) m \<noteq> None" if "prefix m node" for m
      using nt_ok_prefixes [OF ok(1), of node] that by (auto simp: prefix_take_iff)
    then have same: "map_of t = map_of (tb_tree tb)" by (auto simp: t(3) fun_eq_iff)
    have "no_empty t" using ok(2) by (simp add: no_empty_def nte_isEmpty_def hasChildren_iff same)
    then have "tables_ok live hint_ok (tb\<lparr> tb_tree := t \<rparr>)" using assms(1) t(2) by (simp add: tables_ok_def same fib_ok_def pits_ok_def)
    moreover have "pit_insert i tb = Def ((p, False), tb\<lparr> tb_tree := t \<rparr>)"
      using t(1) e r(1) Some by (simp add: pit_insert_def Let_def k_def [symmetric] node_def [symmetric])
    ultimately show ?thesis using p(2) by (auto simp: inserted_def)
  next
    case None
    define p where "p = tb_next tb"
    define t' where "t' = AList.update node (e\<lparr> nt_pits := nt_pits e @ [p] \<rparr>) t"
    define tb' where "tb' = tb\<lparr> tb_tree := t', tb_pits := (tb_pits tb)(p \<mapsto> mkPitEntry i node), tb_next := Suc p, tb_pitItems := tb_pitItems tb + 1 \<rparr>"
    have ins: "pit_insert i tb = Def ((p, True), tb')"
      using t(1) e r(1) None by (simp add: pit_insert_def Let_def k_def [symmetric] node_def [symmetric] p_def t'_def tb'_def)
    have fresh: "tb_pits tb p = None" using ok(5) [of p] by (cases "tb_pits tb p") (auto simp: p_def)
    have "length node \<le> getMaxDepth" using nte_depth_le(2) [of "in_name i"] by (simp add: node_def k_def)
    then have "nt_ok t'" unfolding t'_def using nt_ok_up [OF t(2), of node] e by (intro nt_ok_update [OF t(2)]) auto
    moreover have get: "map_of t' m = (if m = node then Some (e\<lparr> nt_pits := nt_pits e @ [p] \<rparr>)
        else if prefix m node \<and> map_of (tb_tree tb) m = None then Some mkNte else map_of (tb_tree tb) m)" for m
      by (simp add: t'_def update_conv' t(3))
    moreover have "no_empty t'" by (rule no_empty_extend [OF ok(1,2) get]) (simp add: hasTableEntries_def)
    moreover have "fib_ok live t'" using ok(3) by (auto simp: fib_ok_def get e_def mkNte_def split: if_splits option.splits)
    moreover have "pits_ok t' (tb_pits tb')" using pits_insert [OF ok(4) fresh _ get e_def, of "mkPitEntry i node"] by (simp add: tb'_def mkPitEntry_def)
    moreover have "entry_ok live hint_ok (mkPitEntry i node)" using entry_ok_new [OF assms(2), of hint_ok live] assms(3) by (simp add: node_def k_def)
    ultimately have "tables_ok live hint_ok tb'" using ok(5,6) by (auto simp: tables_ok_def tb'_def p_def less_Suc_eq)
    moreover have "\<not> same_key (pt_interest qe) i" if q: "tb_pits tb q = Some qe" for q qe
    proof
      assume key: "same_key (pt_interest qe) i"
      then have "pt_node qe = node" using ok(6) [OF q] by (simp add: entry_ok_def same_key_def node_def k_def)
      with pits_okD(1) [OF ok(4) q] have "q \<in> set (nt_pits e)" by (auto simp: e_def)
      with r(2) None q key show False by simp
    qed
    ultimately show ?thesis using ins fresh by (auto simp: inserted_def tb'_def node_def k_def mkPitEntry_def)
  qed
qed

section \<open>Erasing\<close>

text \<open>When the given node is the only one that may be empty, no node is empty after \<open>eraseIfEmpty\<close>.\<close>

lemma delete_children:
  assumes "\<not> nte_isEmpty m e t" and "map_of t m = Some e" and "m \<noteq> butlast n \<or> n = []"
  shows "\<not> nte_isEmpty m e (AList.delete n t)"
proof (cases "hasTableEntries e")
  case False
  with assms(1) have "hasChildren m t" by (simp add: nte_isEmpty_def)
  then obtain c where c: "c \<in> dom (map_of t)" "c \<noteq> []" "butlast c = m" unfolding hasChildren_iff by blast
  then have "c \<noteq> n" using assms(3) by auto
  with c have "c \<in> dom (map_of (AList.delete n t))" by (auto simp: delete_conv')
  with c show ?thesis unfolding nte_isEmpty_def hasChildren_iff by blast
qed (simp add: nte_isEmpty_def)

lemma eraseIfEmpty_no_empty:
  assumes "\<And>m e. map_of t m = Some e \<Longrightarrow> m \<noteq> n \<Longrightarrow> \<not> nte_isEmpty m e t"
  shows "no_empty (nt_eraseIfEmpty True n t)"
  using assms
proof (induction "length n" arbitrary: n t rule: less_induct)
  case (less n t)
  show ?case
  proof (cases "\<exists>e. map_of t n = Some e \<and> nte_isEmpty n e t")
    case True
    then obtain e where e: "map_of t n = Some e" "nte_isEmpty n e t" by blast
    have rest: "\<not> nte_isEmpty m e' (AList.delete n t)" if "map_of (AList.delete n t) m = Some e'" "m \<noteq> butlast n \<or> n = []" for m e'
      using delete_children [of m e' t n] less.prems [of m e'] that by (auto simp: delete_conv' split: if_splits)
    show ?thesis
    proof (cases "n = []")
      case True
      with e rest show ?thesis by (subst nt_eraseIfEmpty.simps) (simp add: no_empty_def)
    next
      case False
      then have "no_empty (nt_eraseIfEmpty True (butlast n) (AList.delete n t))" using rest by (intro less.hyps) simp_all
      with e False show ?thesis by (subst nt_eraseIfEmpty.simps) simp
    qed
  next
    case False
    have "nt_eraseIfEmpty True n t = t" using False by (subst nt_eraseIfEmpty.simps) (auto split: option.splits)
    moreover have "\<not> nte_isEmpty m e t" if "map_of t m = Some e" for m e using False less.prems [of m e] that by (cases "m = n") auto
    ultimately show ?thesis by (simp add: no_empty_def)
  qed
qed

lemma set_erase_swap:
  assumes "distinct ps" and "p \<in> set ps"
  shows "distinct (erase_swap p ps)" and "set (erase_swap p ps) = set ps - {p}"
proof -
  obtain xs ys where ps: "ps = xs @ p # ys" "p \<notin> set xs" using split_list_first [OF assms(2)] by blast
  have k: "takeWhile (\<lambda>q. q \<noteq> p) (xs @ p # ys) = xs" using ps(2) by (induction xs) auto
  have "distinct (erase_swap p ps) \<and> set (erase_swap p ps) = set ps - {p}"
  proof (cases ys rule: rev_cases)
    case Nil
    then show ?thesis using assms(1) k by (simp add: ps(1) erase_swap_def list_update_append)
  next
    case (snoc zs z)
    then have "erase_swap p ps = xs @ z # zs" using k by (simp add: ps(1) erase_swap_def list_update_append butlast_append)
    with snoc assms(1) show ?thesis by (auto simp: ps(1))
  qed
  then show "distinct (erase_swap p ps)" "set (erase_swap p ps) = set ps - {p}" by simp_all
qed

text \<open>Pruning changes neither the FIB entries nor what is attached.\<close>

lemma pruned_fib_ok: "pruned t t' \<Longrightarrow> fib_ok live t \<Longrightarrow> fib_ok live t'"
  unfolding pruned_def fib_ok_def map_le_def by (metis domI)

lemma pruned_pits_ok:
  assumes "pruned t t'" and "pits_ok t pits"
  shows "pits_ok t' pits"
proof -
  have sub: "map_of t n = Some e" if "map_of t' n = Some e" for n e
    using assms(1) that unfolding pruned_def map_le_def by (metis domI)
  have keep: "map_of t' n = Some e" if "map_of t n = Some e" "nt_pits e \<noteq> []" for n e
    using assms(1) that unfolding pruned_def hasTableEntries_def by blast
  have "map_of t' (pt_node pe) \<noteq> None" if p: "pits p = Some pe" for p pe
  proof -
    from pits_okD(1) [OF assms(2) p] obtain e where "map_of t (pt_node pe) = Some e" "p \<in> set (nt_pits e)" by blast
    with keep [of "pt_node pe" e] show ?thesis by (cases "nt_pits e") auto
  qed
  moreover have "distinct (nt_pits e) \<and> set (nt_pits e) = {p. \<exists>pe. pits p = Some pe \<and> pt_node pe = n}" if "map_of t' n = Some e" for n e
    using assms(2) sub [OF that] unfolding pits_ok_def by blast
  ultimately show ?thesis by (simp add: pits_ok_def)
qed

lemma pit_erase_ok:
  assumes "tables_ok live hint_ok tb" and "tb_pits tb p = Some pe"
  shows "\<exists>tb'. pit_erase p tb = Def tb' \<and> tables_ok live hint_ok tb' \<and> tb_pits tb' = (tb_pits tb)(p := None)"
proof -
  note ok = tables_okD [OF assms(1)]
  let ?n = "pt_node pe"
  from pits_okD(1) [OF ok(4) assms(2)] obtain e where e: "map_of (tb_tree tb) ?n = Some e" "p \<in> set (nt_pits e)" by blast
  note swap = set_erase_swap [OF pits_okD(2) [OF ok(4) e(1)] e(2)]
  define e' where "e' = e\<lparr> nt_pits := erase_swap p (nt_pits e) \<rparr>"
  define t where "t = AList.update ?n e' (tb_tree tb)"
  have get: "map_of t m = (if m = ?n then Some e' else map_of (tb_tree tb) m)" for m by (simp add: t_def update_conv')
  have dom: "dom (map_of t) = dom (map_of (tb_tree tb))" using e(1) by (auto simp: get dom_def)
  have nt: "nt_ok t" using ok(1) by (simp add: nt_ok_def dom) (simp add: t_def distinct_update nt_ok_def)
  have "\<not> nte_isEmpty m e1 t" if "map_of t m = Some e1" "m \<noteq> ?n" for m e1
    using ok(2) that by (simp add: no_empty_def nte_isEmpty_def hasChildren_iff dom get)
  then have no_empty: "no_empty (nt_eraseIfEmpty True ?n t)" by (rule eraseIfEmpty_no_empty)
  have "fib_ok live t" using ok(3) e(1) by (auto simp: fib_ok_def get e'_def split: if_splits)
  moreover have "pits_ok t ((tb_pits tb)(p := None))"
  proof -
    have "distinct (nt_pits e1) \<and> set (nt_pits e1) = {q. \<exists>pe'. ((tb_pits tb)(p := None)) q = Some pe' \<and> pt_node pe' = m}" if "map_of t m = Some e1" for m e1
    proof (cases "m = ?n")
      case True
      with that have "nt_pits e1 = erase_swap p (nt_pits e)" by (auto simp: get e'_def)
      with swap pits_okD(3) [OF ok(4) e(1)] True show ?thesis by auto
    next
      case False
      with that pits_okD(2,3) [OF ok(4), of m e1] assms(2) show ?thesis by (auto simp: get)
    qed
    moreover have "map_of t (pt_node pe') \<noteq> None" if "((tb_pits tb)(p := None)) q = Some pe'" for q pe'
      using pits_okD(1) [OF ok(4), of q pe'] that by (auto simp: get split: if_splits)
    ultimately show ?thesis by (simp add: pits_ok_def)
  qed
  moreover note pr = nt_eraseIfEmpty_pruned [of t True ?n]
  ultimately have "fib_ok live (nt_eraseIfEmpty True ?n t)" "pits_ok (nt_eraseIfEmpty True ?n t) ((tb_pits tb)(p := None))"
    using pruned_fib_ok [OF pr] pruned_pits_ok [OF pr] by blast+
  moreover have "nt_ok (nt_eraseIfEmpty True ?n t)" using pr nt by (simp add: pruned_def)
  ultimately show ?thesis
    using no_empty ok(5,6) e assms(2) by (auto simp: pit_erase_def tables_ok_def assertion_True t_def [symmetric] e'_def [symmetric])
qed

section \<open>Removal of a face\<close>

text \<open>
  Erasing the nodes without table entries from the longest to the shortest name leaves no empty node: a node that becomes empty
  by the erasure of its child is shorter, so that its turn is still to come.
\<close>

lemma erase_no_ancestors:
  "nt_eraseIfEmpty False n t = (case map_of t n of None \<Rightarrow> t | Some e \<Rightarrow> if nte_isEmpty n e t then AList.delete n t else t)"
  by (subst nt_eraseIfEmpty.simps) (simp split: option.split)

lemma fold_erase_no_empty:
  fixes t :: "('f, 'p) name_tree"
  assumes "sorted_wrt (\<lambda>a b. length b \<le> length a) ns"
    and "\<And>n e. map_of t n = Some e \<Longrightarrow> nte_isEmpty n e t \<Longrightarrow> n \<in> set ns"
    and "\<And>n e m. map_of t n = Some e \<Longrightarrow> \<not> hasTableEntries e \<Longrightarrow> n \<notin> set ns \<Longrightarrow> m \<in> set ns \<Longrightarrow> length m \<le> length n"
  shows "no_empty (fold (nt_eraseIfEmpty False) ns t)"
  using assms
proof (induction ns arbitrary: t)
  case Nil
  then show ?case by (auto simp: no_empty_def)
next
  case (Cons n ns)
  define t' where "t' = nt_eraseIfEmpty False n t"
  have sub: "map_of t m = Some e" if "map_of t' m = Some e" for m e
    using nt_eraseIfEmpty_pruned [of t False n] that unfolding t'_def pruned_def map_le_def by (metis domI)
  have "no_empty (fold (nt_eraseIfEmpty False) ns t')"
  proof (rule Cons.IH)
    show "sorted_wrt (\<lambda>a b. length b \<le> length a) ns" using Cons.prems(1) by simp
    show "m \<in> set ns" if m: "map_of t' m = Some e" "nte_isEmpty m e t'" for m e
    proof (cases "\<exists>e. map_of t n = Some e \<and> nte_isEmpty n e t")
      case True
      then have t': "t' = AList.delete n t" by (auto simp: t'_def erase_no_ancestors)
      with m(1) have mn: "m \<noteq> n" by (auto simp: delete_conv')
      show ?thesis
      proof (cases "nte_isEmpty m e t")
        case True
        with Cons.prems(2) [OF sub [OF m(1)]] mn show ?thesis by simp
      next
        case False
        with delete_children [OF False sub [OF m(1)], of n] m(2) have "m = butlast n" "n \<noteq> []" by (auto simp: t')
        then have "\<not> length n \<le> length m" by (cases n rule: rev_cases) simp_all
        moreover have "\<not> hasTableEntries e" using m(2) by (simp add: nte_isEmpty_def)
        ultimately show ?thesis using Cons.prems(3) [OF sub [OF m(1)], of n] mn by auto
      qed
    next
      case False
      then have t': "t' = t" by (auto simp: t'_def erase_no_ancestors split: option.splits)
      with Cons.prems(2) [of m e] m False show ?thesis by auto
    qed
    show "length m' \<le> length m" if "map_of t' m = Some e" "\<not> hasTableEntries e" "m \<notin> set ns" "m' \<in> set ns" for m e m'
      using Cons.prems(1,3) sub [OF that(1)] that(2-4) by (cases "m = n") auto
  qed
  then show ?case by (simp add: t'_def)
qed

lemma fold_erase_pruned: "pruned t (fold (nt_eraseIfEmpty up) ns t)"
proof (induction ns arbitrary: t)
  case (Cons n ns)
  show ?case using pruned_trans [OF nt_eraseIfEmpty_pruned Cons.IH] by simp
qed (simp add: pruned_refl)

lemma fib_without_sel [simp]: "nt_pits (fib_without face e) = nt_pits e" "nt_other (fib_without face e) = nt_other e"
  by (simp_all add: fib_without_def Let_def split: option.split)

lemma fib_without_fib:
  "nt_fib (fib_without face e) = Some f \<longleftrightarrow>
     (\<exists>f0. nt_fib e = Some f0 \<and> f = removeNextHopByFace face f0 \<and> fe_nextHops f \<noteq> [])"
  by (auto simp: fib_without_def Let_def split: option.split)

lemma map_values_conv: "map_of (map (\<lambda>(n, e). (n, g e)) t) m = map_option g (map_of t m)"
  by (induction t) auto

lemma map_values_fst: "map fst (map (\<lambda>(n, e). (n, g e)) t) = map fst t"
  by (induction t) auto

text \<open>The in-record of the removed face goes, the others stay.\<close>

lemma deleteInRecord_records:
  "distinct (map fr_face (pt_inRecords pe)) \<Longrightarrow> pt_inRecords (deleteInRecord face pe) = filter (\<lambda>r. fr_face r \<noteq> face) (pt_inRecords pe)"
  using erase_first_eq_filter [of "pt_inRecords pe" "\<lambda>r. fr_face r = face" fr_face]
  by (auto simp: deleteInRecord_def getInRecord_def find_None_iff filter_id_conv split: option.split)

lemma deleteInRecord_sel [simp]:
  "pt_interest (deleteInRecord face pe) = pt_interest pe" "pt_node (deleteInRecord face pe) = pt_node pe"
  "pt_dataFreshnessPeriod (deleteInRecord face pe) = pt_dataFreshnessPeriod pe" "pt_expiryTimer (deleteInRecord face pe) = pt_expiryTimer pe"
  "pt_outRecords (deleteInRecord face pe) = pt_outRecords pe" "pt_isSatisfied (deleteInRecord face pe) = pt_isSatisfied pe"
  by (simp_all add: deleteInRecord_def split: option.split)

lemma deleteOutRecord_sel [simp]:
  "pt_interest (deleteOutRecord face pe) = pt_interest pe" "pt_node (deleteOutRecord face pe) = pt_node pe"
  "pt_dataFreshnessPeriod (deleteOutRecord face pe) = pt_dataFreshnessPeriod pe" "pt_expiryTimer (deleteOutRecord face pe) = pt_expiryTimer pe"
  "pt_inRecords (deleteOutRecord face pe) = pt_inRecords pe"
  by (simp_all add: deleteOutRecord_def)

lemma entry_ok_filter:
  assumes "entry_ok live hint_ok pe" and "pt_interest pe' = pt_interest pe" and "pt_node pe' = pt_node pe"
    and "pt_dataFreshnessPeriod pe' = pt_dataFreshnessPeriod pe" and "pt_inRecords pe' = filter P (pt_inRecords pe)"
    and "\<And>r. P r \<Longrightarrow> live (fr_face r) \<Longrightarrow> live' (fr_face r)"
  shows "entry_ok live' hint_ok pe'"
  using assms(1,6) unfolding entry_ok_def assms(2-5) by (auto simp: distinct_map_filter)

lemma deleteInRecord_ok:
  assumes "entry_ok live hint_ok pe"
  shows "entry_ok live hint_ok (deleteInRecord face pe)"
  using assms deleteInRecord_records [of pe face]
  by (intro entry_ok_filter [OF assms, where P = "\<lambda>r. fr_face r \<noteq> face"]) (simp_all add: entry_ok_def)

lemma deleteInOutRecords_ok:
  assumes "entry_ok live hint_ok pe"
  shows "entry_ok (\<lambda>f. live f \<and> f \<noteq> face) hint_ok (deleteInOutRecords face pe)"
  using assms deleteInRecord_records [of pe face]
  by (intro entry_ok_filter [OF assms, where P = "\<lambda>r. fr_face r \<noteq> face"]) (simp_all add: entry_ok_def deleteInOutRecords_def)

lemma cleanup_ok:
  assumes "tables_ok live hint_ok tb"
  shows "\<exists>tb'. cleanupOnFaceRemoval_tables face tb = Def tb' \<and> tables_ok (\<lambda>f. live f \<and> f \<noteq> face) hint_ok tb' \<and>
    tb_pits tb' = (\<lambda>p. map_option (deleteInOutRecords face) (tb_pits tb p))"
proof -
  note ok = tables_okD [OF assms]
  define t1 where "t1 = map (\<lambda>(n, e). (n, fib_without face e)) (tb_tree tb)"
  define ns where "ns = rev (sort_key length (map fst (filter (\<lambda>(n, e). \<not> hasTableEntries e) t1)))"
  define t2 where "t2 = fold (nt_eraseIfEmpty False) ns t1"
  define pits where "pits = (\<lambda>p. map_option (deleteInOutRecords face) (tb_pits tb p))"
  have get: "map_of t1 m = map_option (fib_without face) (map_of (tb_tree tb) m)" for m by (simp add: t1_def map_values_conv)
  have dom: "dom (map_of t1) = dom (map_of (tb_tree tb))" by (auto simp: get dom_def)
  have nt: "nt_ok t1" using ok(1) by (simp add: nt_ok_def dom) (simp only: t1_def map_values_fst)
  have in_ns: "n \<in> set ns \<longleftrightarrow> (\<exists>e. map_of t1 n = Some e \<and> \<not> hasTableEntries e)" for n
  proof -
    have "distinct (map fst t1)" using nt by (simp add: nt_ok_def)
    moreover have "n \<in> set ns \<longleftrightarrow> (\<exists>e. (n, e) \<in> set t1 \<and> \<not> hasTableEntries e)" by (auto simp: ns_def image_iff)
    ultimately show ?thesis by (simp add: map_of_eq_Some_iff)
  qed
  have "sorted (map length (rev ns))" by (simp add: ns_def)
  then have "sorted_wrt (\<lambda>a b. length b \<le> length a) ns" by (simp add: sorted_wrt_rev sorted_wrt_map rev_map [symmetric])
  then have no_empty: "no_empty t2"
    unfolding t2_def by (rule fold_erase_no_empty) (auto simp: in_ns nte_isEmpty_def)
  have pr: "pruned t1 t2" by (simp add: t2_def fold_erase_pruned)
  have nt2: "nt_ok t2" using pr nt by (simp add: pruned_def)
  have "fib_ok (\<lambda>f. live f \<and> f \<noteq> face) t1"
    unfolding fib_ok_def
  proof (intro allI impI)
    fix n e f assume e: "map_of t1 n = Some e" "nt_fib e = Some f"
    then obtain e0 f0 where e0: "map_of (tb_tree tb) n = Some e0" "nt_fib e0 = Some f0" "f = removeNextHopByFace face f0" "fe_nextHops f \<noteq> []"
      by (auto simp: get fib_without_fib)
    with ok(3) have "fe_prefix f0 = n" "\<forall>h\<in>set (fe_nextHops f0). live (nh_face h)" unfolding fib_ok_def by blast+
    with e0(3,4) show "fe_prefix f = n \<and> fe_nextHops f \<noteq> [] \<and> (\<forall>h\<in>set (fe_nextHops f). live (nh_face h) \<and> nh_face h \<noteq> face)"
      by (simp add: removeNextHopByFace_def)
  qed
  moreover have "pits_ok t1 pits"
  proof -
    have "(\<exists>pe. pits p = Some pe \<and> pt_node pe = n) \<longleftrightarrow> (\<exists>pe. tb_pits tb p = Some pe \<and> pt_node pe = n)" for p n
      by (auto simp: pits_def deleteInOutRecords_def)
    moreover have "map_of t1 (pt_node pe) \<noteq> None" if "pits p = Some pe" for p pe
      using that pits_okD(1) [OF ok(4), of p] by (auto simp: pits_def deleteInOutRecords_def get)
    ultimately show ?thesis using ok(4) by (auto simp: pits_ok_def get)
  qed
  ultimately have t2: "fib_ok (\<lambda>f. live f \<and> f \<noteq> face) t2" "pits_ok t2 pits" using pruned_fib_ok [OF pr] pruned_pits_ok [OF pr] by blast+
  have "list_all (\<lambda>(n, e). \<not> nte_isEmpty n e t2) t2"
    using no_empty nt2 by (auto simp: list_all_iff no_empty_def nt_ok_def)
  moreover have "(\<lambda>p. if p \<in> set (concat (map (\<lambda>(n, e). nt_pits e) (tb_tree tb))) then map_option (deleteInOutRecords face) (tb_pits tb p) else tb_pits tb p) = pits"
  proof
    fix p
    have "p \<in> set (concat (map (\<lambda>(n, e). nt_pits e) (tb_tree tb)))" if "tb_pits tb p = Some pe" for pe
      using pits_okD(1) [OF ok(4) that] by (auto dest: map_of_SomeD)
    then show "(if p \<in> set (concat (map (\<lambda>(n, e). nt_pits e) (tb_tree tb))) then map_option (deleteInOutRecords face) (tb_pits tb p) else tb_pits tb p) = pits p"
      by (cases "tb_pits tb p") (auto simp: pits_def)
  qed
  ultimately have "\<exists>tb'. cleanupOnFaceRemoval_tables face tb = Def tb' \<and> tb_tree tb' = t2 \<and> tb_pits tb' = pits \<and> tb_next tb' = tb_next tb"
    unfolding cleanupOnFaceRemoval_tables_def Let_def t1_def [symmetric] ns_def [symmetric] t2_def [symmetric] by (simp add: assertion_True)
  moreover have "p < tb_next tb \<and> entry_ok (\<lambda>f. live f \<and> f \<noteq> face) hint_ok pe" if "pits p = Some pe" for p pe
    using that ok(5,6) deleteInOutRecords_ok by (auto simp: pits_def)
  ultimately show ?thesis using no_empty nt2 t2 by (auto simp: tables_ok_def pits_def)
qed

section \<open>Records of a PIT entry\<close>

lemma update_first_hit: "x \<in> set xs \<Longrightarrow> P x \<Longrightarrow> \<exists>y\<in>set xs. P y \<and> g y \<in> set (update_first P g xs)"
  by (induction xs) auto

lemma in_update_sel [simp]:
  "fr_face (in_update now i r) = fr_face r" "ir_interest (in_update now i r) = Some i"
  by (simp_all add: in_update_def record_update_def Let_def)

lemma in_update_expiry: "fr_expiry (in_update now i r) \<ge> now"
  by (simp add: in_update_def record_update_def Let_def DEFAULT_INTEREST_LIFETIME_def)

lemma insertOrUpdateInRecord_ok:
  assumes "entry_ok live hint_ok pe" and "interest_plain i" and "same_key (pt_interest pe) i" and "live face"
  shows "\<exists>pe'. insertOrUpdateInRecord now face i pe = Def pe' \<and> entry_ok live hint_ok pe' \<and> pt_interest pe' = pt_interest pe \<and>
    pt_node pe' = pt_node pe \<and> pt_expiryTimer pe' = pt_expiryTimer pe \<and> pt_outRecords pe' = pt_outRecords pe \<and>
    (\<exists>r\<in>set (pt_inRecords pe'). fr_face r = face \<and> fr_lastNonce r = in_nonce i \<and> ir_interest r = Some i \<and> now \<le> fr_expiry r)"
proof -
  let ?P = "\<lambda>r. fr_face r = face"
  define rs where "rs = (if getInRecord face pe = None then mkInRecord face # pt_inRecords pe else pt_inRecords pe)"
  define rs' where "rs' = update_first ?P (in_update now i) rs"
  define pe' where "pe' = pe\<lparr> pt_inRecords := rs', pt_nonceList := add_nonce (in_nonce i) (pt_nonceList pe) \<rparr>"
  have ok: "interest_plain (pt_interest pe)" "distinct (map fr_face (pt_inRecords pe))" "\<forall>r\<in>set (pt_inRecords pe). live (fr_face r) \<and> ir_interest r \<noteq> None"
    using assms(1) by (simp_all add: entry_ok_def)
  have "insertOrUpdateInRecord now face i pe = Def pe'"
    using canMatch_whole [OF assms(2) ok(1)] assms(3) by (simp add: insertOrUpdateInRecord_def rs_def rs'_def pe'_def assertion_True Let_def)
  moreover have d: "distinct (map fr_face rs)" using ok(2) by (auto simp: rs_def mkInRecord_def getInRecord_def find_None_iff)
  moreover have "map fr_face rs' = map fr_face rs" unfolding rs'_def by (rule map_update_first) simp
  moreover have "\<forall>r\<in>set rs'. live (fr_face r) \<and> ir_interest r \<noteq> None"
  proof (cases "getInRecord face pe")
    case None
    then have "rs' = in_update now i (mkInRecord face) # pt_inRecords pe" by (simp add: rs'_def rs_def mkInRecord_def)
    with ok(3) assms(4) show ?thesis by (simp add: mkInRecord_def)
  next
    case (Some r)
    then show ?thesis using update_first_all [OF ok(3), of "in_update now i" ?P] by (simp add: rs'_def rs_def)
  qed
  moreover have "\<exists>r\<in>set rs'. fr_face r = face \<and> fr_lastNonce r = in_nonce i \<and> ir_interest r = Some i \<and> now \<le> fr_expiry r"
  proof -
    have "\<exists>x\<in>set rs. ?P x" by (auto simp: rs_def mkInRecord_def getInRecord_def find_None_iff)
    then obtain x where "x \<in> set rs" "?P x" by blast
    from update_first_hit [where P = ?P and g = "in_update now i", OF this] obtain y where
      "fr_face y = face" "in_update now i y \<in> set rs'" by (auto simp: rs'_def)
    then show ?thesis using in_update_expiry [of now i y]
      by (intro bexI [of _ "in_update now i y"]) (simp_all add: in_update_def record_update_def Let_def)
  qed
  ultimately show ?thesis using assms(1) by (intro exI [of _ pe']) (simp add: entry_ok_def pe'_def)
qed

lemma insertOrUpdateOutRecord_ok:
  assumes "entry_ok live hint_ok pe" and "interest_plain i" and "same_key (pt_interest pe) i"
  shows "\<exists>rs. insertOrUpdateOutRecord now face i pe = Def (pe\<lparr> pt_outRecords := rs \<rparr>) \<and> entry_ok live hint_ok (pe\<lparr> pt_outRecords := rs \<rparr>)"
proof -
  have "interest_plain (pt_interest pe)" using assms(1) by (simp add: entry_ok_def)
  from canMatch_whole [OF assms(2) this] assms(1,3) show ?thesis
    by (intro exI [of _ "update_first (\<lambda>r. fr_face r = face) (record_update now i)
        (if getOutRecord face pe = None then mkOutRecord face # pt_outRecords pe else pt_outRecords pe)"])
      (simp add: insertOrUpdateOutRecord_def assertion_True Let_def entry_ok_def)
qed

end
