(* ===== verification/Nfd_Safety.thy ===== *)
theory Nfd_Safety
  imports Nfd_Pipelines Nfd_Table_Laws
begin

text \<open>
  The invariant of the forwarder and that every pipeline keeps it: tables as in \<open>Nfd_Table_Laws\<close>, every PIT entry with a running
  expiry timer of its own and no timer for anything else, and a content store that its policy tracks. A pipeline that
  starts in such a state meets no failed assertion and follows no pointer to something that is gone.
\<close>

section \<open>Invariant\<close>

definition live :: "face_table \<Rightarrow> face_id \<Rightarrow> bool" where
  "live ft fid \<longleftrightarrow> (\<exists>f. ft_get fid ft = Some f \<and> \<not> fc_isValNetFace f)"

definition hints_ok :: "name list \<Rightarrow> delegation list \<Rightarrow> bool" where
  "hints_ok regions h \<longleftrightarrow> \<not> list_ex (\<lambda>region. list_ex (\<lambda>del. isPrefixOf (snd del) region) h) regions"

text \<open>\<open>X\<close> are the entries that were just inserted and have no timer yet.\<close>

definition timers_ok :: "nat set \<Rightarrow> (nat \<Rightarrow> pit_entry option) \<Rightarrow> nat scheduler \<Rightarrow> bool" where
  "timers_ok X pits sch \<longleftrightarrow> sc_inv sch \<and>
     (\<forall>p pe. pits p = Some pe \<longrightarrow>
        (case pt_expiryTimer pe of None \<Rightarrow> p \<in> X | Some k \<Rightarrow> \<exists>t. sc_pending sch k = Some (t, p))) \<and>
     (\<forall>k t p. sc_pending sch k = Some (t, p) \<longrightarrow> (\<exists>pe. pits p = Some pe \<and> pt_expiryTimer pe = Some k))"

definition store_ok :: "(data \<Rightarrow> component) \<Rightarrow> name list cs \<Rightarrow> bool" where
  "store_ok dg c \<longleftrightarrow> cs_inv dg lru_tracks c \<and> (\<forall>e\<in>set (cs_table c). 0 \<le> d_freshness (ce_data e))"

text \<open>At most one PIT entry per name and selectors.\<close>

definition unique_keys :: "(nat \<Rightarrow> pit_entry option) \<Rightarrow> bool" where
  "unique_keys pits \<longleftrightarrow> (\<forall>p q pe qe. pits p = Some pe \<longrightarrow> pits q = Some qe \<longrightarrow> same_key (pt_interest pe) (pt_interest qe) \<longrightarrow> p = q)"

definition nfd_inv :: "nat set \<Rightarrow> nfd_env \<Rightarrow> nfd \<Rightarrow> bool" where
  "nfd_inv X env s \<longleftrightarrow> ft_inv (fw_faces s) \<and> tables_ok (live (fw_faces s)) (hints_ok (fw_regions s)) (fw_tables s) \<and>
     timers_ok X (tb_pits (fw_tables s)) (fw_sched s) \<and> store_ok (ne_digest env) (fw_cs s) \<and> unique_keys (tb_pits (fw_tables s))"

text \<open>Faces and regions stay, and every PIT entry keeps its key.\<close>

definition keeps :: "nfd \<Rightarrow> nfd \<Rightarrow> bool" where
  "keeps s s' \<longleftrightarrow> fw_faces s' = fw_faces s \<and> fw_regions s' = fw_regions s \<and>
     (\<forall>p pe. tb_pits (fw_tables s) p = Some pe \<longrightarrow>
        (\<exists>pe'. tb_pits (fw_tables s') p = Some pe' \<and> same_key (pt_interest pe') (pt_interest pe)))"

lemma keeps_refl [simp]: "keeps s s"
  by (simp add: keeps_def)

lemma keeps_pit: "keeps s s' \<Longrightarrow> tb_pits (fw_tables s) p = Some pe \<Longrightarrow>
    \<exists>pe'. tb_pits (fw_tables s') p = Some pe' \<and> same_key (pt_interest pe') (pt_interest pe)"
  by (simp add: keeps_def)

lemma keeps_trans:
  assumes "keeps s s'" and "keeps s' s''"
  shows "keeps s s''"
proof -
  have "\<exists>pe'. tb_pits (fw_tables s'') p = Some pe' \<and> same_key (pt_interest pe') (pt_interest pe)" if "tb_pits (fw_tables s) p = Some pe" for p pe
  proof -
    from keeps_pit [OF assms(1) that] obtain pe1 where 1: "tb_pits (fw_tables s') p = Some pe1" "same_key (pt_interest pe1) (pt_interest pe)" by blast
    from keeps_pit [OF assms(2) 1(1)] 1(2) same_key_trans show ?thesis by blast
  qed
  with assms show ?thesis by (simp add: keeps_def)
qed

lemma producer_region: "isInProducerRegion h s \<longleftrightarrow> \<not> hints_ok (fw_regions s) h"
  by (simp add: hints_ok_def isInProducerRegion_def)

lemma hints_ok_Nil [simp]: "hints_ok regions []"
  by (simp add: hints_ok_def list_ex_iff)

text \<open>The operation succeeds, in a state with the invariant; \<open>proj\<close> is the state in its result.\<close>

definition runs :: "('a \<Rightarrow> nfd) \<Rightarrow> nat set \<Rightarrow> nfd_env \<Rightarrow> nfd \<Rightarrow> 'a outcome \<Rightarrow> bool" where
  "runs proj X env s r \<longleftrightarrow> (\<exists>x. r = Def x \<and> nfd_inv X env (proj x) \<and> keeps s (proj x))"

lemma runs_Def: "nfd_inv X env (proj x) \<Longrightarrow> keeps s (proj x) \<Longrightarrow> runs proj X env s (Def x)"
  by (simp add: runs_def)

lemma runs_bind:
  assumes "runs proj Y env s r"
    and "\<And>x. r = Def x \<Longrightarrow> nfd_inv Y env (proj x) \<Longrightarrow> keeps s (proj x) \<Longrightarrow> runs proj' X env (proj x) (f x)"
  shows "runs proj' X env s (bindU r f)"
proof -
  from assms(1) obtain x where x: "r = Def x" "nfd_inv Y env (proj x)" "keeps s (proj x)" by (auto simp: runs_def)
  from assms(2) [OF x] obtain y where "f x = Def y" "nfd_inv X env (proj' y)" "keeps (proj x) (proj' y)" by (auto simp: runs_def)
  with x keeps_trans [OF x(3)] show ?thesis by (auto simp: runs_def)
qed

lemma runs_start: "keeps s s' \<Longrightarrow> runs proj X env s' r \<Longrightarrow> runs proj X env s r"
  using keeps_trans [of s s'] by (auto simp: runs_def)

lemma inv_count [simp]: "nfd_inv X env (count_fw f s) \<longleftrightarrow> nfd_inv X env s" "keeps s (count_fw f s)"
  by (simp_all add: nfd_inv_def keeps_def count_fw_def)

lemma count_sel [simp]:
  "fw_tables (count_fw f s) = fw_tables s" "fw_faces (count_fw f s) = fw_faces s" "fw_cs (count_fw f s) = fw_cs s"
  "fw_dnl (count_fw f s) = fw_dnl s" "fw_regions (count_fw f s) = fw_regions s" "fw_sched (count_fw f s) = fw_sched s"
  by (simp_all add: count_fw_def)

lemma nfd_invD:
  assumes "nfd_inv X env s"
  shows "ft_inv (fw_faces s)" "tables_ok (live (fw_faces s)) (hints_ok (fw_regions s)) (fw_tables s)" "timers_ok X (tb_pits (fw_tables s)) (fw_sched s)"
    "store_ok (ne_digest env) (fw_cs s)" "unique_keys (tb_pits (fw_tables s))"
  using assms by (simp_all add: nfd_inv_def)

lemma pit_okD:
  "nfd_inv X env s \<Longrightarrow> tb_pits (fw_tables s) p = Some pe \<Longrightarrow> entry_ok (live (fw_faces s)) (hints_ok (fw_regions s)) pe"
  using nfd_invD(2) [of X env s] tables_okD(6) by blast

lemma with_pit_Some [simp]: "tb_pits (fw_tables s) p = Some pe \<Longrightarrow> with_pit p s f = f pe"
  by (simp add: with_pit_def)

section \<open>PIT entries and timers\<close>

lemma set_pit_get [simp]:
  "tb_pits (fw_tables (set_pit p f s)) = (tb_pits (fw_tables s))(p := map_option f (tb_pits (fw_tables s) p))"
  "fw_faces (set_pit p f s) = fw_faces s" "fw_regions (set_pit p f s) = fw_regions s" "fw_sched (set_pit p f s) = fw_sched s"
  "fw_cs (set_pit p f s) = fw_cs s" "fw_dnl (set_pit p f s) = fw_dnl s" "tb_tree (fw_tables (set_pit p f s)) = tb_tree (fw_tables s)"
  "tb_next (fw_tables (set_pit p f s)) = tb_next (fw_tables s)"
  by (simp_all add: set_pit_def pit_modify_def)

lemma pits_ok_modify:
  assumes "pits_ok t pits" and "pits p = Some pe" and "pt_node pe' = pt_node pe"
  shows "pits_ok t (pits(p \<mapsto> pe'))"
proof -
  have "(\<exists>x. (pits(p \<mapsto> pe')) q = Some x \<and> pt_node x = n) \<longleftrightarrow> (\<exists>x. pits q = Some x \<and> pt_node x = n)" for q n using assms(2,3) by auto
  moreover have "map_of t (pt_node x) \<noteq> None" if "(pits(p \<mapsto> pe')) q = Some x" for q x
  proof (cases "q = p")
    case True
    then have "pt_node x = pt_node pe" using that assms(3) by auto
    with pits_okD(1) [OF assms(1,2)] show ?thesis by auto
  next
    case False
    then show ?thesis using that pits_okD(1) [OF assms(1), of q x] by auto
  qed
  ultimately show ?thesis using assms(1) by (simp add: pits_ok_def)
qed

lemma timers_ok_modify:
  assumes "timers_ok X pits sch" and "pits p = Some pe" and "pt_expiryTimer pe' = pt_expiryTimer pe"
  shows "timers_ok X (pits(p \<mapsto> pe')) sch"
proof -
  have "(\<exists>x. (pits(p \<mapsto> pe')) q = Some x \<and> pt_expiryTimer x = k) \<longleftrightarrow> (\<exists>x. pits q = Some x \<and> pt_expiryTimer x = k)" for q k
    using assms(2,3) by auto
  moreover have "case pt_expiryTimer x of None \<Rightarrow> q \<in> X | Some k \<Rightarrow> \<exists>t. sc_pending sch k = Some (t, q)"
    if "(pits(p \<mapsto> pe')) q = Some x" for q x
  proof -
    from that assms(2,3) obtain y where "pits q = Some y" "pt_expiryTimer y = pt_expiryTimer x" by (cases "q = p") auto
    with assms(1) show ?thesis unfolding timers_ok_def by metis
  qed
  ultimately show ?thesis using assms(1) by (simp add: timers_ok_def)
qed

lemma unique_keys_modify:
  assumes "unique_keys pits" and "pits p = Some pe" and "same_key (pt_interest pe') (pt_interest pe)"
  shows "unique_keys (pits(p \<mapsto> pe'))"
proof -
  have old: "\<exists>y. pits q = Some y \<and> same_key (pt_interest x) (pt_interest y)" if "(pits(p \<mapsto> pe')) q = Some x" for q x
    using that assms(2,3) by (cases "q = p") auto
  show ?thesis unfolding unique_keys_def
  proof (intro allI impI)
    fix q r x y assume q: "(pits(p \<mapsto> pe')) q = Some x" and r: "(pits(p \<mapsto> pe')) r = Some y" and key: "same_key (pt_interest x) (pt_interest y)"
    from old [OF q] old [OF r] obtain x' y' where xy: "pits q = Some x'" "pits r = Some y'"
      "same_key (pt_interest x) (pt_interest x')" "same_key (pt_interest y) (pt_interest y')" by blast
    with key have "same_key (pt_interest x') (pt_interest y')" by (meson same_key_sym same_key_trans)
    with xy(1,2) assms(1) show "q = r" unfolding unique_keys_def by blast
  qed
qed

lemma set_pit_tables:
  assumes "nfd_inv X env s" and "tb_pits (fw_tables s) p = Some pe" and "entry_ok (live (fw_faces s)) (hints_ok (fw_regions s)) (f pe)" and "pt_node (f pe) = pt_node pe"
  shows "tables_ok (live (fw_faces s)) (hints_ok (fw_regions s)) (fw_tables (set_pit p f s))"
proof -
  note ok = tables_okD [OF nfd_invD(2) [OF assms(1)]]
  have "pits_ok (tb_tree (fw_tables s)) (tb_pits (fw_tables (set_pit p f s)))"
    using pits_ok_modify [OF ok(4) assms(2), of "f pe"] assms(2,4) by simp
  with ok assms(2,3) show ?thesis by (simp add: tables_ok_def)
qed

lemma set_pit_inv:
  assumes "nfd_inv X env s" and "tb_pits (fw_tables s) p = Some pe" and "entry_ok (live (fw_faces s)) (hints_ok (fw_regions s)) (f pe)" and "pt_node (f pe) = pt_node pe"
    and "pt_expiryTimer (f pe) = pt_expiryTimer pe" and "same_key (pt_interest (f pe)) (pt_interest pe)"
  shows "nfd_inv X env (set_pit p f s)" and "keeps s (set_pit p f s)"
proof -
  have "timers_ok X (tb_pits (fw_tables (set_pit p f s))) (fw_sched s)"
    using timers_ok_modify [OF nfd_invD(3) [OF assms(1)] assms(2), of "f pe"] assms(2,5) by simp
  moreover have "unique_keys (tb_pits (fw_tables (set_pit p f s)))"
    using unique_keys_modify [OF nfd_invD(5) [OF assms(1)] assms(2,6)] assms(2) by simp
  ultimately show "nfd_inv X env (set_pit p f s)"
    using assms(1) set_pit_tables [where f = f, OF assms(1-4)] by (simp add: nfd_inv_def)
  show "keeps s (set_pit p f s)" using assms(2,6) by (simp add: keeps_def)
qed

text \<open>What the two halves of the invariant on timers give.\<close>

lemma timers_okD:
  assumes "timers_ok X pits sch"
  shows "sc_pending sch k = Some (t, p) \<Longrightarrow> \<exists>pe. pits p = Some pe \<and> pt_expiryTimer pe = Some k"
    and "pits p = Some pe \<Longrightarrow> pt_expiryTimer pe = None \<Longrightarrow> p \<in> X"
    and "pits p = Some pe \<Longrightarrow> pt_expiryTimer pe = Some k \<Longrightarrow> \<exists>t. sc_pending sch k = Some (t, p)"
proof -
  have "case pt_expiryTimer pe of None \<Rightarrow> p \<in> X | Some k \<Rightarrow> \<exists>t. sc_pending sch k = Some (t, p)" if "pits p = Some pe"
    using assms that unfolding timers_ok_def by blast
  then show "pits p = Some pe \<Longrightarrow> pt_expiryTimer pe = None \<Longrightarrow> p \<in> X"
    "pits p = Some pe \<Longrightarrow> pt_expiryTimer pe = Some k \<Longrightarrow> \<exists>t. sc_pending sch k = Some (t, p)" by simp_all
qed (use assms in \<open>unfold timers_ok_def, blast\<close>)

lemma timers_ok_mono:
  assumes "timers_ok X pits sch" and "X \<subseteq> Y"
  shows "timers_ok Y pits sch"
proof -
  have "case pt_expiryTimer pe of None \<Rightarrow> p \<in> Y | Some k \<Rightarrow> \<exists>t. sc_pending sch k = Some (t, p)" if "pits p = Some pe" for p pe
    using timers_okD(2,3) [OF assms(1) that] assms(2) by (cases "pt_expiryTimer pe") auto
  with assms(1) show ?thesis by (simp add: timers_ok_def)
qed

lemma setExpiryTimer_runs:
  assumes "nfd_inv X env s" and "tb_pits (fw_tables s) p = Some pe" and "0 \<le> duration"
  shows "runs (\<lambda>s. s) (X - {p}) env s (fw_setExpiryTimer p duration s)"
proof -
  note tm = nfd_invD(3) [OF assms(1)]
  define sch0 where "sch0 = cancelEvent (pt_expiryTimer pe) (fw_sched s)"
  obtain k sch where sch: "scheduleEvent (duration * 1000000) p sch0 = (k, sch)" by fastforce
  define s' where "s' = set_pit p (\<lambda>e. e\<lparr> pt_expiryTimer := Some k \<rparr>) (s\<lparr> fw_sched := sch \<rparr>)"
  have inv: "sc_inv (fw_sched s)" using tm by (simp add: timers_ok_def)
  have sch0: "sc_inv sch0" "sc_pending sch0 = (\<lambda>j. if pt_expiryTimer pe = Some j then None else sc_pending (fw_sched s) j)"
    using scheduler.cancel_pending [OF inv] inv by (cases "pt_expiryTimer pe"; auto simp: sch0_def scheduler.cancel_default fun_eq_iff)+
  note new = scheduler.schedule_pending [OF sch0(1) sch] scheduler.schedule_fresh [OF sch0(1) sch]
  have "fw_setExpiryTimer p duration s = Def s'"
    using assms(2,3) sch by (simp add: fw_setExpiryTimer_def assertion_True s'_def sch0_def)
  moreover have "timers_ok (X - {p}) (tb_pits (fw_tables s')) (fw_sched s')"
  proof -
    have old: "\<exists>pe'. tb_pits (fw_tables s) q = Some pe' \<and> pt_expiryTimer pe' = Some j \<and> q \<noteq> p"
      if "sc_pending sch j = Some (t, q)" "j \<noteq> k" for j t q
    proof -
      have j: "sc_pending (fw_sched s) j = Some (t, q)" "pt_expiryTimer pe \<noteq> Some j"
        using that new(1) sch0(2) by (auto split: if_splits)
      with timers_okD(1) [OF tm] obtain pe' where "tb_pits (fw_tables s) q = Some pe'" "pt_expiryTimer pe' = Some j" by blast
      with j(2) assms(2) show ?thesis by auto
    qed
    have keep: "case pt_expiryTimer pe' of None \<Rightarrow> q \<in> X - {p} | Some j \<Rightarrow> \<exists>t. sc_pending sch j = Some (t, q)"
      if q: "tb_pits (fw_tables s) q = Some pe'" "q \<noteq> p" for q pe'
    proof (cases "pt_expiryTimer pe'")
      case None
      with timers_okD(2) [OF tm q(1)] q(2) show ?thesis by simp
    next
      case (Some j)
      with timers_okD(3) [OF tm q(1)] obtain t where j: "sc_pending (fw_sched s) j = Some (t, q)" by blast
      have "pt_expiryTimer pe \<noteq> Some j"
      proof
        assume "pt_expiryTimer pe = Some j"
        with timers_okD(3) [OF tm assms(2)] obtain u where "sc_pending (fw_sched s) j = Some (u, p)" by blast
        with j q(2) show False by simp
      qed
      with j sch0(2) have "sc_pending sch0 j = Some (t, q)" by simp
      with new Some show ?thesis by (auto intro!: exI [of _ t])
    qed
    have "case pt_expiryTimer pe' of None \<Rightarrow> q \<in> X - {p} | Some j \<Rightarrow> \<exists>t. sc_pending sch j = Some (t, q)"
      if "tb_pits (fw_tables s') q = Some pe'" for q pe'
      using that keep [of q pe'] new(1) assms(2) by (cases "q = p") (auto simp: s'_def)
    moreover have "\<exists>pe'. tb_pits (fw_tables s') q = Some pe' \<and> pt_expiryTimer pe' = Some j" if "sc_pending sch j = Some (t, q)" for j t q
      using that old [of j t q] new(1) assms(2) by (cases "j = k") (auto simp: s'_def)
    moreover have "sc_inv sch" using new(1) by simp
    moreover have "fw_sched s' = sch" by (simp add: s'_def)
    ultimately show ?thesis unfolding timers_ok_def by blast
  qed
  moreover have "tables_ok (live (fw_faces s)) (hints_ok (fw_regions s)) (fw_tables s')"
    using set_pit_tables [OF assms(1,2), of "\<lambda>e. e\<lparr> pt_expiryTimer := Some k \<rparr>"] pit_okD [OF assms(1,2)]
    by (simp add: s'_def entry_ok_def set_pit_def)
  moreover have "unique_keys (tb_pits (fw_tables s'))"
    using unique_keys_modify [OF nfd_invD(5) [OF assms(1)] assms(2), of "pe\<lparr> pt_expiryTimer := Some k \<rparr>"] assms(2) by (simp add: s'_def)
  moreover have "keeps s s'" using assms(2) by (simp add: keeps_def s'_def)
  ultimately show ?thesis using nfd_invD(1,4) [OF assms(1)]
    by (simp add: runs_def nfd_inv_def s'_def)
qed

section \<open>Dead nonce list and routes\<close>

lemma dnl_evict_Def: "\<exists>d'. dnl_evictEntries d = Def d'"
  by (auto simp: dnl_evictEntries_def assertion_def Let_def min_def)

lemma dnl_add_Def: "\<exists>d'. dnl_add city n x d = Def d'"
  unfolding dnl_add_def by (rule dnl_evict_Def)

lemma dnl_add_all_Def: "\<exists>d'. dnl_add_all city n xs d = Def d'"
proof (induction xs arbitrary: d)
  case (Cons x xs)
  from dnl_add_Def [of city n x d] obtain d1 where "dnl_add city n x d = Def d1" by blast
  with Cons [of d1] show ?case by simp
qed simp

lemma inv_dnl [simp]: "nfd_inv X env (s\<lparr> fw_dnl := d \<rparr>) \<longleftrightarrow> nfd_inv X env s" "keeps s (s\<lparr> fw_dnl := d \<rparr>)"
  by (simp_all add: nfd_inv_def keeps_def)

lemma insertDeadNonceList_runs:
  assumes "nfd_inv X env s" and "tb_pits (fw_tables s) p = Some pe"
  shows "runs (\<lambda>s. s) X env s (insertDeadNonceList env p upstream s)"
proof -
  let ?nonces = "case upstream of None \<Rightarrow> map fr_lastNonce (pt_outRecords pe)
    | Some face \<Rightarrow> (case getOutRecord face pe of None \<Rightarrow> [] | Some r \<Rightarrow> [fr_lastNonce r])"
  have fresh: "0 \<le> pt_dataFreshnessPeriod pe" using pit_okD [OF assms] by (simp add: entry_ok_def)
  from dnl_add_all_Def obtain d where "dnl_add_all (ne_city env) (in_name (pt_interest pe)) ?nonces (fw_dnl s) = Def d" by blast
  with fresh assms show ?thesis by (auto simp: insertDeadNonceList_def assertion_True Let_def runs_def)
qed

lemma tables_inv:
  assumes "nfd_inv X env s" and "tables_ok (live (fw_faces s)) (hints_ok (fw_regions s)) tb" and "tb_pits tb = tb_pits (fw_tables s)"
  shows "nfd_inv X env (s\<lparr> fw_tables := tb \<rparr>)" and "keeps s (s\<lparr> fw_tables := tb \<rparr>)"
  using assms by (simp_all add: nfd_inv_def keeps_def)

lemma route_runs:
  assumes "nfd_inv X env s" and "live (fw_faces s) fid" and "length pfx \<le> getMaxDepth"
  shows "runs (\<lambda>s. s) X env s (route pfx fid s)"
  using add_route_ok [OF nfd_invD(2) [OF assms(1)] assms(2,3)] tables_inv [OF assms(1)] by (auto simp: runs_def route_def)

section \<open>Outgoing packets\<close>

text \<open>The faces in the table, which know their ids.\<close>

definition linked :: "face \<Rightarrow> nfd \<Rightarrow> bool" where
  "linked f s \<longleftrightarrow> ft_get (fc_id f) (fw_faces s) = Some f \<and> \<not> fc_isValNetFace f"

lemma linked_live: "linked f s \<Longrightarrow> live (fw_faces s) (fc_id f)"
  by (auto simp: linked_def live_def)

lemma keeps_linked: "keeps s s' \<Longrightarrow> linked f s' \<longleftrightarrow> linked f s"
  by (simp add: linked_def keeps_def)

lemma live_face:
  assumes "nfd_inv X env s" and "live (fw_faces s) fid"
  shows "\<exists>f. ft_get fid (fw_faces s) = Some f \<and> linked f s \<and> fc_id f = fid"
  using assms ft_get_id [OF nfd_invD(1) [OF assms(1)]] by (force simp: live_def linked_def)

lemma with_face_Some [simp]: "ft_get fid (fw_faces s) = Some f \<Longrightarrow> with_face fid s g = g f"
  by (simp add: with_face_def)

lemma onOutgoingInterest_runs:
  assumes "nfd_inv X env s" and "tb_pits (fw_tables s) p = Some pe" and "interest_plain i" and "same_key (pt_interest pe) i"
  shows "runs fst X env s (onOutgoingInterest p outFace i s)"
proof -
  from insertOrUpdateOutRecord_ok [OF pit_okD [OF assms(1,2)] assms(3,4)] obtain rs where
    rs: "insertOrUpdateOutRecord (fw_now s) (fc_id outFace) i pe = Def (pe\<lparr> pt_outRecords := rs \<rparr>)"
      "entry_ok (live (fw_faces s)) (hints_ok (fw_regions s)) (pe\<lparr> pt_outRecords := rs \<rparr>)" by blast
  from set_pit_inv [OF assms(1,2), of "\<lambda>_. pe\<lparr> pt_outRecords := rs \<rparr>"] rs assms(2) show ?thesis
    by (auto simp: onOutgoingInterest_def runs_def intro: keeps_trans)
qed

lemma onOutgoingData_keeps:
  "nfd_inv X env s \<Longrightarrow> nfd_inv X env (fst (onOutgoingData d f ns b s))" "keeps s (fst (onOutgoingData d f ns b s))"
  by (simp_all add: onOutgoingData_def)

lemma deleteInRecord_inv:
  assumes "nfd_inv X env s" and "tb_pits (fw_tables s) p = Some pe"
  shows "nfd_inv X env (set_pit p (deleteInRecord face) s)" and "keeps s (set_pit p (deleteInRecord face) s)"
  using set_pit_inv [OF assms, of "deleteInRecord face"] deleteInRecord_ok [OF pit_okD [OF assms]] by simp_all

lemma strategy_sendData_runs:
  assumes "nfd_inv X env s" and "tb_pits (fw_tables s) p = Some pe" and "matchesData (ne_digest env d) (pt_interest pe) d"
  shows "runs fst X env s (strategy_sendData env p d f s)"
  using assms deleteInRecord_inv [OF assms(1,2)] onOutgoingData_keeps(1) keeps_trans [OF deleteInRecord_inv(2) [OF assms(1,2)] onOutgoingData_keeps(2)]
  by (auto simp: strategy_sendData_def assertion_True runs_def)

lemma strategy_sendDataToVal_runs:
  assumes "nfd_inv X env s" and "tb_pits (fw_tables s) p = Some pe" and "matchesData (ne_digest env d) (pt_interest pe) d"
  shows "runs fst X env s (strategy_sendDataToVal env p d f ns b s)"
  using assms deleteInRecord_inv [OF assms(1,2)] onOutgoingData_keeps(1) keeps_trans [OF deleteInRecord_inv(2) [OF assms(1,2)] onOutgoingData_keeps(2)]
  by (auto simp: strategy_sendDataToVal_def assertion_True runs_def)

section \<open>Lookup of next hops\<close>

definition fib_live :: "nfd \<Rightarrow> fib_entry \<Rightarrow> bool" where
  "fib_live s f \<longleftrightarrow> (fe_nextHops f = [] \<longrightarrow> fe_prefix f = []) \<and> (\<forall>h\<in>set (fe_nextHops f). live (fw_faces s) (nh_face h))"

lemma fib_at_live:
  assumes "nfd_inv X env s"
  shows "fib_live s (fib_at r (tb_tree (fw_tables s)))"
proof -
  have "fib_live s f" if "map_of (tb_tree (fw_tables s)) n = Some e" "nt_fib e = Some f" for n e f
    using tables_okD(3) [OF nfd_invD(2) [OF assms]] that unfolding fib_ok_def fib_live_def by blast
  then show ?thesis by (auto simp: fib_at_def mkFibEntry_def fib_live_def split: option.split)
qed

lemma fib_lpm_live: "nfd_inv X env s \<Longrightarrow> fib_live s (fib_lpm n (tb_tree (fw_tables s)))"
  "nfd_inv X env s \<Longrightarrow> fib_live s (fib_lpm_pit n node (tb_tree (fw_tables s)))"
  by (simp_all add: fib_lpm_def fib_lpm_pit_def fib_at_live)

lemma lookup_delegations_live:
  assumes "nfd_inv X env s" and "dels = [] \<Longrightarrow> \<exists>f. last_found = Some f \<and> fe_prefix f = []"
    and "\<And>f. last_found = Some f \<Longrightarrow> fib_live s f"
  shows "\<exists>f. lookup_delegations (tb_tree (fw_tables s)) dels last_found = Def f \<and> fib_live s f"
  using assms(2,3)
proof (induction dels arbitrary: last_found)
  case Nil
  then show ?case by (auto simp: assertion_True)
next
  case (Cons del dels)
  let ?f = "fib_lpm (snd del) (tb_tree (fw_tables s))"
  have f: "fib_live s ?f" by (rule fib_lpm_live(1) [OF assms(1)])
  show ?case
  proof (cases "fe_nextHops ?f = []")
    case True
    then have "fe_prefix ?f = []" using f by (simp add: fib_live_def)
    with True Cons.IH [of "Some ?f"] f show ?thesis by (simp add: Let_def assertion_True)
  qed (use f in \<open>simp add: Let_def\<close>)
qed

lemma lookupFib_live:
  assumes "nfd_inv X env s" and "tb_pits (fw_tables s) p = Some pe"
  shows "\<exists>f. lookupFib p s = Def f \<and> fib_live s f"
proof (cases "in_forwardingHint (pt_interest pe) = []")
  case True
  with fib_lpm_live(2) [OF assms(1)] assms(2) show ?thesis by (simp add: lookupFib_def)
next
  case False
  have "hints_ok (fw_regions s) (in_forwardingHint (pt_interest pe))" using pit_okD [OF assms] by (simp add: entry_ok_def)
  with lookup_delegations_live [OF assms(1), of "in_forwardingHint (pt_interest pe)" None] False assms(2) show ?thesis
    by (simp add: lookupFib_def producer_region assertion_True)
qed

text \<open>The loops over the next hops find a face of the table or none.\<close>

definition finds :: "nfd \<Rightarrow> face option outcome \<Rightarrow> bool" where
  "finds s r \<longleftrightarrow> r = Def None \<or> (\<exists>f. r = Def (Some f) \<and> linked f s)"

lemma choose_face_finds:
  assumes "nfd_inv X env s" and "\<forall>h\<in>set hs. live (fw_faces s) (nh_face h)" and "finds s (Def acc)"
  shows "finds s (choose_face inFace i s acc hs)"
  using assms(2,3)
proof (induction hs arbitrary: acc)
  case (Cons h hs)
  from Cons.prems(1) live_face [OF assms(1), of "nh_face h"] obtain f where "ft_get (nh_face h) (fw_faces s) = Some f" "linked f s" by auto
  with Cons show ?case by (auto simp: finds_def)
qed simp

lemma first_face_finds:
  assumes "nfd_inv X env s" and "\<forall>h\<in>set hs. live (fw_faces s) (nh_face h)"
  shows "finds s (first_geoFace s hs)" and "finds s (first_appFace s hs)"
proof -
  have "finds s (first_geoFace s hs) \<and> finds s (first_appFace s hs)"
    using assms(2)
  proof (induction hs)
    case (Cons h hs)
    from Cons.prems live_face [OF assms(1), of "nh_face h"] obtain f where
      f: "ft_get (nh_face h) (fw_faces s) = Some f" "linked f s" by auto
    with Cons show ?case by (auto simp: finds_def)
  qed (simp add: finds_def)
  then show "finds s (first_geoFace s hs)" and "finds s (first_appFace s hs)" by simp_all
qed

section \<open>Strategy\<close>

lemma broadcast_afterReceiveInterest_runs:
  assumes "nfd_inv X env s" and "tb_pits (fw_tables s) p = Some pe" and "interest_plain i" and "same_key (pt_interest pe) i" and "p \<notin> X"
  shows "runs fst X env s (broadcast_afterReceiveInterest inFace i p s)"
proof -
  from lookupFib_live [OF assms(1,2)] obtain f where f: "lookupFib p s = Def f" "\<forall>h\<in>set (fe_nextHops f). live (fw_faces s) (nh_face h)"
    by (auto simp: fib_live_def)
  from choose_face_finds [OF assms(1) f(2), of None inFace i] consider
    "choose_face inFace i s None (fe_nextHops f) = Def None" | g where "choose_face inFace i s None (fe_nextHops f) = Def (Some g)"
    by (auto simp: finds_def)
  then show ?thesis
  proof cases
    case 1
    from setExpiryTimer_runs [OF assms(1,2), of 0] assms(5) f(1) 1 show ?thesis
      by (auto simp: broadcast_afterReceiveInterest_def runs_def)
  next
    case 2
    with onOutgoingInterest_runs [OF assms(1-4), of g] f(1) show ?thesis by (simp add: broadcast_afterReceiveInterest_def)
  qed
qed

lemma broadcast_afterContentStoreHit_runs:
  assumes "nfd_inv X env s" and "tb_pits (fw_tables s) p = Some pe" and "matchesData (ne_digest env d) (pt_interest pe) d"
  shows "runs fst X env s (broadcast_afterContentStoreHit env p inFace d s)"
proof (cases "fc_isGeoFace inFace")
  case True
  from lookupFib_live [OF assms(1,2)] obtain f where f: "lookupFib p s = Def f" "\<forall>h\<in>set (fe_nextHops f). live (fw_faces s) (nh_face h)"
    by (auto simp: fib_live_def)
  from first_face_finds(1) [OF assms(1) f(2)] consider
    "first_geoFace s (fe_nextHops f) = Def None" | g where "first_geoFace s (fe_nextHops f) = Def (Some g)"
    by (auto simp: finds_def)
  then show ?thesis
  proof cases
    case 1
    with True f(1) assms(1) show ?thesis by (simp add: broadcast_afterContentStoreHit_def runs_def)
  next
    case 2
    with True f(1) assms(2) strategy_sendDataToVal_runs [OF assms] show ?thesis by (simp add: broadcast_afterContentStoreHit_def)
  qed
qed (use strategy_sendData_runs [OF assms] in \<open>simp add: broadcast_afterContentStoreHit_def\<close>)

text \<open>The implicit digest is computed from the encoding, which the tags are not part of.\<close>

definition digest_ok :: "(data \<Rightarrow> component) \<Rightarrow> bool" where
  "digest_ok dg \<longleftrightarrow> (\<forall>d a b c. dg (d\<lparr> d_incomingFaceId := a, d_congestionMark := b, d_hopCount := c \<rparr>) = dg d)"

definition retagged :: "data \<Rightarrow> data \<Rightarrow> bool" where
  "retagged d d' \<longleftrightarrow> (\<exists>a b c. d' = d\<lparr> d_incomingFaceId := a, d_congestionMark := b, d_hopCount := c \<rparr>)"

lemma retagged_tags:
  "retagged d d" "retagged d (d\<lparr> d_incomingFaceId := a \<rparr>)" "retagged d (d\<lparr> d_congestionMark := b \<rparr>)" "retagged d (d\<lparr> d_hopCount := c \<rparr>)"
proof -
  show "retagged d d" unfolding retagged_def by (intro exI [of _ "d_incomingFaceId d"] exI [of _ "d_congestionMark d"] exI [of _ "d_hopCount d"]) simp
  show "retagged d (d\<lparr> d_incomingFaceId := a \<rparr>)"
    unfolding retagged_def by (intro exI [of _ a] exI [of _ "d_congestionMark d"] exI [of _ "d_hopCount d"]) simp
  show "retagged d (d\<lparr> d_congestionMark := b \<rparr>)"
    unfolding retagged_def by (intro exI [of _ "d_incomingFaceId d"] exI [of _ b] exI [of _ "d_hopCount d"]) simp
  show "retagged d (d\<lparr> d_hopCount := c \<rparr>)"
    unfolding retagged_def by (intro exI [of _ "d_incomingFaceId d"] exI [of _ "d_congestionMark d"] exI [of _ c]) simp
qed

lemma retagged_trans: "retagged d d' \<Longrightarrow> retagged d' d'' \<Longrightarrow> retagged d d''"
  unfolding retagged_def by (elim exE) (simp, blast)

lemma retagged_same:
  assumes "retagged d d'"
  shows "d_name d' = d_name d" "d_freshness d' = d_freshness d" "d_signature d' = d_signature d" "d_cachePolicy d' = d_cachePolicy d"
    "digest_ok dg \<Longrightarrow> dg d' = dg d"
  using assms by (auto simp: retagged_def digest_ok_def)

lemma retagged_fits: "digest_ok dg \<Longrightarrow> retagged d d' \<Longrightarrow> data_fits dg d' \<longleftrightarrow> data_fits dg d"
  by (simp add: data_fits_def retagged_same)

lemma retagged_matches:
  assumes "digest_ok dg" and "retagged d d'"
  shows "matchesData (dg d') i d' = matchesData (dg d) i d"
  unfolding matchesData_def retagged_same(1,3) [OF assms(2)] retagged_same(5) [OF assms(2,1)] ..

lemma serve_downstream_runs:
  assumes "nfd_inv X env s" and "tb_pits (fw_tables s) p = Some pe" and "matchesData (ne_digest env d) (pt_interest pe) d"
  shows "\<exists>d' sent' s' as. serve_downstream env p inFace isProducer f ((d, sent), s) = Def ((d', sent'), s', as) \<and>
    retagged d d' \<and> nfd_inv X env s' \<and> keeps s s'"
proof -
  from strategy_sendDataToVal_runs [OF assms, of f "Some (pt_nonceList pe)" isProducer] obtain s1 as1 where
    1: "strategy_sendDataToVal env p d f (Some (pt_nonceList pe)) isProducer s = Def (s1, as1)" "nfd_inv X env s1" "keeps s s1"
    by (auto simp: runs_def)
  from strategy_sendData_runs [OF assms, of f] obtain s2 as2 where
    2: "strategy_sendData env p d f s = Def (s2, as2)" "nfd_inv X env s2" "keeps s s2" by (auto simp: runs_def)
  note 3 = deleteInRecord_inv [OF assms(1,2), of "fc_id f"]
  consider "fc_isGeoFace f" "\<not> sent" | "\<not> fc_isGeoFace f" | "fc_isGeoFace f" "sent" by blast
  then show ?thesis
  proof cases
    case 1
    with \<open>strategy_sendDataToVal _ _ _ _ _ _ _ = _\<close> \<open>nfd_inv X env s1\<close> \<open>keeps s s1\<close> assms(2) retagged_tags(1) show ?thesis
      by (intro exI [of _ d] exI [of _ True] exI [of _ s1] exI [of _ as1]) (simp add: serve_downstream_def)
  next
    case 2
    with \<open>strategy_sendData _ _ _ _ _ = _\<close> \<open>nfd_inv X env s2\<close> \<open>keeps s s2\<close> assms(2) retagged_tags(1,3) show ?thesis
      by (simp add: serve_downstream_def Let_def)
  next
    case 3
    with deleteInRecord_inv [OF assms(1,2), of "fc_id f"] assms(2) retagged_tags(1) show ?thesis
      by (intro exI [of _ d] exI [of _ True] exI [of _ "set_pit p (deleteInRecord (fc_id f)) s"] exI [of _ "[]"]) (simp add: serve_downstream_def)
  qed
qed

lemma serve_downstreams_runs:
  assumes "digest_ok (ne_digest env)" and "nfd_inv X env s" and "tb_pits (fw_tables s) p = Some pe" and "matchesData (ne_digest env d) (pt_interest pe) d"
    and "\<forall>fid\<in>set fids. live (fw_faces s) fid"
  shows "\<exists>d' s' as. serve_downstreams env p inFace isProducer fids ((d, sent), s) = Def (d', s', as) \<and>
    retagged d d' \<and> nfd_inv X env s' \<and> keeps s s'"
  using assms(2-5)
proof (induction fids arbitrary: d sent s pe)
  case Nil
  then show ?case using retagged_tags(1) by simp
next
  case (Cons fid fids)
  from live_face [OF Cons.prems(1)] Cons.prems(4) obtain f where f: "ft_get fid (fw_faces s) = Some f" by auto
  from serve_downstream_runs [OF Cons.prems(1-3), of inFace isProducer f sent] obtain d1 sent1 s1 as1 where
    1: "serve_downstream env p inFace isProducer f ((d, sent), s) = Def ((d1, sent1), s1, as1)" "retagged d d1" "nfd_inv X env s1" "keeps s s1" by blast
  from keeps_pit [OF 1(4) Cons.prems(2)] obtain pe1 where pe1: "tb_pits (fw_tables s1) p = Some pe1" "same_key (pt_interest pe1) (pt_interest pe)" by blast
  have "matchesData (ne_digest env d1) (pt_interest pe1) d1"
    using Cons.prems(3) retagged_matches [OF assms(1) 1(2)] matchesData_same_key [OF pe1(2)] by simp
  moreover have "\<forall>fid\<in>set fids. live (fw_faces s1) fid" using Cons.prems(4) 1(4) by (simp add: keeps_def)
  ultimately obtain d2 s2 as2 where
    "serve_downstreams env p inFace isProducer fids ((d1, sent1), s1) = Def (d2, s2, as2)" "retagged d1 d2" "nfd_inv X env s2" "keeps s1 s2"
    using Cons.IH [OF 1(3) pe1(1)] by blast
  with f 1 retagged_trans [OF 1(2)] keeps_trans [OF 1(4)] show ?case by simp
qed

lemma broadcast_afterReceiveData_runs:
  assumes "digest_ok (ne_digest env)" and "nfd_inv X env s" and "tb_pits (fw_tables s) p = Some pe" and "matchesData (ne_digest env d) (pt_interest pe) d"
    and "linked inFace s" and "length (d_name d) \<le> Suc getMaxDepth"
  shows "\<exists>d' s' as. broadcast_afterReceiveData env p inFace d s = Def (d', s', as) \<and> retagged d d' \<and> nfd_inv X env s' \<and> keeps s s'"
proof -
  have "length (getPrefix (- 1) (d_name d)) \<le> getMaxDepth"
    using assms(6) getPrefix_minus_one [of "d_name d"] by (simp add: getMaxDepth_def)
  from route_runs [OF assms(2) linked_live [OF assms(5)] this] assms(2) obtain s1 where
    s1: "(if fc_isGeoFace inFace then route (getPrefix (- 1) (d_name d)) (fc_id inFace) s else Def s) = Def s1" "nfd_inv X env s1" "keeps s s1"
    by (cases "fc_isGeoFace inFace") (auto simp: runs_def)
  from keeps_pit [OF s1(3) assms(3)] obtain pe1 where pe1: "tb_pits (fw_tables s1) p = Some pe1" "same_key (pt_interest pe1) (pt_interest pe)" by blast
  have "\<forall>fid\<in>set (pending_downstreams env (fw_now s1) pe1). live (fw_faces s1) fid"
    using pit_okD [OF s1(2) pe1(1)] by (auto simp: entry_ok_def pending_downstreams_def)
  moreover have "matchesData (ne_digest env d) (pt_interest pe1) d" using assms(4) matchesData_same_key [OF pe1(2)] by simp
  ultimately obtain d' s' as where
    "serve_downstreams env p inFace (\<not> fc_isGeoFace inFace) (pending_downstreams env (fw_now s1) pe1) ((d, False), s1) = Def (d', s', as)"
    "retagged d d'" "nfd_inv X env s'" "keeps s1 s'"
    using serve_downstreams_runs [OF assms(1) s1(2) pe1(1)] by blast
  with s1 pe1(1) keeps_trans [OF s1(3)] show ?thesis by (simp add: broadcast_afterReceiveData_def)
qed

section \<open>Content store\<close>

context cs_replacement
begin

lemma insert_data:
  assumes "cs_inv dg tracks s" and "data_fits dg d" and "cs_insert dg pol d u s = Def s'"
  shows "ce_data ` set (cs_table s') \<subseteq> insert d (ce_data ` set (cs_table s))"
proof -
  obtain t k isNew where em: "emplace dg (mkEntryImpl (cs_now s) d u) (cs_table s) = (t, k, isNew)" by (metis prod_cases3)
  have inv: "table_ok dg (cs_table s)" "tracks (cs_policy s) (cs_keys dg s)" using assms(1) by (simp_all add: cs_inv_def)
  have upd: "ce_data ` set (xs[k := e]) \<subseteq> insert (ce_data e) (ce_data ` set xs)" for xs e
    using set_update_subset_insert [of xs k e] by auto
  define e where "e = updateStaleTime (cs_now s) (t ! k)"
  define e' where "e' = (if ce_isUnsolicited e \<and> \<not> u then unsetUnsolicited (cs_now s) e else e)"
  have data: "ce_data e = ce_data (t ! k)" "ce_data e' = ce_data (t ! k)" by (simp_all add: e_def e'_def)
  show ?thesis
  proof (cases "\<not> cs_shouldAdmit s \<or> cs_limit s = 0 \<or> d_cachePolicy d = Some 1")
    case True
    then have "cs_insert dg pol d u s = Def s" by (auto simp: cs_insert_def)
    with assms(3) show ?thesis by auto
  next
    case False
    show ?thesis
    proof (cases isNew)
      case True
      with em have em': "emplace dg (mkEntryImpl (cs_now s) d u) (cs_table s) = (t, k, True)" by simp
      note new = emplaced_new [OF inv(1) assms(2) em' data(1)]
      let ?s = "s\<lparr> cs_table := t[k := e] \<rparr>"
      have eq: "doAfterInsert pol (getFullName dg e) ?s = Def s'"
        using assms(3) False True unfolding insert_eq [OF em] Let_def e_def [symmetric] e'_def [symmetric] by simp
      have "\<exists>s'. doAfterInsert pol (getFullName dg e) ?s = Def s' \<and> evicted ?s s' \<and> tracks (cs_policy s') (cs_keys dg s') \<and> length (cs_table s') \<le> cs_limit ?s"
        using new inv(2) by (intro after_insert) simp_all
      then have "evicted ?s s'" unfolding eq by (elim exE conjE) simp
      then have "set (cs_table s') \<subseteq> set (t[k := e])" unfolding evicted_def by (elim exE) simp
      moreover have "set t = insert (mkEntryImpl (cs_now s) d u) (set (cs_table s))" using emplace_ok [OF inv(1) _ em'] assms(2) by simp
      then have "ce_data ` set t = insert d (ce_data ` set (cs_table s))" by simp
      ultimately show ?thesis using upd [of t e] new(4) by blast
    next
      case isOld: False
      with em have em': "emplace dg (mkEntryImpl (cs_now s) d u) (cs_table s) = (t, k, False)" by simp
      note old = emplaced_old [OF inv(1) assms(2) em' data(2)]
      let ?s = "s\<lparr> cs_table := t[k := e'] \<rparr>"
      have eq: "doAfterRefresh pol (getFullName dg e') ?s = Def s'"
        using assms(3) False isOld unfolding insert_eq [OF em] Let_def e_def [symmetric] e'_def [symmetric] by simp
      have "\<exists>p. doAfterRefresh pol (getFullName dg e') ?s = Def (?s\<lparr> cs_policy := p \<rparr>) \<and> tracks p (cs_keys dg ?s)"
        using old inv(2) by (intro after_refresh) simp_all
      then obtain q where "Def s' = Def (?s\<lparr> cs_policy := q \<rparr>)" unfolding eq by blast
      then have tbl: "cs_table s' = t[k := e']" by simp
      have mem: "ce_data e' \<in> ce_data ` set (cs_table s)" unfolding data(2) old(7) by (rule imageI) (rule nth_mem [OF old(8)])
      have "ce_data ` set (cs_table s') \<subseteq> insert (ce_data e') (ce_data ` set (cs_table s))" using upd [of t e'] by (simp only: tbl old(7))
      then show ?thesis unfolding insert_absorb [OF mem] by (rule subset_insertI2)
    qed
  qed
qed

end

lemma cs_insert_runs:
  assumes "nfd_inv X env s" and "data_fits (ne_digest env) d" and "0 \<le> d_freshness d"
  shows "\<exists>c. cs_insert (ne_digest env) (lruPolicy (ne_digest env)) d u (fw_cs s) = Def c \<and> nfd_inv X env (s\<lparr> fw_cs := c \<rparr>) \<and> keeps s (s\<lparr> fw_cs := c \<rparr>)"
proof -
  have ok: "cs_inv (ne_digest env) lru_tracks (fw_cs s)" "\<forall>e\<in>set (cs_table (fw_cs s)). 0 \<le> d_freshness (ce_data e)"
    using nfd_invD(4) [OF assms(1)] by (simp_all add: store_ok_def)
  from lru.insert_inv [OF ok(1) assms(2)] obtain c where
    c: "cs_insert (ne_digest env) (lruPolicy (ne_digest env)) d u (fw_cs s) = Def c" "cs_inv (ne_digest env) lru_tracks c" by blast
  from lru.insert_data [OF ok(1) assms(2) c(1)] ok(2) assms(3) have "\<forall>e\<in>set (cs_table c). 0 \<le> d_freshness (ce_data e)" by auto
  with assms(1) c show ?thesis by (simp add: nfd_inv_def store_ok_def keeps_def)
qed

lemma cs_retag_ok:
  assumes "store_ok dg c" and "digest_ok dg" and "retagged d d'" and "0 \<le> d_freshness d"
  shows "store_ok dg (cs_retag dg d d' c)"
proof -
  define g where "g = (\<lambda>e. if getFullName dg e = d_name d @ [dg d] then e\<lparr> ce_data := d' \<rparr> else e)"
  have d': "d_name d' = d_name d" "dg d' = dg d" "d_freshness d' = d_freshness d" using retagged_same [OF assms(3)] assms(2) by simp_all
  have g: "d_name (ce_data (g e)) = d_name (ce_data e)" "dg (ce_data (g e)) = dg (ce_data e)" for e by (auto simp: g_def d' getFullName_def)
  have t: "cs_table (cs_retag dg d d' c) = map g (cs_table c)" by (simp add: cs_retag_def g_def)
  have "entry_key dg (ce_data (g e)) = entry_key dg (ce_data e)" "data_fits dg (ce_data (g e)) \<longleftrightarrow> data_fits dg (ce_data e)"
    "getFullName dg (g e) = getFullName dg e" for e
    by (simp_all add: entry_key_def data_fits_def getFullName_def g)
  then have "table_ok dg (map g (cs_table c)) \<longleftrightarrow> table_ok dg (cs_table c)" "cs_keys dg (cs_retag dg d d' c) = cs_keys dg c"
    by (simp_all add: table_ok_def sorted_wrt_map cs_keys_def t image_image)
  moreover have "0 \<le> d_freshness (ce_data (g e))" if "0 \<le> d_freshness (ce_data e)" for e using that assms(4) d'(3) by (simp add: g_def)
  ultimately show ?thesis using assms(1) unfolding store_ok_def cs_inv_def t by (auto simp: cs_retag_def)
qed

section \<open>Interest pipelines\<close>

text \<open>The Interests that the forwarder is given: their names fit the name tree, and a chosen next hop is a face of NFD.\<close>

definition interest_in :: "nfd \<Rightarrow> interest \<Rightarrow> bool" where
  "interest_in s i \<longleftrightarrow> interest_plain i \<and> plain_query (in_name i) \<and> length (in_name i) \<le> Suc getMaxDepth \<and>
     (\<forall>fid f. in_nextHopFaceId i = Some fid \<longrightarrow> ft_get fid (fw_faces s) = Some f \<longrightarrow> \<not> fc_isValNetFace f)"

lemma route_length:
  assumes "length n \<le> Suc getMaxDepth"
  shows "length (getPrefix (- 1) n) \<le> getMaxDepth"
proof -
  have "length n < 2 ^ 64" using assms by (simp add: getMaxDepth_def)
  from getPrefix_minus_one [OF this] assms show ?thesis by simp
qed

lemma interest_in_route: "interest_in s i \<Longrightarrow> length (getPrefix (- 1) (in_name i)) \<le> getMaxDepth"
  unfolding interest_in_def by (elim conjE) (rule route_length)

lemma millis_from_nonneg: "0 \<le> x \<Longrightarrow> 0 \<le> millis_from x"
  by (simp add: millis_from_def)

lemma last_expiry_ge: "r \<in> set (pt_inRecords e) \<Longrightarrow> fr_expiry r \<le> last_expiry e"
  unfolding last_expiry_def Max.set_eq_fold [symmetric] by (rule Max_ge) simp_all

lemma strip_hint_inv:
  assumes "nfd_inv X env s" and "tb_pits (fw_tables s) p = Some pe" and "interest_plain i" and "same_key (pt_interest pe) i"
  shows "nfd_inv X env (strip_hint p owns face i s)" and "keeps s (strip_hint p owns face i s)"
proof -
  define i' where "i' = i\<lparr> in_forwardingHint := [], in_wire := None \<rparr>"
  define f :: "pit_entry \<Rightarrow> pit_entry" where "f = (\<lambda>e. e\<lparr> pt_inRecords := update_first (\<lambda>r. fr_face r = face) (\<lambda>r. r\<lparr> ir_interest := Some i' \<rparr>) (pt_inRecords e),
      pt_interest := (if owns then i' else pt_interest e) \<rparr>)"
  have eq: "strip_hint p owns face i s = set_pit p f s" unfolding strip_hint_def i'_def f_def Let_def ..
  note ok = pit_okD [OF assms(1,2)]
  have i': "interest_plain i'" "in_name i' = in_name i" "in_selectors i' = in_selectors i" "in_forwardingHint i' = []"
    using assms(3) by (simp_all add: i'_def interest_plain_def)
  have name: "in_name (pt_interest pe) = in_name i" using assms(4) by (simp add: same_key_def)
  have "map fr_face (update_first (\<lambda>r. fr_face r = face) (\<lambda>r. r\<lparr> ir_interest := Some i' \<rparr>) (pt_inRecords pe)) = map fr_face (pt_inRecords pe)"
    by (rule map_update_first) simp
  moreover have "\<forall>r\<in>set (update_first (\<lambda>r. fr_face r = face) (\<lambda>r. r\<lparr> ir_interest := Some i' \<rparr>) (pt_inRecords pe)).
      live (fw_faces s) (fr_face r) \<and> ir_interest r \<noteq> None"
    by (rule update_first_all) (use ok in \<open>auto simp: entry_ok_def\<close>)
  ultimately have "entry_ok (live (fw_faces s)) (hints_ok (fw_regions s)) (f pe)"
    using ok i' name by (simp add: entry_ok_def f_def)
  moreover have "same_key (pt_interest (f pe)) (pt_interest pe)"
    using assms(4) i' by (simp add: f_def same_key_def same_selectors_def)
  ultimately show "nfd_inv X env (strip_hint p owns face i s)" "keeps s (strip_hint p owns face i s)"
    unfolding eq using set_pit_inv [OF assms(1,2), of f] by (simp_all add: f_def)
qed


lemma to_next_hop_runs:
  assumes "nfd_inv X env s" and "tb_pits (fw_tables s) p = Some pe" and "interest_in s i" and "same_key (pt_interest pe) i"
    and "linked nextHopFace s"
  shows "runs fst X env s (to_next_hop inFace p owns i nextHopFace s)"
proof -
  have plain: "interest_plain i" using assms(3) by (simp add: interest_in_def)
  define i' where "i' = i\<lparr> in_forwardingHint := [], in_wire := None \<rparr>"
  have i': "interest_plain i'" "same_key i i'" "in_name i' = in_name i"
    using plain by (simp_all add: i'_def interest_plain_def same_key_def same_selectors_def)
  define f where "f = fib_lpm_pit (in_name (pt_interest pe)) (pt_node pe) (tb_tree (fw_tables s))"
  define r where "r = (if fc_isGeoFace inFace then
      if fe_nextHops f \<noteq> [] then
        bindU (first_appFace s (fe_nextHops f)) (\<lambda>r.
          case r of None \<Rightarrow> Def (i, nextHopFace, s)
          | Some outFace \<Rightarrow> Def (i', outFace, strip_hint p owns (fc_id inFace) i s))
      else bindU (route (getPrefix (- 1) (in_name i)) (fc_id nextHopFace) s) (\<lambda>s1. Def (i, nextHopFace, s1))
    else Def (i, nextHopFace, s))"
  have r: "\<exists>i1 g s1. r = Def (i1, g, s1) \<and> interest_plain i1 \<and> same_key i i1 \<and> in_name i1 = in_name i \<and> linked g s \<and> nfd_inv X env s1 \<and> keeps s s1"
  proof (cases "fc_isGeoFace inFace \<and> fe_nextHops f \<noteq> []")
    case True
    have "\<forall>h\<in>set (fe_nextHops f). live (fw_faces s) (nh_face h)" using fib_lpm_live(2) [OF assms(1)] by (simp add: f_def fib_live_def)
    from first_face_finds(2) [OF assms(1) this] consider "first_appFace s (fe_nextHops f) = Def None"
      | g where "first_appFace s (fe_nextHops f) = Def (Some g)" "linked g s" by (auto simp: finds_def)
    then show ?thesis
    proof cases
      case 1
      then have "r = Def (i, nextHopFace, s)" using True by (simp add: r_def)
      with assms(1,5) plain show ?thesis by simp
    next
      case 2
      then have "r = Def (i', g, strip_hint p owns (fc_id inFace) i s)" using True by (simp add: r_def)
      with 2(2) i' strip_hint_inv [OF assms(1,2) plain assms(4)] show ?thesis by simp
    qed
  next
    case False
    from route_runs [OF assms(1) linked_live [OF assms(5)] interest_in_route [OF assms(3)]] obtain s1 where
      s1: "route (getPrefix (- 1) (in_name i)) (fc_id nextHopFace) s = Def s1" "nfd_inv X env s1" "keeps s s1" by (auto simp: runs_def)
    with False have "r = Def (i, nextHopFace, if fc_isGeoFace inFace then s1 else s)" by (simp add: r_def)
    with s1(2,3) assms(1,5) plain show ?thesis by simp
  qed
  then obtain i1 g s1 where 1: "r = Def (i1, g, s1)" "interest_plain i1" "same_key i i1" "in_name i1 = in_name i" "linked g s" "nfd_inv X env s1" "keeps s s1"
    by blast
  define r2 where "r2 = (if fc_localUri inFace = appFace_uri then route (getPrefix (- 1) (in_name i1)) (fc_id g) s1 else Def s1)"
  have "linked g s1" using 1(5,7) by (simp add: keeps_linked)
  with route_runs [OF 1(6) linked_live] interest_in_route [OF assms(3)] 1(4,6) have "runs (\<lambda>s. s) X env s1 r2" by (auto simp: r2_def runs_def)
  then obtain s2 where 2: "r2 = Def s2" "nfd_inv X env s2" "keeps s1 s2" by (auto simp: runs_def)
  note k = keeps_trans [OF 1(7) 2(3)]
  from keeps_pit [OF k assms(2)] obtain pe2 where pe2: "tb_pits (fw_tables s2) p = Some pe2" "same_key (pt_interest pe2) (pt_interest pe)" by blast
  have "same_key (pt_interest pe2) i1" using same_key_trans [OF pe2(2) same_key_trans [OF assms(4) 1(3)]] .
  from onOutgoingInterest_runs [OF 2(2) pe2(1) 1(2) this] have "runs fst X env s (onOutgoingInterest p g i1 s2)" by (rule runs_start [OF k])
  moreover have "to_next_hop inFace p owns i nextHopFace s = bindU r (\<lambda>(i1, g, s1).
      bindU (if fc_localUri inFace = appFace_uri then route (getPrefix (- 1) (in_name i1)) (fc_id g) s1 else Def s1) (\<lambda>s2. onOutgoingInterest p g i1 s2))"
    using assms(2) unfolding to_next_hop_def r_def f_def i'_def Let_def by simp
  ultimately show ?thesis using 1(1) 2(1) by (simp add: r2_def)
qed

lemma onContentStoreMiss_runs:
  assumes "nfd_inv X env s" and "tb_pits (fw_tables s) p = Some pe" and "interest_in s i" and "same_key (pt_interest pe) i" and "linked inFace s"
  shows "runs fst (X - {p}) env s (onContentStoreMiss inFace p owns i s)"
proof -
  define s0 where "s0 = count_fw (\<lambda>c. c\<lparr> c_nCsMisses := c_nCsMisses c + 1 \<rparr>) s"
  have s0: "nfd_inv X env s0" "tb_pits (fw_tables s0) p = Some pe" "keeps s s0" using assms(1,2) by (simp_all add: s0_def)
  have plain: "interest_plain i" using assms(3) by (simp add: interest_in_def)
  from insertOrUpdateInRecord_ok [OF pit_okD [OF s0(1,2)] plain assms(4), of "fc_id inFace" "fw_now s0"] linked_live [OF assms(5)] obtain pe1 where
    pe1: "insertOrUpdateInRecord (fw_now s0) (fc_id inFace) i pe = Def pe1" "entry_ok (live (fw_faces s0)) (hints_ok (fw_regions s0)) pe1"
      "pt_interest pe1 = pt_interest pe" "pt_node pe1 = pt_node pe" "pt_expiryTimer pe1 = pt_expiryTimer pe"
      "\<exists>r\<in>set (pt_inRecords pe1). fw_now s0 \<le> fr_expiry r" by (auto simp: s0_def)
  define s1 where "s1 = set_pit p (\<lambda>_. pe1) s0"
  have s1: "nfd_inv X env s1" "keeps s0 s1" "tb_pits (fw_tables s1) p = Some pe1"
    using set_pit_inv [OF s0(1,2), of "\<lambda>_. pe1"] pe1 s0(2) by (simp_all add: s1_def)
  have "fw_now s0 \<le> last_expiry pe1" using pe1(6) last_expiry_ge by force
  then have "0 \<le> millis_from (last_expiry pe1 - fw_now s0)" by (intro millis_from_nonneg) simp
  from setExpiryTimer_runs [OF s1(1,3) this] obtain s2 where
    s2: "fw_setExpiryTimer p (millis_from (last_expiry pe1 - fw_now s0)) s1 = Def s2" "nfd_inv (X - {p}) env s2" "keeps s1 s2" by (auto simp: runs_def)
  note k = keeps_trans [OF s0(3) keeps_trans [OF s1(2) s2(3)]]
  from keeps_pit [OF k assms(2)] obtain pe2 where pe2: "tb_pits (fw_tables s2) p = Some pe2" "same_key (pt_interest pe2) (pt_interest pe)" by blast
  have key: "same_key (pt_interest pe2) i" using same_key_trans [OF pe2(2) assms(4)] .
  have i: "interest_in s2 i" using assms(3) k by (simp add: interest_in_def keeps_def)
  define rest where "rest = (case in_nextHopFaceId i of
      Some fid \<Rightarrow> (case ft_get fid (fw_faces s2) of None \<Rightarrow> Def (s2, []) | Some nextHopFace \<Rightarrow> to_next_hop inFace p owns i nextHopFace s2)
    | None \<Rightarrow> broadcast_afterReceiveInterest inFace i p s2)"
  have "runs fst (X - {p}) env s2 rest"
  proof (cases "in_nextHopFaceId i")
    case None
    with broadcast_afterReceiveInterest_runs [OF s2(2) pe2(1) plain key] show ?thesis by (simp add: rest_def)
  next
    case (Some fid)
    show ?thesis
    proof (cases "ft_get fid (fw_faces s2)")
      case None
      with Some s2(2) show ?thesis by (simp add: rest_def runs_def)
    next
      case (Some g)
      have "fc_id g = fid" using ft_get_id [OF nfd_invD(1) [OF s2(2)] Some] .
      then have "linked g s2" using i Some \<open>in_nextHopFaceId i = Some fid\<close> by (simp add: linked_def interest_in_def)
      from to_next_hop_runs [OF s2(2) pe2(1) i key this] Some \<open>in_nextHopFaceId i = Some fid\<close> show ?thesis by (simp add: rest_def)
    qed
  qed
  then have "runs fst (X - {p}) env s rest" by (rule runs_start [OF k])
  moreover have "onContentStoreMiss inFace p owns i s = rest"
    using s0(2) pe1(1) s2(1) by (simp add: onContentStoreMiss_def Let_def s0_def [symmetric] s1_def [symmetric] rest_def)
  ultimately show ?thesis by simp
qed

lemma onContentStoreHit_runs:
  assumes "nfd_inv X env s" and "tb_pits (fw_tables s) p = Some pe" and "digest_ok (ne_digest env)" and "0 \<le> d_freshness d"
    and "matchesData (ne_digest env d) (pt_interest pe) d"
  shows "runs fst (X - {p}) env s (onContentStoreHit env inFace p i d s)"
proof -
  define d' where "d' = d\<lparr> d_incomingFaceId := Some FACEID_CONTENT_STORE \<rparr>"
  define s1 where "s1 = count_fw (\<lambda>c. c\<lparr> c_nCsHits := c_nCsHits c + 1 \<rparr>) s"
  define s2 where "s2 = s1\<lparr> fw_cs := cs_retag (ne_digest env) d d' (fw_cs s1) \<rparr>"
  define s3 where "s3 = set_pit p (\<lambda>e. e\<lparr> pt_isSatisfied := True, pt_dataFreshnessPeriod := d_freshness d \<rparr>) s2"
  have d': "retagged d d'" by (simp add: d'_def retagged_tags)
  have "store_ok (ne_digest env) (fw_cs s2)"
    using cs_retag_ok [OF nfd_invD(4) [OF assms(1)] assms(3) d' assms(4)] by (simp add: s2_def s1_def)
  then have s2: "nfd_inv X env s2" "keeps s s2" "tb_pits (fw_tables s2) p = Some pe"
    using assms(1,2) by (simp_all add: nfd_inv_def keeps_def s2_def s1_def)
  have s3: "nfd_inv X env s3" "keeps s2 s3" "\<exists>pe. tb_pits (fw_tables s3) p = Some pe"
    using set_pit_inv [OF s2(1,3), of "\<lambda>e. e\<lparr> pt_isSatisfied := True, pt_dataFreshnessPeriod := d_freshness d \<rparr>"] pit_okD [OF s2(1,3)] assms(4) s2(3)
    by (auto simp: s3_def entry_ok_def)
  then obtain pe3 where "tb_pits (fw_tables s3) p = Some pe3" by blast
  from setExpiryTimer_runs [OF s3(1) this, of 0] obtain s4 where
    s4: "fw_setExpiryTimer p 0 s3 = Def s4" "nfd_inv (X - {p}) env s4" "keeps s3 s4" by (auto simp: runs_def)
  note k = keeps_trans [OF s2(2) keeps_trans [OF s3(2) s4(3)]]
  from keeps_pit [OF k assms(2)] obtain pe4 where pe4: "tb_pits (fw_tables s4) p = Some pe4" "same_key (pt_interest pe4) (pt_interest pe)" by blast
  have "matchesData (ne_digest env d') (pt_interest pe4) d'"
    using assms(5) retagged_matches [OF assms(3) d'] matchesData_same_key [OF pe4(2)] by simp
  from broadcast_afterContentStoreHit_runs [OF s4(2) pe4(1) this] have "runs fst (X - {p}) env s (broadcast_afterContentStoreHit env p inFace d' s4)"
    by (rule runs_start [OF k])
  then show ?thesis
    using s4(1) by (simp add: onContentStoreHit_def Let_def d'_def [symmetric] s1_def [symmetric] s2_def [symmetric] s3_def [symmetric])
qed

text \<open>A PIT entry that has just been inserted has no timer and no event refers to it.\<close>

lemma inserted_inv:
  assumes "nfd_inv {} env s" and "tables_ok (live (fw_faces s)) (hints_ok (fw_regions s)) tb" and "inserted i p isNew (fw_tables s) tb"
  shows "nfd_inv {p} env (s\<lparr> fw_tables := tb \<rparr>)"
proof -
  note tm = nfd_invD(3) [OF assms(1)]
  have "timers_ok {p} (tb_pits tb) (fw_sched s)"
  proof (cases isNew)
    case True
    with assms(3) have new: "tb_pits (fw_tables s) p = None"
      "tb_pits tb = (tb_pits (fw_tables s))(p \<mapsto> mkPitEntry i (take (nte_depth (in_name i)) (in_name i)))" by (simp_all add: inserted_def)
    have "case pt_expiryTimer pe of None \<Rightarrow> q \<in> {p} | Some k \<Rightarrow> \<exists>t. sc_pending (fw_sched s) k = Some (t, q)" if "tb_pits tb q = Some pe" for q pe
      using that timers_okD(2,3) [OF tm, of q pe] by (cases "q = p") (auto simp: new(2) mkPitEntry_def split: option.split)
    moreover have "\<exists>pe. tb_pits tb q = Some pe \<and> pt_expiryTimer pe = Some k" if "sc_pending (fw_sched s) k = Some (t, q)" for k t q
      using timers_okD(1) [OF tm that] new by auto
    ultimately show ?thesis using tm by (simp add: timers_ok_def)
  next
    case False
    with assms(3) have "tb_pits tb = tb_pits (fw_tables s)" by (simp add: inserted_def)
    with timers_ok_mono [OF tm, of "{p}"] show ?thesis by simp
  qed
  moreover have "unique_keys (tb_pits tb)"
  proof (cases isNew)
    case True
    with assms(3) have new: "\<And>q qe. tb_pits (fw_tables s) q = Some qe \<Longrightarrow> \<not> same_key (pt_interest qe) i"
      "tb_pits tb = (tb_pits (fw_tables s))(p \<mapsto> mkPitEntry i (take (nte_depth (in_name i)) (in_name i)))" by (simp_all add: inserted_def)
    have key: "pt_interest (mkPitEntry i n) = i" for n by (simp add: mkPitEntry_def)
    show ?thesis unfolding unique_keys_def new(2)
    proof (intro allI impI)
      fix q r x y
      assume q: "((tb_pits (fw_tables s))(p \<mapsto> mkPitEntry i (take (nte_depth (in_name i)) (in_name i)))) q = Some x"
        and r: "((tb_pits (fw_tables s))(p \<mapsto> mkPitEntry i (take (nte_depth (in_name i)) (in_name i)))) r = Some y"
        and same: "same_key (pt_interest x) (pt_interest y)"
      show "q = r"
      proof (cases "q = p \<or> r = p")
        case True
        with q r same new(1) [of q x] new(1) [of r y] same_key_sym [of i "pt_interest y"] show ?thesis
          by (cases "q = p"; cases "r = p") (auto simp: key)
      next
        case False
        with q r same nfd_invD(5) [OF assms(1)] show ?thesis unfolding unique_keys_def by simp
      qed
    qed
  next
    case False
    with assms(3) nfd_invD(5) [OF assms(1)] show ?thesis by (simp add: inserted_def)
  qed
  ultimately show ?thesis using assms(1,2) by (simp add: nfd_inv_def)
qed

lemma inserted_keeps: "inserted i p isNew (fw_tables s) tb \<Longrightarrow> keeps s (s\<lparr> fw_tables := tb \<rparr>)"
  by (auto simp: inserted_def keeps_def split: if_splits)

lemma inv_weaken: "nfd_inv X env s \<Longrightarrow> X \<subseteq> Y \<Longrightarrow> nfd_inv Y env s"
  unfolding nfd_inv_def using timers_ok_mono by blast

end
