(* ===== verification/Nfd_Forwarding.thy ===== *)
theory Nfd_Forwarding
  imports Nfd_Safety
begin

text \<open>
  The entry points of the forwarder keep its invariant: incoming Interests, Data and Nacks, the expiry of a PIT entry, faces that
  come and go, and the clock.
\<close>

section \<open>Incoming Interests\<close>

lemma cs_find_runs:
  assumes "nfd_inv X env s" and "name_fits (in_name i)" and "plain_query (in_name i)"
  shows "\<exists>r c. cs_find (ne_digest env) (lruPolicy (ne_digest env)) i (fw_cs s) = Some (Def (r, c)) \<and> nfd_inv X env (s\<lparr> fw_cs := c \<rparr>) \<and>
    keeps s (s\<lparr> fw_cs := c \<rparr>) \<and> (\<forall>d. r = Some d \<longrightarrow> matchesData (ne_digest env d) i d \<and> 0 \<le> d_freshness d)"
proof -
  let ?dg = "ne_digest env"
  have ok: "cs_inv ?dg lru_tracks (fw_cs s)" "\<forall>e\<in>set (cs_table (fw_cs s)). 0 \<le> d_freshness (ce_data e)"
    using nfd_invD(4) [OF assms(1)] by (simp_all add: store_ok_def)
  from lru.find_inv [OF ok(1) assms(2,3)] obtain r q where
    q: "cs_find ?dg (lruPolicy ?dg) i (fw_cs s) = Some (Def (r, (fw_cs s)\<lparr> cs_policy := q \<rparr>))" "cs_inv ?dg lru_tracks ((fw_cs s)\<lparr> cs_policy := q \<rparr>)"
      "cs_shouldServe (fw_cs s) \<and> cs_limit (fw_cs s) > 0 \<longrightarrow> (case r of
         None \<Rightarrow> \<forall>e\<in>set (cs_table (fw_cs s)). \<not> canSatisfy ?dg (cs_now (fw_cs s)) i e
       | Some d \<Rightarrow> \<exists>e\<in>set (cs_table (fw_cs s)). ce_data e = d \<and> canSatisfy ?dg (cs_now (fw_cs s)) i e)"
      "\<not> cs_shouldServe (fw_cs s) \<or> cs_limit (fw_cs s) = 0 \<longrightarrow> r = None" by (elim exE conjE) (rule that)
  have "matchesData (?dg d) i d \<and> 0 \<le> d_freshness d" if "r = Some d" for d
  proof -
    from that q(3,4) obtain e where "e \<in> set (cs_table (fw_cs s))" "ce_data e = d" "canSatisfy ?dg (cs_now (fw_cs s)) i e" by auto
    with ok(2) show ?thesis by (auto simp: canSatisfy_def split: if_splits)
  qed
  moreover have "nfd_inv X env (s\<lparr> fw_cs := (fw_cs s)\<lparr> cs_policy := q \<rparr> \<rparr>)" "keeps s (s\<lparr> fw_cs := (fw_cs s)\<lparr> cs_policy := q \<rparr> \<rparr>)"
    using assms(1) q(2) ok(2) by (simp_all add: nfd_inv_def store_ok_def keeps_def)
  ultimately show ?thesis using q(1) by blast
qed

text \<open>A PIT entry that was there before the insertion has its timer.\<close>

lemma inserted_old_inv:
  assumes "nfd_inv {} env s" and "tables_ok (live (fw_faces s)) (hints_ok (fw_regions s)) tb" and "inserted i p False (fw_tables s) tb"
  shows "nfd_inv {} env (s\<lparr> fw_tables := tb \<rparr>)"
  using assms by (simp add: nfd_inv_def inserted_def)

lemma findDuplicateNonce_new: "findDuplicateNonce (mkPitEntry i node) x face = []"
  by (simp add: findDuplicateNonce_def mkPitEntry_def)

lemma onIncomingInterest_runs:
  assumes "nfd_inv {} env s" and "digest_ok (ne_digest env)" and "interest_in s i0" and "linked inFace s"
  shows "\<exists>r. onIncomingInterest env inFace i0 s = Some r \<and> runs fst {} env s r"
proof -
  define i1 where "i1 = i0\<lparr> in_incomingFaceId := Some (fc_id inFace) \<rparr>"
  define s0 where "s0 = count_fw (\<lambda>c. c\<lparr> c_nInInterests := c_nInInterests c + 1 \<rparr>) s"
  define i where "i = (if in_forwardingHint i1 \<noteq> [] \<and> isInProducerRegion (in_forwardingHint i1) s0
      then i1\<lparr> in_forwardingHint := [], in_wire := None \<rparr> else i1)"
  have s0: "nfd_inv {} env s0" "keeps s s0" using assms(1) by (simp_all add: s0_def)
  have loop: "runs fst {} env s (Def (onInterestLoop inFace j s0))" for j using s0 by (simp add: onInterestLoop_def runs_def)
  have i: "interest_in s0 i" "hints_ok (fw_regions s0) (in_forwardingHint i)"
    using assms(3) by (auto simp: i_def i1_def s0_def interest_in_def interest_plain_def producer_region)
  then have plain: "interest_plain i" "plain_query (in_name i)" "name_fits (in_name i)" by (simp_all add: interest_in_def interest_plain_def)
  from pit_insert_ok [OF nfd_invD(2) [OF s0(1)] plain(1) i(2)] obtain p isNew tb where
    ins: "pit_insert i (fw_tables s0) = Def ((p, isNew), tb)" "tables_ok (live (fw_faces s0)) (hints_ok (fw_regions s0)) tb"
      "inserted i p isNew (fw_tables s0) tb" by blast
  define s1 where "s1 = s0\<lparr> fw_tables := tb \<rparr>"
  have s1: "nfd_inv {p} env s1" "keeps s s1"
    using inserted_inv [OF s0(1) ins(2,3)] keeps_trans [OF s0(2) inserted_keeps [OF ins(3)]] by (simp_all add: s1_def)
  from ins(3) obtain pe where pe: "tb_pits tb p = Some pe" "same_key (pt_interest pe) i" by (auto simp: inserted_def)
  have pe1: "tb_pits (fw_tables s1) p = Some pe" using pe(1) by (simp add: s1_def)
  have i1: "interest_in s1 i" using i(1) by (simp add: s1_def interest_in_def)
  have face: "linked inFace s1" using assms(4) keeps_linked [OF s1(2)] by simp
  have miss: "runs fst {} env s (onContentStoreMiss inFace p isNew i s1)"
    using onContentStoreMiss_runs [OF s1(1) pe1 i1 pe(2) face] by (auto intro: runs_start [OF s1(2)])
  define dnw where "dnw = findDuplicateNonce pe (in_nonce i) (fc_id inFace)"
  define duplicate where "duplicate = (dnw \<noteq> [] \<and> \<not> (fc_linkType inFace = LinkPointToPoint \<and> \<not> fc_isGeoFace inFace \<and> InSame \<in> set dnw))"
  have dup: "runs fst {} env s (Def (onInterestLoop inFace i s1))" if duplicate
  proof -
    have "\<not> isNew" using that ins(3) pe(1) findDuplicateNonce_new by (auto simp: duplicate_def dnw_def inserted_def)
    then have "nfd_inv {} env s1" using inserted_old_inv [OF s0(1) ins(2)] ins(3) by (simp add: s1_def)
    with s1(2) show ?thesis by (simp add: onInterestLoop_def runs_def)
  qed
  from cs_find_runs [OF s1(1) plain(3,2)] obtain r c where
    find: "cs_find (ne_digest env) (lruPolicy (ne_digest env)) i (fw_cs s1) = Some (Def (r, c))" "nfd_inv {p} env (s1\<lparr> fw_cs := c \<rparr>)"
      "keeps s1 (s1\<lparr> fw_cs := c \<rparr>)" "\<forall>d. r = Some d \<longrightarrow> matchesData (ne_digest env d) i d \<and> 0 \<le> d_freshness d" by blast
  note k = keeps_trans [OF s1(2) find(3)]
  have pe2: "tb_pits (fw_tables (s1\<lparr> fw_cs := c \<rparr>)) p = Some pe" using pe1 by simp
  have i2: "interest_in (s1\<lparr> fw_cs := c \<rparr>) i" "linked inFace (s1\<lparr> fw_cs := c \<rparr>)" using i1 face by (simp_all add: interest_in_def linked_def)
  have missed: "runs fst {} env s (onContentStoreMiss inFace p isNew i (s1\<lparr> fw_cs := c \<rparr>))"
    using onContentStoreMiss_runs [OF find(2) pe2 i2(1) pe(2) i2(2)] by (auto intro: runs_start [OF k])
  have hit: "runs fst {} env s (onContentStoreHit env inFace p i d (s1\<lparr> fw_cs := c \<rparr>))" if "r = Some d" for d
  proof -
    have "matchesData (ne_digest env d) (pt_interest pe) d" "0 \<le> d_freshness d" using find(4) that matchesData_same_key [OF pe(2)] by simp_all
    from onContentStoreHit_runs [OF find(2) pe2 assms(2) this(2,1)] show ?thesis by (auto intro: runs_start [OF k])
  qed
  have body: "onIncomingInterest env inFace i0 s =
    (if fc_scope inFace = ScopeNonLocal \<and> isPrefixOf localhost (in_name i1) then Some (Def (s0, []))
     else if dnl_has (ne_city env) (in_name i1) (in_nonce i1) (fw_dnl s0) then Some (Def (onInterestLoop inFace i1 s0))
     else if duplicate then Some (Def (onInterestLoop inFace i s1))
     else if pt_inRecords pe = [] then
       (case r of None \<Rightarrow> Some (onContentStoreMiss inFace p isNew i (s1\<lparr> fw_cs := c \<rparr>))
        | Some d \<Rightarrow> Some (onContentStoreHit env inFace p i d (s1\<lparr> fw_cs := c \<rparr>)))
     else Some (onContentStoreMiss inFace p isNew i s1))"
    unfolding onIncomingInterest_def Let_def i1_def [symmetric] s0_def [symmetric] i_def [symmetric]
    by (simp add: ins(1) pe(1) s1_def [symmetric] find(1) dnw_def [symmetric] duplicate_def split: option.split)
  have drop: "runs fst {} env s (Def (s0, [] :: nfd_action list))" using s0 by (simp add: runs_def)
  show ?thesis unfolding body using drop loop dup miss missed hit by (simp split: option.split)
qed

section \<open>Incoming Data\<close>

definition data_in :: "nfd_env \<Rightarrow> data \<Rightarrow> bool" where
  "data_in env d \<longleftrightarrow> data_fits (ne_digest env) d \<and> 0 \<le> d_freshness d \<and> length (d_name d) \<le> Suc getMaxDepth"

lemma data_in_retagged: "digest_ok (ne_digest env) \<Longrightarrow> retagged d d' \<Longrightarrow> data_in env d' \<longleftrightarrow> data_in env d"
  by (simp add: data_in_def retagged_fits retagged_same)

lemma onDataUnsolicited_runs:
  assumes "nfd_inv X env s" and "digest_ok (ne_digest env)" and "data_in env d" and "linked inFace s"
  shows "runs fst X env s (onDataUnsolicited env inFace d s)"
proof -
  define d' where "d' = d\<lparr> d_congestionMark := Some 501 \<rparr>"
  define f where "f = fib_lpm (d_name d) (tb_tree (fw_tables s))"
  have "\<forall>h\<in>set (fe_nextHops f). live (fw_faces s) (nh_face h)" using fib_lpm_live(1) [OF assms(1)] by (simp add: f_def fib_live_def)
  from first_face_finds(2) [OF assms(1) this] obtain r where r: "first_appFace s (fe_nextHops f) = Def r" by (auto simp: finds_def)
  from route_runs [OF assms(1) linked_live [OF assms(4)] route_length] assms(1,3) obtain s1 where
    s1: "(if r \<noteq> None then Def s else route (getPrefix (- 1) (d_name d)) (fc_id inFace) s) = Def s1" "nfd_inv X env s1" "keeps s s1"
    by (cases "r = None") (auto simp: runs_def data_in_def)
  have d': "data_in env d'" using data_in_retagged [OF assms(2) retagged_tags(3)] assms(3) by (simp add: d'_def)
  have insert: "\<exists>c. cs_insert (ne_digest env) (lruPolicy (ne_digest env)) x True (fw_cs t) = Def c \<and> nfd_inv X env (t\<lparr> fw_cs := c \<rparr>) \<and> keeps t (t\<lparr> fw_cs := c \<rparr>)"
    if "nfd_inv X env t" "data_in env x" for t x
    using cs_insert_runs [OF that(1), of x True] that(2) by (simp add: data_in_def)
  show ?thesis
  proof (cases "fc_isGeoFace inFace \<and> fc_scope inFace = ScopeNonLocal")
    case True
    have eq: "onDataUnsolicited env inFace d s =
      (if r = None then bindU (cs_insert (ne_digest env) (lruPolicy (ne_digest env)) d' True (fw_cs s1))
         (\<lambda>c. Def (s1\<lparr> fw_cs := c \<rparr>, [SendDataToVal (fc_id inFace) d' None False]))
       else Def (s1, [SendDataToVal (fc_id inFace) d' None True]))"
      using True r s1(1) by (simp add: onDataUnsolicited_def Let_def f_def [symmetric] d'_def [symmetric])
    from insert [OF s1(2) d'] keeps_trans [OF s1(3)] s1(2,3) show ?thesis unfolding eq by (auto simp: runs_def)
  next
    case False
    then have eq: "onDataUnsolicited env inFace d s =
      (if fc_scope inFace = ScopeNonLocal then bindU (cs_insert (ne_digest env) (lruPolicy (ne_digest env)) d True (fw_cs s)) (\<lambda>c. Def (s\<lparr> fw_cs := c \<rparr>, []))
       else Def (s, []))"
      by (auto simp: onDataUnsolicited_def Let_def)
    from insert [OF assms(1,3)] assms(1) show ?thesis unfolding eq by (auto simp: runs_def)
  qed
qed

lemma satisfy_entry_runs:
  assumes "nfd_inv {} env s" and "digest_ok (ne_digest env)" and "data_in env d" and "linked inFace s"
    and "tb_pits (fw_tables s) p = Some pe" and "matchesData (ne_digest env d) (pt_interest pe) d"
  shows "\<exists>d' s' as. satisfy_entry env inFace p d s = Def (d', s', as) \<and> retagged d d' \<and> nfd_inv {} env s' \<and> keeps s s'"
proof -
  from setExpiryTimer_runs [OF assms(1,5), of 0] obtain s1 where
    s1: "fw_setExpiryTimer p 0 s = Def s1" "nfd_inv {} env s1" "keeps s s1" by (auto simp: runs_def)
  from keeps_pit [OF s1(3) assms(5)] obtain pe1 where pe1: "tb_pits (fw_tables s1) p = Some pe1" "same_key (pt_interest pe1) (pt_interest pe)" by blast
  have "matchesData (ne_digest env d) (pt_interest pe1) d" "linked inFace s1" "length (d_name d) \<le> Suc getMaxDepth"
    using assms(3,4,6) matchesData_same_key [OF pe1(2)] keeps_linked [OF s1(3)] by (simp_all add: data_in_def)
  from broadcast_afterReceiveData_runs [OF assms(2) s1(2) pe1(1) this] obtain d' s2 as where
    s2: "broadcast_afterReceiveData env p inFace d s1 = Def (d', s2, as)" "retagged d d'" "nfd_inv {} env s2" "keeps s1 s2" by blast
  from keeps_pit [OF s2(4) pe1(1)] obtain pe2 where pe2: "tb_pits (fw_tables s2) p = Some pe2" by blast
  define s3 where "s3 = set_pit p (\<lambda>e. e\<lparr> pt_isSatisfied := True, pt_dataFreshnessPeriod := d_freshness d' \<rparr>) s2"
  have fresh: "0 \<le> d_freshness d'" using assms(3) retagged_same(2) [OF s2(2)] by (simp add: data_in_def)
  have s3: "nfd_inv {} env s3" "keeps s2 s3"
    unfolding s3_def using set_pit_inv [OF s2(3) pe2, of "\<lambda>e. e\<lparr> pt_isSatisfied := True, pt_dataFreshnessPeriod := d_freshness d' \<rparr>"]
      pit_okD [OF s2(3) pe2] fresh by (simp_all add: entry_ok_def)
  from keeps_pit [OF s3(2) pe2] obtain pe3 where pe3: "tb_pits (fw_tables s3) p = Some pe3" by blast
  from insertDeadNonceList_runs [OF s3(1) pe3, of "Some (fc_id inFace)"] obtain s4 where
    s4: "insertDeadNonceList env p (Some (fc_id inFace)) s3 = Def s4" "nfd_inv {} env s4" "keeps s3 s4" by (auto simp: runs_def)
  from keeps_pit [OF s4(3) pe3] obtain pe4 where pe4: "tb_pits (fw_tables s4) p = Some pe4" by blast
  have "entry_ok (live (fw_faces s4)) (hints_ok (fw_regions s4)) (deleteOutRecord (fc_id inFace) pe4)"
    using pit_okD [OF s4(2) pe4] by (simp add: entry_ok_def)
  from set_pit_inv [where f = "deleteOutRecord (fc_id inFace)", OF s4(2) pe4 this] have "nfd_inv {} env (set_pit p (deleteOutRecord (fc_id inFace)) s4)" "keeps s4 (set_pit p (deleteOutRecord (fc_id inFace)) s4)"
    by simp_all
  moreover have "satisfy_entry env inFace p d s = Def (d', set_pit p (deleteOutRecord (fc_id inFace)) s4, as)"
    by (simp add: satisfy_entry_def s1(1) s2(1) s3_def [symmetric] s4(1) Let_def)
  ultimately show ?thesis using s2(2) keeps_trans [OF s1(3) keeps_trans [OF s2(4) keeps_trans [OF s3(2) keeps_trans [OF s4(3)]]]] by blast
qed

lemma satisfy_entries_runs:
  assumes "digest_ok (ne_digest env)" and "nfd_inv {} env s" and "data_in env d" and "linked inFace s"
    and "\<forall>p\<in>set ps. \<exists>pe. tb_pits (fw_tables s) p = Some pe \<and> matchesData (ne_digest env d) (pt_interest pe) d"
  shows "runs fst {} env s (satisfy_entries env inFace ps d s)"
  using assms(2-5)
proof (induction ps arbitrary: d s)
  case Nil
  then show ?case by (simp add: runs_def)
next
  case (Cons p ps)
  from Cons.prems(4) obtain pe where "tb_pits (fw_tables s) p = Some pe" "matchesData (ne_digest env d) (pt_interest pe) d" by auto
  from satisfy_entry_runs [OF Cons.prems(1) assms(1) Cons.prems(2,3) this] obtain d' s1 as where
    1: "satisfy_entry env inFace p d s = Def (d', s1, as)" "retagged d d'" "nfd_inv {} env s1" "keeps s s1" by blast
  have "data_in env d'" using data_in_retagged [OF assms(1) 1(2)] Cons.prems(2) by simp
  moreover have "linked inFace s1" using keeps_linked [OF 1(4)] Cons.prems(3) by simp
  moreover have "\<exists>pe. tb_pits (fw_tables s1) q = Some pe \<and> matchesData (ne_digest env d') (pt_interest pe) d'" if "q \<in> set ps" for q
  proof -
    from Cons.prems(4) that obtain qe where qe: "tb_pits (fw_tables s) q = Some qe" "matchesData (ne_digest env d) (pt_interest qe) d" by auto
    from keeps_pit [OF 1(4) qe(1)] qe(2) matchesData_same_key retagged_matches [OF assms(1) 1(2)] show ?thesis by metis
  qed
  ultimately have "runs fst {} env s1 (satisfy_entries env inFace ps d' s1)" using Cons.IH [OF 1(3)] by simp
  then obtain s2 as' where "satisfy_entries env inFace ps d' s1 = Def (s2, as')" "nfd_inv {} env s2" "keeps s1 s2" by (auto simp: runs_def)
  with 1 keeps_trans [OF 1(4)] show ?case by (auto simp: runs_def)
qed

lemma onIncomingData_runs:
  assumes "nfd_inv {} env s" and "digest_ok (ne_digest env)" and "data_in env d0" and "linked inFace s"
  shows "runs fst {} env s (onIncomingData env inFace d0 s)"
proof -
  define d where "d = d0\<lparr> d_incomingFaceId := Some (fc_id inFace) \<rparr>"
  define s0 where "s0 = count_fw (\<lambda>c. c\<lparr> c_nInData := c_nInData c + 1 \<rparr>) s"
  define ms where "ms = findAllDataMatches (ne_digest env d) d (fw_tables s0)"
  have s0: "nfd_inv {} env s0" "keeps s s0" "linked inFace s0" using assms(1,4) by (simp_all add: s0_def linked_def)
  have d: "data_in env d" "data_in env (d\<lparr> d_hopCount := None \<rparr>)"
    using assms(3) data_in_retagged [OF assms(2) retagged_tags(2)] data_in_retagged [OF assms(2) retagged_tags(4)] by (simp_all add: d_def)
  from cs_insert_runs [OF s0(1), of "d\<lparr> d_hopCount := None \<rparr>" False] d(2) obtain c where
    c: "cs_insert (ne_digest env) (lruPolicy (ne_digest env)) (d\<lparr> d_hopCount := None \<rparr>) False (fw_cs s0) = Def c"
      "nfd_inv {} env (s0\<lparr> fw_cs := c \<rparr>)" "keeps s0 (s0\<lparr> fw_cs := c \<rparr>)" by (auto simp: data_in_def)
  have "\<forall>p\<in>set ms. \<exists>pe. tb_pits (fw_tables (s0\<lparr> fw_cs := c \<rparr>)) p = Some pe \<and> matchesData (ne_digest env d) (pt_interest pe) d"
    by (auto simp: ms_def findAllDataMatches_def split: option.splits)
  from satisfy_entries_runs [OF assms(2) c(2) d(1) _ this] s0(3) have "runs fst {} env (s0\<lparr> fw_cs := c \<rparr>) (satisfy_entries env inFace ms d (s0\<lparr> fw_cs := c \<rparr>))"
    by (simp add: linked_def)
  then have sat: "runs fst {} env s (satisfy_entries env inFace ms d (s0\<lparr> fw_cs := c \<rparr>))" by (rule runs_start [OF keeps_trans [OF s0(2) c(3)]])
  have uns: "runs fst {} env s (onDataUnsolicited env inFace d s0)" using onDataUnsolicited_runs [OF s0(1) assms(2) d(1) s0(3)] by (rule runs_start [OF s0(2)])
  have drop: "runs fst {} env s (Def (s0, [] :: nfd_action list))" using s0 by (simp add: runs_def)
  have "onIncomingData env inFace d0 s =
    (if fc_scope inFace = ScopeNonLocal \<and> isPrefixOf localhost (d_name d) then Def (s0, [])
     else if ms = [] then onDataUnsolicited env inFace d s0 else satisfy_entries env inFace ms d (s0\<lparr> fw_cs := c \<rparr>))"
    unfolding onIncomingData_def Let_def d_def [symmetric] s0_def [symmetric] ms_def [symmetric] by (simp add: c(1))
  with sat uns drop show ?thesis by simp
qed

section \<open>Expiry\<close>

text \<open>The dead nonce list is all that \<open>insertDeadNonceList\<close> changes.\<close>

lemma insertDeadNonceList_eq:
  assumes "tb_pits (fw_tables s) p = Some pe" and "0 \<le> pt_dataFreshnessPeriod pe"
  shows "\<exists>d. insertDeadNonceList env p None s = Def (s\<lparr> fw_dnl := d \<rparr>)"
proof -
  from dnl_add_all_Def obtain d where "dnl_add_all (ne_city env) (in_name (pt_interest pe)) (map fr_lastNonce (pt_outRecords pe)) (fw_dnl s) = Def d" by blast
  with assms have "insertDeadNonceList env p None s = Def (s\<lparr> fw_dnl := d \<rparr>) \<or> insertDeadNonceList env p None s = Def (s\<lparr> fw_dnl := fw_dnl s \<rparr>)"
    by (simp add: insertDeadNonceList_def assertion_True Let_def)
  then show ?thesis by blast
qed

lemma timers_ok_fire:
  assumes "timers_ok {} pits sch" and "pits p = Some pe" and "pt_expiryTimer pe = Some k"
    and "sc_inv sch'" and "sc_pending sch' = (sc_pending sch)(k := None)"
  shows "timers_ok {} (pits(p := None)) sch'"
proof -
  from timers_okD(3) [OF assms(1-3)] obtain t where k: "sc_pending sch k = Some (t, p)" by blast
  have "case pt_expiryTimer qe of None \<Rightarrow> q \<in> {} | Some j \<Rightarrow> \<exists>t. sc_pending sch' j = Some (t, q)" if "(pits(p := None)) q = Some qe" for q qe
  proof -
    from that have q: "pits q = Some qe" "q \<noteq> p" by (auto split: if_splits)
    from timers_okD(2) [OF assms(1) q(1)] obtain j where j: "pt_expiryTimer qe = Some j" by (cases "pt_expiryTimer qe") auto
    from timers_okD(3) [OF assms(1) q(1) j] k q(2) assms(5) j show ?thesis by auto
  qed
  moreover have "\<exists>qe. (pits(p := None)) q = Some qe \<and> pt_expiryTimer qe = Some j" if j: "sc_pending sch' j = Some (u, q)" for j u q
  proof -
    from j assms(5) have old: "sc_pending sch j = Some (u, q)" "j \<noteq> k" by (auto split: if_splits)
    from timers_okD(1) [OF assms(1) old(1)] obtain qe where qe: "pits q = Some qe" "pt_expiryTimer qe = Some j" by blast
    with old(2) assms(2,3) show ?thesis by auto
  qed
  ultimately show ?thesis using assms(4) by (simp add: timers_ok_def)
qed

lemma unique_keys_erase: "unique_keys pits \<Longrightarrow> unique_keys (pits(p := None))"
  unfolding unique_keys_def by (metis fun_upd_apply option.distinct(1))

lemma cancel_gone: "sc_inv sch \<Longrightarrow> sc_pending sch k = None \<Longrightarrow>
    sc_inv (cancelEvent (Some k) sch) \<and> sc_pending (cancelEvent (Some k) sch) = sc_pending sch \<and> sc_now (cancelEvent (Some k) sch) = sc_now sch"
  using scheduler.cancel_pending [of sch k] by auto

lemma length_erase_first_le: "length (erase_first P xs) \<le> length xs"
  by (induction xs) auto

text \<open>The due timer is that of a PIT entry, which is erased; the entry's nonces go to the dead nonce list.\<close>

lemma nfd_timer_erases:
  assumes "nfd_inv {} env s" and "takeExpired (fw_sched s) = Some ((k, p), sch)"
  shows "\<exists>s'. nfd_timer env s = Def s' \<and> nfd_inv {} env s' \<and> tb_pits (fw_tables s) p \<noteq> None \<and>
    tb_pits (fw_tables s') = (tb_pits (fw_tables s))(p := None) \<and> fw_faces s' = fw_faces s \<and> fw_cs s' = fw_cs s \<and>
    sc_pending (fw_sched s') = (sc_pending (fw_sched s))(k := None) \<and> sc_now (fw_sched s') = sc_now (fw_sched s) \<and>
    length (sc_queue (fw_sched s')) < length (sc_queue (fw_sched s))"
proof -
  note tm = nfd_invD(3) [OF assms(1)]
  have inv: "sc_inv (fw_sched s)" using tm by (simp add: timers_ok_def)
  from scheduler.fire_pending [OF inv assms(2)] obtain t where
    k: "sc_pending (fw_sched s) k = Some (t, p)" "sc_inv sch" "sc_now sch = sc_now (fw_sched s)" "sc_pending sch = (sc_pending (fw_sched s))(k := None)" by blast
  from timers_okD(1) [OF tm k(1)] obtain pe where pe: "tb_pits (fw_tables s) p = Some pe" "pt_expiryTimer pe = Some k" by blast
  define s1 where "s1 = s\<lparr> fw_sched := sch \<rparr>"
  have "tb_pits (fw_tables s1) p = Some pe" "0 \<le> pt_dataFreshnessPeriod pe"
    using pe(1) pit_okD [OF assms(1) pe(1)] by (simp_all add: s1_def entry_ok_def)
  from insertDeadNonceList_eq [OF this] obtain d1 where dnl: "insertDeadNonceList env p None s1 = Def (s1\<lparr> fw_dnl := d1 \<rparr>)" by blast
  from pit_erase_ok [OF nfd_invD(2) [OF assms(1)] pe(1)] obtain tb where
    tb: "pit_erase p (fw_tables s) = Def tb" "tables_ok (live (fw_faces s)) (hints_ok (fw_regions s)) tb" "tb_pits tb = (tb_pits (fw_tables s))(p := None)" by blast
  have gone: "sc_inv (cancelEvent (Some k) sch)" "sc_pending (cancelEvent (Some k) sch) = (sc_pending (fw_sched s))(k := None)"
    "sc_now (cancelEvent (Some k) sch) = sc_now (fw_sched s)" using cancel_gone [OF k(2), of k] k(3,4) by simp_all
  define s2 where "s2 = count_fw (\<lambda>c. if pt_isSatisfied pe then c\<lparr> c_nSatisfiedInterests := c_nSatisfiedInterests c + 1 \<rparr>
      else c\<lparr> c_nUnsatisfiedInterests := c_nUnsatisfiedInterests c + 1 \<rparr>) (s1\<lparr> fw_dnl := d1 \<rparr>)"
  define s3 where "s3 = s2\<lparr> fw_sched := cancelEvent (Some k) sch, fw_tables := tb \<rparr>"
  have "nfd_timer env s = Def s3"
    using assms(2) dnl tb(1) pe by (simp add: nfd_timer_def onInterestFinalize_def Let_def s1_def [symmetric] s2_def [symmetric] s3_def)
      (simp add: s1_def s2_def)
  moreover have "nfd_inv {} env s3"
    using assms(1) tb(2,3) timers_ok_fire [OF tm pe gone(1,2)] unique_keys_erase [OF nfd_invD(5) [OF assms(1)]]
    by (simp add: nfd_inv_def s3_def s2_def s1_def)
  moreover have "length (sc_queue (cancelEvent (Some k) sch)) < length (sc_queue (fw_sched s))"
    using assms(2) length_erase_first_le [of "\<lambda>e. ev_id e = k" "sc_queue sch"] by (auto simp: cancelEvent_eq takeExpired_def split: list.splits if_splits)
  ultimately show ?thesis using tb(3) pe(1) gone(2,3) by (simp add: s3_def s2_def s1_def)
qed

section \<open>Nacks, faces and the clock\<close>

lemma onIncomingNack_runs:
  assumes "nfd_inv {} env s" and "interest_plain (nk_interest n)"
  shows "runs fst {} env s (onIncomingNack inFace n s)"
proof -
  define s0 where "s0 = count_fw (\<lambda>c. c\<lparr> c_nInNacks := c_nInNacks c + 1 \<rparr>) s"
  have s0: "nfd_inv {} env s0" "keeps s s0" using assms(1) by (simp_all add: s0_def)
  have drop: "runs fst {} env s (Def (s0, [] :: nfd_action list))" using s0 by (simp add: runs_def)
  from pit_find_ok [OF nfd_invD(2) [OF s0(1)] assms(2)] obtain r where
    r: "pit_find (nk_interest n) (fw_tables s0) = Def r" "\<And>p. r = Some p \<Longrightarrow> \<exists>pe. tb_pits (fw_tables s0) p = Some pe" by (auto split: option.splits)
  define f where "f = (\<lambda>e :: pit_entry. e\<lparr> pt_outRecords := update_first (\<lambda>r. fr_face r = fc_id inFace) (snd \<circ> setIncomingNack n) (pt_outRecords e) \<rparr>)"
  have found: "runs fst {} env s (bindU (if \<not> hasPendingOutRecords (fw_now (set_pit p f s0)) (f pe) then fw_setExpiryTimer p 0 (set_pit p f s0) else Def (set_pit p f s0)) (\<lambda>s2. Def (s2, [] :: nfd_action list)))"
    if pe: "tb_pits (fw_tables s0) p = Some pe" for p pe
  proof -
    have "entry_ok (live (fw_faces s0)) (hints_ok (fw_regions s0)) (f pe)" using pit_okD [OF s0(1) pe] by (simp add: f_def entry_ok_def)
    from set_pit_inv [where f = f, OF s0(1) pe this] have s1: "nfd_inv {} env (set_pit p f s0)" "keeps s0 (set_pit p f s0)" by (simp_all add: f_def)
    from setExpiryTimer_runs [OF s1(1), of p "f pe" 0] pe have "runs (\<lambda>s. s) {} env (set_pit p f s0) (fw_setExpiryTimer p 0 (set_pit p f s0))" by simp
    then obtain s2 where "fw_setExpiryTimer p 0 (set_pit p f s0) = Def s2" "nfd_inv {} env s2" "keeps (set_pit p f s0) s2" by (auto simp: runs_def)
    then show ?thesis using s1 keeps_trans [OF keeps_trans [OF s0(2) s1(2)]] keeps_trans [OF s0(2) s1(2)] by (simp add: runs_def)
  qed
  show ?thesis
  proof (cases r)
    case None
    then show ?thesis using drop r(1) by (simp add: onIncomingNack_def Let_def s0_def [symmetric])
  next
    case (Some p)
    from r(2) [OF Some] obtain pe where pe: "tb_pits (fw_tables s0) p = Some pe" by blast
    define last where "last = bindU (if \<not> hasPendingOutRecords (fw_now (set_pit p f s0)) (f pe) then fw_setExpiryTimer p 0 (set_pit p f s0) else Def (set_pit p f s0)) (\<lambda>s2. Def (s2, [] :: nfd_action list))"
    have "onIncomingNack inFace n s =
      (if fc_linkType inFace \<noteq> LinkPointToPoint then Def (s0, [])
       else case getOutRecord (fc_id inFace) pe of None \<Rightarrow> Def (s0, [])
         | Some rec \<Rightarrow> if in_nonce (nk_interest n) \<noteq> fr_lastNonce rec then Def (s0, []) else last)"
      using r(1) Some pe by (simp add: onIncomingNack_def Let_def s0_def [symmetric] f_def [symmetric] last_def split: option.split)
    with drop found [OF pe, folded last_def] show ?thesis by (simp split: option.split)
  qed
qed

lemma tables_ok_mono:
  assumes "tables_ok l h tb" and "\<And>f. l f \<Longrightarrow> l' f"
  shows "tables_ok l' h tb"
proof -
  note ok = tables_okD [OF assms(1)]
  have "fib_ok l' (tb_tree tb)" unfolding fib_ok_def
  proof (intro allI impI)
    fix n e f assume "map_of (tb_tree tb) n = Some e" "nt_fib e = Some f"
    with ok(3) have "fe_prefix f = n \<and> fe_nextHops f \<noteq> [] \<and> (\<forall>h\<in>set (fe_nextHops f). l (nh_face h))" by (simp add: fib_ok_def)
    with assms(2) show "fe_prefix f = n \<and> fe_nextHops f \<noteq> [] \<and> (\<forall>h\<in>set (fe_nextHops f). l' (nh_face h))" by simp
  qed
  moreover have "entry_ok l' h pe" if "tb_pits tb p = Some pe" for p pe using ok(6) [OF that] assms(2) by (simp add: entry_ok_def)
  ultimately show ?thesis using ok(1,2,4,5) by (simp add: tables_ok_def)
qed

lemma faces_inv:
  assumes "nfd_inv {} env s" and "ft_inv ft" and "\<And>k. live (fw_faces s) k \<Longrightarrow> live ft k"
  shows "nfd_inv {} env (s\<lparr> fw_faces := ft \<rparr>)"
  using assms(1,2) tables_ok_mono [OF nfd_invD(2) [OF assms(1)] assms(3)] by (simp add: nfd_inv_def)

lemma face_added_inv:
  assumes "nfd_inv {} env s" and "ft_lastFaceId (fw_faces s) \<noteq> - 1"
  shows "\<exists>fid sig ft. ft_add f (fw_faces s) = Def (fid, sig, ft) \<and> nfd_inv {} env (s\<lparr> fw_faces := ft \<rparr>)"
proof (cases "fc_id f = INVALID_FACEID \<or> ft_get (fc_id f) (fw_faces s) = None")
  case True
  from ft_add_fresh [OF nfd_invD(1) [OF assms(1)] True assms(2)] obtain ft where
    ft: "ft_add f (fw_faces s) = Def (ft_lastFaceId (fw_faces s) + 1, Some (if fc_isValNetFace f then AfterValFaceAdd (ft_lastFaceId (fw_faces s) + 1) else AfterAdd (ft_lastFaceId (fw_faces s) + 1)), ft)"
      "ft_inv ft" "ft_get (ft_lastFaceId (fw_faces s) + 1) (fw_faces s) = None"
      "\<And>k. k \<noteq> ft_lastFaceId (fw_faces s) + 1 \<Longrightarrow> ft_get k ft = ft_get k (fw_faces s)" by metis
  have "live ft k" if l: "live (fw_faces s) k" for k
  proof -
    from l ft(3) have "k \<noteq> ft_lastFaceId (fw_faces s) + 1" by (auto simp: live_def)
    with ft(4) l show ?thesis by (simp add: live_def)
  qed
  with faces_inv [OF assms(1) ft(2)] ft(1) show ?thesis by blast
next
  case False
  then show ?thesis using assms(1) by (simp add: ft_add_def)
qed

lemma timers_ok_map:
  assumes "timers_ok X pits sch" and "\<And>pe. pt_expiryTimer (f pe) = pt_expiryTimer pe"
  shows "timers_ok X (\<lambda>p. map_option f (pits p)) sch"
proof -
  have "case pt_expiryTimer pe of None \<Rightarrow> p \<in> X | Some k \<Rightarrow> \<exists>t. sc_pending sch k = Some (t, p)" if "map_option f (pits p) = Some pe" for p pe
  proof -
    from that obtain qe where qe: "pits p = Some qe" "pe = f qe" by auto
    show ?thesis using timers_okD(2,3) [OF assms(1) qe(1)] assms(2) [of qe] qe(2) by (cases "pt_expiryTimer qe") auto
  qed
  moreover have "\<exists>pe. map_option f (pits p) = Some pe \<and> pt_expiryTimer pe = Some k" if "sc_pending sch k = Some (t, p)" for k t p
    using timers_okD(1) [OF assms(1) that] assms(2) by auto
  ultimately show ?thesis using assms(1) by (simp add: timers_ok_def)
qed

lemma unique_keys_map:
  assumes "unique_keys pits" and "\<And>pe. pt_interest (f pe) = pt_interest pe"
  shows "unique_keys (\<lambda>p. map_option f (pits p))"
  using assms unfolding unique_keys_def by (auto simp: assms(2))

lemma face_removed_inv:
  assumes "nfd_inv {} env s" and "ft_get fid (fw_faces s) \<noteq> None"
  shows "\<exists>s'. nfd_removeFace fid s = Def s' \<and> nfd_inv {} env s'"
proof -
  from assms(2) obtain f where f: "ft_get fid (fw_faces s) = Some f" by blast
  then obtain sig ft where rm: "ft_remove fid (fw_faces s) = Def (sig, ft)" by (simp add: ft_remove_def)
  note inv = ft_inv_remove [OF nfd_invD(1) [OF assms(1)] rm]
  from ft_remove_Def [OF rm] f have ft: "ft_get fid ft = None" "\<And>k. k \<noteq> fid \<Longrightarrow> ft_get k ft = ft_get k (fw_faces s)"
    and sig: "sig = (if fc_isValNetFace f then BeforeValFaceRemove fid else BeforeRemove fid)" by (metis option.inject)+
  have live: "live ft k \<longleftrightarrow> live (fw_faces s) k \<and> k \<noteq> fid" for k using ft by (cases "k = fid") (auto simp: live_def)
  show ?thesis
  proof (cases "fc_isValNetFace f")
    case True
    then have "\<not> live (fw_faces s) fid" using f by (simp add: live_def)
    then have "nfd_inv {} env (s\<lparr> fw_faces := ft \<rparr>)" using faces_inv [OF assms(1) inv] live by blast
    then show ?thesis using True rm sig by (simp add: nfd_removeFace_def)
  next
    case False
    from cleanup_ok [OF nfd_invD(2) [OF assms(1)], of fid] obtain tb where
      tb: "cleanupOnFaceRemoval_tables fid (fw_tables s) = Def tb" "tables_ok (\<lambda>k. live (fw_faces s) k \<and> k \<noteq> fid) (hints_ok (fw_regions s)) tb"
        "tb_pits tb = (\<lambda>p. map_option (deleteInOutRecords fid) (tb_pits (fw_tables s) p))" by blast
    have "timers_ok {} (tb_pits tb) (fw_sched s)" unfolding tb(3) by (rule timers_ok_map [OF nfd_invD(3) [OF assms(1)]]) (simp add: deleteInOutRecords_def)
    moreover have "unique_keys (tb_pits tb)" unfolding tb(3) by (rule unique_keys_map [OF nfd_invD(5) [OF assms(1)]]) (simp add: deleteInOutRecords_def)
    moreover have "tables_ok (live ft) (hints_ok (fw_regions s)) tb" using tables_ok_mono [OF tb(2), of "live ft"] live by simp
    ultimately have "nfd_inv {} env (s\<lparr> fw_tables := tb, fw_faces := ft \<rparr>)" using assms(1) inv by (simp add: nfd_inv_def)
    then show ?thesis using False rm sig tb(1) by (simp add: nfd_removeFace_def)
  qed
qed

lemma sc_advance_pending [simp]: "sc_pending (sc_advance t s) = sc_pending s" "sc_inv (sc_advance t s) = sc_inv s"
  by (simp_all add: fun_eq_iff sc_pending_def sc_advance_def sc_inv_def)

lemma timers_ok_advance [simp]: "timers_ok X pits (sc_advance t sch) = timers_ok X pits sch"
  unfolding timers_ok_def sc_advance_pending ..

lemma cs_now_inv [simp]: "cs_inv dg tracks (c\<lparr> cs_now := t \<rparr>) = cs_inv dg tracks c"
  by (simp add: cs_inv_def cs_keys_def)

lemma nfd_tick_inv: "nfd_inv X env s \<Longrightarrow> nfd_inv X env (nfd_tick t s)"
  by (simp add: nfd_inv_def nfd_tick_def store_ok_def)

end
