(* ===== verification/Nfd_Runs.thy ===== *)
theory Nfd_Runs
  imports Nfd_Forwarding
begin

text \<open>
  Runs of the forwarder: the events that may happen in a state, the states they lead to, and what holds in all of these: no event
  makes NFD fail, every PIT entry goes away when its timer does, and looping Interests are not forwarded.
\<close>

section \<open>Events and reachable states\<close>

text \<open>
  Packets as they leave the decoder: Interests and Data whose names have at most one component more than a name tree node may
  have, Interests not ending in a digest, Interests not sent straight to VAL's network face; face ids do not run out.
\<close>

definition event_ok :: "nfd_env \<Rightarrow> nfd \<Rightarrow> nfd_event \<Rightarrow> bool" where
  "event_ok env s ev =
     (case ev of
        InInterest fid i \<Rightarrow> interest_in s i
      | InData fid d \<Rightarrow> data_in env d
      | InNack fid n \<Rightarrow> interest_plain (nk_interest n)
      | FaceAdded f \<Rightarrow> ft_lastFaceId (fw_faces s) \<noteq> - 1
      | _ \<Rightarrow> True)"

inductive nfd_reachable :: "nfd_env \<Rightarrow> name list \<Rightarrow> nfd \<Rightarrow> bool" for env regions where
  reach_start: "mkForwarder env regions = Def s \<Longrightarrow> nfd_reachable env regions s"
| reach_step: "nfd_reachable env regions s \<Longrightarrow> event_ok env s ev \<Longrightarrow> nfd_step env ev s = Some (Def (s', as)) \<Longrightarrow> nfd_reachable env regions s'"

lemma connected_linked:
  assumes "nfd_inv X env s" and "connected_face fid s = Some f"
  shows "linked f s" and "fc_id f = fid"
  using assms(2) ft_get_id [OF nfd_invD(1) [OF assms(1)]] by (auto simp: connected_face_def linked_def split: option.splits if_splits)

lemma nfd_timer_inv:
  assumes "nfd_inv {} env s"
  shows "\<exists>s'. nfd_timer env s = Def s' \<and> nfd_inv {} env s'"
proof (cases "takeExpired (fw_sched s)")
  case None
  then show ?thesis using assms by (simp add: nfd_timer_def)
next
  case (Some x)
  then obtain k p sch where "takeExpired (fw_sched s) = Some ((k, p), sch)" by (metis prod.collapse)
  from nfd_timer_erases [OF assms this] show ?thesis by blast
qed

lemma nfd_step_inv:
  assumes "nfd_inv {} env s" and "digest_ok (ne_digest env)" and "event_ok env s ev"
  shows "\<exists>s' as. nfd_step env ev s = Some (Def (s', as)) \<and> nfd_inv {} env s'"
proof (cases ev)
  case (InInterest fid i)
  show ?thesis
  proof (cases "connected_face fid s")
    case (Some f)
    have "interest_in s i" using assms(3) InInterest by (simp add: event_ok_def)
    from onIncomingInterest_runs [OF assms(1,2) this connected_linked(1) [OF assms(1) Some]] InInterest Some show ?thesis
      by (auto simp: nfd_step_def runs_def)
  qed (use InInterest assms(1) in \<open>simp add: nfd_step_def\<close>)
next
  case (InData fid d)
  show ?thesis
  proof (cases "connected_face fid s")
    case (Some f)
    have "data_in env d" using assms(3) InData by (simp add: event_ok_def)
    from onIncomingData_runs [OF assms(1,2) this connected_linked(1) [OF assms(1) Some]] InData Some show ?thesis
      by (auto simp: nfd_step_def runs_def)
  qed (use InData assms(1) in \<open>simp add: nfd_step_def\<close>)
next
  case (InNack fid n)
  show ?thesis
  proof (cases "connected_face fid s")
    case (Some f)
    have "interest_plain (nk_interest n)" using assms(3) InNack by (simp add: event_ok_def)
    from onIncomingNack_runs [OF assms(1) this, of f] InNack Some show ?thesis by (auto simp: nfd_step_def runs_def)
  qed (use InNack assms(1) in \<open>simp add: nfd_step_def\<close>)
next
  case (FaceAdded f)
  then show ?thesis using face_added_inv [OF assms(1), of f] assms(3) by (auto simp: nfd_step_def event_ok_def)
next
  case (FaceRemoved fid)
  then show ?thesis using face_removed_inv [OF assms(1), of fid] assms(1)
    by (cases "ft_get fid (fw_faces s) = None") (auto simp: nfd_step_def silent_def)
next
  case (ClockTick t)
  then show ?thesis using nfd_tick_inv [OF assms(1)] by (simp add: nfd_step_def)
next
  case ExpiryTimer
  then show ?thesis using nfd_timer_inv [OF assms(1)] by (auto simp: nfd_step_def silent_def)
next
  case DnlMark
  then show ?thesis using assms(1) by (simp add: nfd_step_def)
next
  case DnlAdjust
  obtain d where "dnl_adjustCapacity (fw_dnl s) = Def d" using dnl_evict_Def by (auto simp: dnl_adjustCapacity_def Let_def)
  with DnlAdjust assms(1) show ?thesis by (simp add: nfd_step_def)
qed

lemma mkForwarder_inv: "\<exists>s. mkForwarder env regions = Def s \<and> nfd_inv {} env s"
proof -
  let ?dg = "ne_digest env" and ?tb = "mkTables\<lparr> tb_tree := [([], mkNte\<lparr> nt_other := True \<rparr>)] \<rparr>"
  have "lru_tracks [] {}" by (simp add: lru_tracks_def)
  from lru.mkCs_inv [OF this, of ?dg 10 "sc_now (mkScheduler :: nat scheduler)"] obtain c where
    c: "mkCs (lruPolicy ?dg) [] 10 (sc_now (mkScheduler :: nat scheduler)) = Def c" "cs_inv ?dg lru_tracks c" by blast
  have "cs_table c = []" using c(1) by (auto simp: mkCs_def lruPolicy_def cs_setLimit_def lru_evictEntries.simps)
  then have store: "store_ok ?dg c" using c(2) by (simp add: store_ok_def)
  obtain d where d: "mkDnl DNL_DEFAULT_LIFETIME = Some d" by (auto simp: mkDnl_def DNL_DEFAULT_LIFETIME_def MIN_LIFETIME_def)
  obtain sig ft where ft: "ft_addReserved csFace FACEID_CONTENT_STORE mkFaceTable = Def (sig, ft)" "ft_inv ft"
    by (auto simp: ft_addReserved_def ft_addImpl_def csFace_def mkFace_def mkFaceTable_def ft_get_def ft_inv_def FACEID_CONTENT_STORE_def FACEID_RESERVED_MAX_def)
  have "tables_ok l h ?tb" for l h
    by (simp add: tables_ok_def nt_ok_def no_empty_def fib_ok_def pits_ok_def mkTables_def mkNte_def nte_isEmpty_def hasTableEntries_def split: if_splits)
  moreover have "timers_ok {} (tb_pits ?tb) mkScheduler" "unique_keys (tb_pits ?tb)"
    by (simp_all add: timers_ok_def unique_keys_def mkTables_def mkScheduler_def sc_inv_def sc_pending_def)
  ultimately show ?thesis using c(1) d ft store by (simp add: mkForwarder_def nfd_inv_def)
qed

lemma reachable_inv:
  assumes "nfd_reachable env regions s" and "digest_ok (ne_digest env)"
  shows "nfd_inv {} env s"
  using assms(1)
proof induction
  case (reach_start s)
  with mkForwarder_inv [of env regions] show ?case by auto
next
  case (reach_step s ev s' as)
  with nfd_step_inv [OF reach_step.IH assms(2), of ev] show ?case by auto
qed

section \<open>Draining\<close>

lemma timers_drain:
  assumes "nfd_inv {} env s" and "\<forall>k t p. sc_pending (fw_sched s) k = Some (t, p) \<longrightarrow> t \<le> sc_now (fw_sched s)"
  shows "\<exists>n s'. nfd_run env (replicate n ExpiryTimer) s = Some (Def (s', [])) \<and> nfd_inv {} env s' \<and> tb_pits (fw_tables s') = (\<lambda>_. None) \<and>
    n \<le> length (sc_queue (fw_sched s)) \<and> fw_cs s' = fw_cs s \<and> fw_faces s' = fw_faces s"
  using assms
proof (induction "length (sc_queue (fw_sched s))" arbitrary: s rule: less_induct)
  case less
  note tm = nfd_invD(3) [OF less.prems(1)]
  show ?case
  proof (cases "takeExpired (fw_sched s)")
    case None
    have "sc_inv (fw_sched s)" using tm by (simp add: timers_ok_def)
    note late = scheduler.fire_none [OF this None]
    have none: "sc_pending (fw_sched s) k = None" for k
    proof (cases "sc_pending (fw_sched s) k")
      case (Some y)
      obtain t p where "y = (t, p)" by fastforce
      with Some late [of k t p] less.prems(2) [rule_format, of k t p] show ?thesis by simp
    qed
    have "tb_pits (fw_tables s) p = None" for p
    proof (rule ccontr)
      assume "tb_pits (fw_tables s) p \<noteq> None"
      then obtain pe where "tb_pits (fw_tables s) p = Some pe" by blast
      with timers_okD(2,3) [OF tm this] none show False by (cases "pt_expiryTimer pe") auto
    qed
    then show ?thesis using less.prems(1) by (intro exI [of _ 0] exI [of _ s]) auto
  next
    case (Some x)
    then obtain k p sch where "takeExpired (fw_sched s) = Some ((k, p), sch)" by (metis prod.collapse)
    from nfd_timer_erases [OF less.prems(1) this] obtain s1 where
      s1: "nfd_timer env s = Def s1" "nfd_inv {} env s1" "sc_pending (fw_sched s1) = (sc_pending (fw_sched s))(k := None)"
        "sc_now (fw_sched s1) = sc_now (fw_sched s)" "length (sc_queue (fw_sched s1)) < length (sc_queue (fw_sched s))"
        "fw_cs s1 = fw_cs s" "fw_faces s1 = fw_faces s" by blast
    have "\<forall>j t q. sc_pending (fw_sched s1) j = Some (t, q) \<longrightarrow> t \<le> sc_now (fw_sched s1)"
      using less.prems(2) s1(3,4) by auto
    from less.hyps [OF s1(5,2) this] obtain n s' where
      n: "nfd_run env (replicate n ExpiryTimer) s1 = Some (Def (s', []))" "nfd_inv {} env s'" "tb_pits (fw_tables s') = (\<lambda>_. None)"
        "n \<le> length (sc_queue (fw_sched s1))" "fw_cs s' = fw_cs s1" "fw_faces s' = fw_faces s1" by blast
    have "nfd_run env (replicate (Suc n) ExpiryTimer) s = Some (Def (s', []))" using n(1) s1(1) by (simp add: nfd_step_def silent_def)
    moreover have "Suc n \<le> length (sc_queue (fw_sched s))" using n(4) s1(5) by simp
    ultimately show ?thesis using n(2,3,5,6) s1(6,7) by metis
  qed
qed

section \<open>Looping Interests\<close>

lemma same_key_hint [simp]: "same_key i (j\<lparr> in_forwardingHint := h, in_wire := w \<rparr>) = same_key i j" "same_key i (j\<lparr> in_incomingFaceId := f \<rparr>) = same_key i j"
  by (simp_all add: same_key_def)

text \<open>The nonce is in a record of the entry: any record counts when the Interest is from a geo-face, otherwise not an in-record of the face itself.\<close>

definition nonce_seen :: "face \<Rightarrow> nonce \<Rightarrow> pit_entry \<Rightarrow> bool" where
  "nonce_seen inFace nonce pe \<longleftrightarrow>
     ((\<exists>r\<in>set (pt_inRecords pe). fr_lastNonce r = nonce) \<or> (\<exists>r\<in>set (pt_outRecords pe). fr_lastNonce r = nonce)) \<and>
     (fc_isGeoFace inFace \<or> (\<forall>r\<in>set (pt_inRecords pe). fr_face r = fc_id inFace \<longrightarrow> fr_lastNonce r \<noteq> nonce))"

lemma nonce_seen_duplicate:
  assumes "nonce_seen inFace nonce pe"
  shows "findDuplicateNonce pe nonce (fc_id inFace) \<noteq> []"
    and "\<not> fc_isGeoFace inFace \<Longrightarrow> InSame \<notin> set (findDuplicateNonce pe nonce (fc_id inFace))"
  using assms by (auto simp: nonce_seen_def findDuplicateNonce_def filter_empty_conv)

text \<open>A loop changes nothing but a counter and the shape of the name tree, and sends at most a Nack back.\<close>

definition only_nacks :: "face_id \<Rightarrow> nfd_action list \<Rightarrow> bool" where
  "only_nacks fid as \<longleftrightarrow> length as \<le> 1 \<and> (\<forall>a\<in>set as. \<exists>n. a = SendNack fid n \<and> nk_reason n = NACK_DUPLICATE)"

lemma only_nacks_loop [simp]: "only_nacks (fc_id inFace) (snd (onInterestLoop inFace i s))" "fst (onInterestLoop inFace i s) = s" "only_nacks fid []"
  by (simp_all add: only_nacks_def onInterestLoop_def)

lemma pit_loop:
  assumes "nfd_inv {} env s" and "interest_in s i0" and "tb_pits (fw_tables s) q = Some qe" and "same_key (pt_interest qe) i0"
    and "nonce_seen inFace (in_nonce i0) qe"
  shows "\<exists>s' as. onIncomingInterest env inFace i0 s = Some (Def (s', as)) \<and> only_nacks (fc_id inFace) as \<and> tb_pits (fw_tables s') = tb_pits (fw_tables s) \<and>
    fw_cs s' = fw_cs s \<and> fw_dnl s' = fw_dnl s \<and> fw_sched s' = fw_sched s"
proof -
  define i1 where "i1 = i0\<lparr> in_incomingFaceId := Some (fc_id inFace) \<rparr>"
  define s0 where "s0 = count_fw (\<lambda>c. c\<lparr> c_nInInterests := c_nInInterests c + 1 \<rparr>) s"
  define i where "i = (if in_forwardingHint i1 \<noteq> [] \<and> isInProducerRegion (in_forwardingHint i1) s0
      then i1\<lparr> in_forwardingHint := [], in_wire := None \<rparr> else i1)"
  have s0: "nfd_inv {} env s0" using assms(1) by (simp add: s0_def)
  have i: "interest_plain i" "hints_ok (fw_regions s0) (in_forwardingHint i)" "same_key (pt_interest qe) i" "in_nonce i = in_nonce i0"
    using assms(2,4) by (auto simp: i_def i1_def s0_def interest_in_def interest_plain_def producer_region)
  from pit_insert_ok [OF nfd_invD(2) [OF s0(1)] i(1,2)] obtain p isNew tb where
    ins: "pit_insert i (fw_tables s0) = Def ((p, isNew), tb)" "inserted i p isNew (fw_tables s0) tb" by blast
  have old: "\<not> isNew" "tb_pits tb = tb_pits (fw_tables s)" using ins(2) assms(3) i(3) by (auto simp: inserted_def s0_def split: if_splits)
  from ins(2) obtain pe where pe: "tb_pits tb p = Some pe" "same_key (pt_interest pe) i" by (auto simp: inserted_def)
  have "p = q" using nfd_invD(5) [OF assms(1)] pe assms(3) i(3) old(2) unfolding unique_keys_def by (metis same_key_sym same_key_trans)
  with pe(1) old(2) assms(3) have "tb_pits tb p = Some qe" by simp
  moreover note nonce_seen_duplicate [OF assms(5)]
  ultimately have "onIncomingInterest env inFace i0 s =
    (if fc_scope inFace = ScopeNonLocal \<and> isPrefixOf localhost (in_name i1) then Some (Def (s0, []))
     else if dnl_has (ne_city env) (in_name i1) (in_nonce i1) (fw_dnl s0) then Some (Def (onInterestLoop inFace i1 s0))
     else Some (Def (onInterestLoop inFace i (s0\<lparr> fw_tables := tb \<rparr>))))"
    unfolding onIncomingInterest_def Let_def i1_def [symmetric] s0_def [symmetric] i_def [symmetric] by (auto simp: ins(1) i(4))
  moreover have loop: "\<exists>as. onInterestLoop inFace j t = (t, as) \<and> only_nacks (fc_id inFace) as" for j t
    using only_nacks_loop(1,2) [of inFace j t] by (metis prod.collapse)
  obtain as1 as2 where "onInterestLoop inFace i1 s0 = (s0, as1)" "only_nacks (fc_id inFace) as1"
    "onInterestLoop inFace i (s0\<lparr> fw_tables := tb \<rparr>) = (s0\<lparr> fw_tables := tb \<rparr>, as2)" "only_nacks (fc_id inFace) as2" using loop by blast
  ultimately show ?thesis using old(2) by (simp add: s0_def)
qed

end
