(* ===== verification/Spec2Isabelle.thy ===== *)
theory Spec2Isabelle
  imports Val_Timers Val_Relay Val_Forwarding Val_Air Nfd_Runs
begin

text \<open>
  A verification library for VAL, the Vehicle Adaptation Layer, an ndnSIM scenario stack in which a vehicle runs
  NFD over a broadcast radio. VAL sits between NFD and the radio: NFD hands it Interests and Data through
  geo-faces, one per area of the map; VAL wraps them into a ValPacket with a ValHeader (source and
  destination area, position of the previous hop, route name, hop counter), decides with the distance
  strategy after what delay the packet is put on the radio, cancels the transmission when another vehicle was
  faster, retransmits until it hears the implicit acknowledgement, and gives to NFD what it hears for the
  first time.

  \<^bold>\<open>Parts and theories.\<close> File names are relative to \<open>src/\<close>.

  \<^item> \<open>Val_Prelude\<close>: results, undefined behaviour as a value (\<open>outcome\<close>), traversals of \<open>std::list\<close>, word lemmas.
  \<^item> \<open>Tlv_Encoding\<close>, \<open>Tlv_Encoder\<close>, \<open>Tlv_Block\<close>: \<open>ndn-cxx/ndn-cxx/encoding/\<close>. Variable-length numbers, the growing
    encoder buffer with its estimator twin, blocks with their lazily parsed elements.
  \<^item> \<open>Ndn_Types\<close>, \<open>Ndn_Uri\<close>, \<open>Ndn_Wire\<close>, \<open>Ndn_Order\<close>: names, Interest, Data, selectors, matching, wire formats in both
    directions, URI form of components, the canonical order of names and the successor of a name.
  \<^item> \<open>Lp_Packet\<close>, \<open>Lp_Fragmentation\<close>: the NDNLPv2 packet (\<open>lp/packet.cpp\<close>), fragmenter and reassembler
    (\<open>NFD/daemon/face/lp-fragmenter.cpp\<close>, \<open>lp-reassembler.cpp\<close>).
  \<^item> \<open>Val_Header\<close>, \<open>Val_Packet\<close>: \<open>model/val/val-header.cpp\<close>, \<open>val-packet.cpp\<close>.
  \<^item> \<open>Val_Table\<close>, \<open>Val_F2a\<close>, \<open>Val_Ifnt\<close>, \<open>Val_Dfnt\<close>, \<open>Val_Pft\<close>: \<open>model/val/table/\<close>. \<open>Val_Table\<close> has the locale that the
    list tables share. Entries of the PFT are objects on a heap, because the code keeps pointers to them in timers.
  \<^item> \<open>Doubles\<close>, \<open>Val_Strategy\<close>, \<open>Val_Timers\<close>, \<open>Val_Relay\<close>: \<open>model/val/fw/val-distances-strategy.cpp\<close>. A double is a rational
    number and every operation rounds to the nearest double.
  \<^item> \<open>Nfd_Face\<close>, \<open>Nfd_Scheduler\<close>: face table with VAL's two kinds of faces, event scheduler.
  \<^item> \<open>Val_Forwarder\<close>, \<open>Val_Runs\<close>, \<open>Val_Forwarding\<close>: \<open>model/val/fw/val-forwarder.cpp\<close>. The handlers and timer callbacks; the
    step relation over them with its invariant; the properties of the forwarder.
  \<^item> \<open>Val_Link_Service\<close>, \<open>Val_Air\<close>: \<open>model/val/face/val-link-service.cpp\<close> and what it gives together with fragmentation,
    wire formats and header: packets over the air.
  \<^item> \<open>Nfd_Cs_Table\<close>, \<open>Nfd_Cs\<close>: the content store \<open>NFD/daemon/table/cs.cpp\<close> with its two replacement policies.

  \<^bold>\<open>How the model is built.\<close> A class is a record, its methods are functions on the record; a handler returns the new state
  and the list of packets it sends. An exception is the left side of a sum, undefined behaviour and a failed
  assertion are \<open>Undef\<close>. Machine integers are words. Signals are returned values. Clock readings are
  integers in nanoseconds. A loop without an obvious bound (\<open>findRightmost\<close>) is a partial function into
  \<open>option\<close>, and its termination is part of the property about it; every other loop is a total function. No
  definition needs fuel. The mobility model, the distances, the random numbers and the digest of a Data packet are
  parameters.

  \<^bold>\<open>What is shown.\<close> The forwarder keeps its invariant in every reachable state, never transmits a superseded packet,
  transmits a packet at most four times, and hands a new Interest to NFD exactly once. A packet is relayed fewer
  times than its hop counter says, and an Interest with a destination gets closer with every relay. The closer vehicle has the
  shorter timer, with the rounding of doubles taken into account. What one link service sends, fragmented
  and in any order, another one receives unchanged, and no frame exceeds the MTU. Wire formats round-trip.
  The content store never fails an assertion, its lookup returns and is exact, and its LRU policy refines
  the recency list. Lemmas without a claim number record defects of the code that the model showed.

  \<^bold>\<open>Interfaces.\<close> The locales are \<open>timer_service\<close> (scheduler), the table contract of \<open>Val_Table\<close>, the relay contract of
  \<open>Val_Relay\<close>, and \<open>cs_replacement\<close> (policies of the content store); each is interpreted on the model's own definitions.

  \<^bold>\<open>Not modelled.\<close> Socket and device I/O, the simulator's own code, management and configuration, cryptography, the
  client library of ndn-cxx, the strategies of NFD that VAL does not use, logging. The editing operations of
  Exclude and DelegationList and the parsing of whole URIs are left out. The empty placeholder files of VAL have no behaviour.
\<close>

end
